(* ===== verification/RustStr.thy ===== *)
theory RustStr
  imports Prelude
begin

text \<open>
  The string functions of Rust's standard library that the sources call, on UTF-8 byte
  strings: ASCII classification and case mapping, \<open>split\<close>, \<open>split_once\<close>, prefixes and
  suffixes, \<open>replace\<close>, the \<open>chars\<close> iterator with \<open>is_control\<close> and \<open>is_whitespace\<close>, \<open>trim\<close>, and
  unsigned decimal \<open>parse\<close> and \<open>to_string\<close>.
\<close>

section \<open>ASCII bytes\<close>

definition byte :: "char \<Rightarrow> nat" where
  "byte c = of_char c"

definition is_ascii_lowercase :: "char \<Rightarrow> bool" where
  "is_ascii_lowercase c = (97 \<le> byte c \<and> byte c \<le> 122)"

definition is_ascii_uppercase :: "char \<Rightarrow> bool" where
  "is_ascii_uppercase c = (65 \<le> byte c \<and> byte c \<le> 90)"

definition is_ascii_digit :: "char \<Rightarrow> bool" where
  "is_ascii_digit c = (48 \<le> byte c \<and> byte c \<le> 57)"

definition is_ascii_alphanumeric :: "char \<Rightarrow> bool" where
  "is_ascii_alphanumeric c = (is_ascii_lowercase c \<or> is_ascii_uppercase c \<or> is_ascii_digit c)"

definition is_ascii_hexdigit :: "char \<Rightarrow> bool" where
  "is_ascii_hexdigit c =
     (is_ascii_digit c \<or> (97 \<le> byte c \<and> byte c \<le> 102) \<or> (65 \<le> byte c \<and> byte c \<le> 70))"

definition lower_byte :: "char \<Rightarrow> char" where
  "lower_byte c = (if is_ascii_uppercase c then char_of (byte c + 32) else c)"

definition upper_byte :: "char \<Rightarrow> char" where
  "upper_byte c = (if is_ascii_lowercase c then char_of (byte c - 32) else c)"

definition to_ascii_lowercase :: "string \<Rightarrow> string" where
  "to_ascii_lowercase s = map lower_byte s"

definition to_ascii_uppercase :: "string \<Rightarrow> string" where
  "to_ascii_uppercase s = map upper_byte s"

definition eq_ignore_ascii_case :: "string \<Rightarrow> string \<Rightarrow> bool" where
  "eq_ignore_ascii_case s t = (to_ascii_lowercase s = to_ascii_lowercase t)"

lemmas ascii_defs = is_ascii_lowercase_def is_ascii_uppercase_def is_ascii_digit_def
  is_ascii_alphanumeric_def is_ascii_hexdigit_def

lemma byte_less: "byte c < 256"
  by (simp add: byte_def)

lemma byte_lower: "byte (lower_byte c) = (if is_ascii_uppercase c then byte c + 32 else byte c)"
  by (auto simp: lower_byte_def byte_def is_ascii_uppercase_def)

lemma lower_byte_idem [simp]: "lower_byte (lower_byte c) = lower_byte c"
  by (auto simp: lower_byte_def byte_def is_ascii_uppercase_def)

lemma to_ascii_lowercase_idem [simp]: "to_ascii_lowercase (to_ascii_lowercase s) = to_ascii_lowercase s"
  by (simp add: to_ascii_lowercase_def)

lemma length_to_ascii_lowercase [simp]: "length (to_ascii_lowercase s) = length s"
  by (simp add: to_ascii_lowercase_def)

lemma hexdigit_lower_byte [simp]: "is_ascii_hexdigit (lower_byte c) \<longleftrightarrow> is_ascii_hexdigit c"
  by (auto simp: is_ascii_hexdigit_def is_ascii_digit_def byte_lower is_ascii_uppercase_def)

lemma hexdigits_to_ascii_lowercase [simp]:
  "list_all is_ascii_hexdigit (to_ascii_lowercase s) \<longleftrightarrow> list_all is_ascii_hexdigit s"
  by (simp add: to_ascii_lowercase_def list_all_iff)

section \<open>Splitting and searching\<close>

text \<open>\<open>str::split\<close> on an ASCII separator: always at least one part.\<close>

fun split_on :: "char \<Rightarrow> string \<Rightarrow> string list" where
  "split_on c [] = [[]]"
| "split_on c (x # xs) =
     (if x = c then [] # split_on c xs
      else (case split_on c xs of [] \<Rightarrow> [[x]] | p # ps \<Rightarrow> (x # p) # ps))"

text \<open>\<open>[..].join(sep)\<close>.\<close>

fun join_with :: "char \<Rightarrow> string list \<Rightarrow> string" where
  "join_with c [] = []"
| "join_with c [p] = p"
| "join_with c (p # q # ps) = p @ c # join_with c (q # ps)"

text \<open>\<open>str::split_once\<close> on an ASCII separator: the first occurrence.\<close>

fun split_once :: "char \<Rightarrow> string \<Rightarrow> (string \<times> string) option" where
  "split_once c [] = None"
| "split_once c (x # xs) =
     (if x = c then Some ([], xs)
      else map_option (\<lambda>(a, b). (x # a, b)) (split_once c xs))"

definition starts_with :: "string \<Rightarrow> string \<Rightarrow> bool" where
  "starts_with s p = (take (length p) s = p)"

definition ends_with :: "string \<Rightarrow> string \<Rightarrow> bool" where
  "ends_with s p = (length p \<le> length s \<and> drop (length s - length p) s = p)"

definition strip_prefix :: "string \<Rightarrow> string \<Rightarrow> string option" where
  "strip_prefix p s = (if starts_with s p then Some (drop (length p) s) else None)"

definition strip_suffix :: "string \<Rightarrow> string \<Rightarrow> string option" where
  "strip_suffix p s = (if ends_with s p then Some (take (length s - length p) s) else None)"

fun contains_str :: "string \<Rightarrow> string \<Rightarrow> bool" where
  "contains_str [] p = (p = [])"
| "contains_str (x # xs) p = (starts_with (x # xs) p \<or> contains_str xs p)"

text \<open>\<open>str::replace\<close> with a non-empty pattern: left to right, without overlaps.\<close>

function replace_str :: "string \<Rightarrow> string \<Rightarrow> string \<Rightarrow> string" where
  "replace_str p r [] = []"
| "replace_str p r (x # xs) =
     (if p \<noteq> [] \<and> starts_with (x # xs) p then r @ replace_str p r (drop (length p) (x # xs))
      else x # replace_str p r xs)"
  by pat_completeness auto
termination
  by (relation "measure (\<lambda>(p, r, s). length s)") auto

lemma split_on_nonempty [simp]: "split_on c s \<noteq> []"
  by (induction s) (auto split: list.splits)

lemma split_on_no_sep: "p \<in> set (split_on c s) \<Longrightarrow> c \<notin> set p"
  by (induction s arbitrary: p) (auto split: list.splits if_splits)

lemma split_on_chars: "p \<in> set (split_on c s) \<Longrightarrow> set p \<subseteq> set s"
  by (induction s arbitrary: p) (fastforce split: list.splits if_splits)+

lemma join_split [simp]: "join_with c (split_on c s) = s"
proof (induction s)
  case (Cons x xs)
  obtain p ps where "split_on c xs = p # ps"
    by (cases "split_on c xs") auto
  with Cons show ?case by (cases ps) auto
qed simp

lemma split_on_append_sep:
  "c \<notin> set p \<Longrightarrow> split_on c (p @ c # s) = p # split_on c s"
  by (induction p) auto

lemma split_on_no_occurrence: "c \<notin> set p \<Longrightarrow> split_on c p = [p]"
  by (induction p) auto

lemma split_join:
  "ps \<noteq> [] \<Longrightarrow> (\<forall>p \<in> set ps. c \<notin> set p) \<Longrightarrow> split_on c (join_with c ps) = ps"
  by (induction c ps rule: join_with.induct) (auto simp: split_on_append_sep split_on_no_occurrence)

lemma split_once_Some:
  "split_once c s = Some (a, b) \<longleftrightarrow> s = a @ c # b \<and> c \<notin> set a"
proof (induction s arbitrary: a)
  case (Cons x xs)
  show ?case
  proof (cases "x = c")
    case True
    then show ?thesis by (cases a) auto
  next
    case False
    with Cons.IH show ?thesis by (cases a) auto
  qed
qed simp

lemma split_once_None: "split_once c s = None \<longleftrightarrow> c \<notin> set s"
  by (induction s) auto

lemma starts_with_append [simp]: "starts_with (p @ s) p"
  by (simp add: starts_with_def)

lemma starts_with_iff: "starts_with s p \<longleftrightarrow> (\<exists>t. s = p @ t)"
  by (metis append_take_drop_id starts_with_def append_eq_conv_conj)

lemma ends_with_iff: "ends_with s p \<longleftrightarrow> (\<exists>t. s = t @ p)"
  by (auto simp: ends_with_def) (metis append_take_drop_id)

lemma strip_prefix_Some [simp]: "strip_prefix p s = Some t \<longleftrightarrow> s = p @ t"
  by (auto simp: strip_prefix_def starts_with_iff)

lemma strip_suffix_Some [simp]: "strip_suffix p s = Some t \<longleftrightarrow> s = t @ p"
  by (auto simp: strip_suffix_def ends_with_iff)

lemma contains_str_iff: "contains_str s p \<longleftrightarrow> (\<exists>a b. s = a @ p @ b)"
proof (induction s)
  case (Cons x xs)
  have "(\<exists>a b. x # xs = a @ p @ b) \<longleftrightarrow> (\<exists>t. x # xs = p @ t) \<or> (\<exists>a b. xs = a @ p @ b)"
    (is "?l \<longleftrightarrow> ?r")
  proof
    assume ?l
    then obtain a b where ab: "x # xs = a @ p @ b" by blast
    then show ?r by (cases a) auto
  next
    assume ?r
    then show ?l by (metis append_Cons append_Nil)
  qed
  with Cons show ?case by (simp add: starts_with_iff)
qed simp

section \<open>Characters of a UTF-8 string\<close>

definition utf8_len :: "char \<Rightarrow> nat" where
  "utf8_len b = (if byte b < 192 then 1 else if byte b < 224 then 2 else if byte b < 240 then 3 else 4)"

text \<open>\<open>str::chars\<close>: each element is the byte sequence of one scalar value.\<close>

function chars :: "string \<Rightarrow> string list" where
  "chars [] = []"
| "chars (b # bs) = (b # take (utf8_len b - 1) bs) # chars (drop (utf8_len b - 1) bs)"
  by pat_completeness auto
termination
  by (relation "measure length") (auto simp: less_Suc_eq_le)

text \<open>\<open>char::is_control\<close>: U+0000..U+001F, U+007F and U+0080..U+009F.\<close>

fun is_control :: "string \<Rightarrow> bool" where
  "is_control [b] = (byte b < 32 \<or> byte b = 127)"
| "is_control [a, b] = (byte a = 194 \<and> 128 \<le> byte b \<and> byte b < 160)"
| "is_control _ = False"

text \<open>\<open>char::is_whitespace\<close>: the Unicode property White\_Space.\<close>

fun is_whitespace :: "string \<Rightarrow> bool" where
  "is_whitespace [b] = ((9 \<le> byte b \<and> byte b \<le> 13) \<or> byte b = 32)"
| "is_whitespace [a, b] = (byte a = 194 \<and> (byte b = 133 \<or> byte b = 160))"
| "is_whitespace [a, b, c] =
     ((byte a = 225 \<and> byte b = 154 \<and> byte c = 128)
      \<or> (byte a = 226 \<and> byte b = 128 \<and>
           ((128 \<le> byte c \<and> byte c \<le> 138) \<or> byte c = 168 \<or> byte c = 169 \<or> byte c = 175))
      \<or> (byte a = 226 \<and> byte b = 129 \<and> byte c = 159)
      \<or> (byte a = 227 \<and> byte b = 128 \<and> byte c = 128))"
| "is_whitespace _ = False"

definition has_control :: "string \<Rightarrow> bool" where
  "has_control s = list_ex is_control (chars s)"

definition trim :: "string \<Rightarrow> string" where
  "trim s = concat (rev (dropWhile is_whitespace (rev (dropWhile is_whitespace (chars s)))))"

text \<open>\<open>s.trim().is_empty()\<close>.\<close>

abbreviation is_blank :: "string \<Rightarrow> bool" where
  "is_blank s \<equiv> trim s = []"

lemma concat_chars [simp]: "concat (chars s) = s"
  by (induction s rule: chars.induct) simp_all

lemma chars_nonempty: "x \<in> set (chars s) \<Longrightarrow> x \<noteq> []"
  by (induction s rule: chars.induct) auto

lemma set_chars: "x \<in> set (chars s) \<Longrightarrow> set x \<subseteq> set s"
  by (metis concat_chars set_concat UN_upper)

text \<open>A byte string of ASCII bytes is the list of its characters.\<close>

lemma chars_ascii: "\<forall>b \<in> set s. byte b < 192 \<Longrightarrow> chars s = map (\<lambda>b. [b]) s"
  by (induction s) (auto simp: utf8_len_def)

lemma has_control_ascii:
  "\<forall>b \<in> set s. byte b < 192 \<Longrightarrow> has_control s \<longleftrightarrow> (\<exists>b \<in> set s. byte b < 32 \<or> byte b = 127)"
  by (simp add: has_control_def chars_ascii list_ex_iff)

section \<open>Unsigned decimals\<close>

definition digit_val :: "char \<Rightarrow> nat" where
  "digit_val c = byte c - 48"

definition digits_val :: "string \<Rightarrow> nat" where
  "digits_val s = foldl (\<lambda>n c. 10 * n + digit_val c) 0 s"

text \<open>
  \<open>str::parse::<uN>\<close>: an optional plus sign, at least one digit, no overflow of the width.
\<close>

definition parse_unsigned :: "nat \<Rightarrow> string \<Rightarrow> nat option" where
  "parse_unsigned w s =
     (let d = (case strip_prefix ''+'' s of Some t \<Rightarrow> t | None \<Rightarrow> s) in
      if d = [] \<or> \<not> list_all is_ascii_digit d then None
      else if digits_val d < 2 ^ w then Some (digits_val d) else None)"

text \<open>\<open>to_string\<close> of an unsigned integer.\<close>

fun show_nat :: "nat \<Rightarrow> string" where
  "show_nat n = (if n < 10 then [char_of (48 + n)] else show_nat (n div 10) @ [char_of (48 + n mod 10)])"

declare show_nat.simps [simp del]

lemma byte_char_of_digit: "n < 10 \<Longrightarrow> byte (char_of (48 + n)) = 48 + n"
  by (simp add: byte_def)

lemma show_nat_digits: "list_all is_ascii_digit (show_nat n)"
proof (induction n rule: show_nat.induct)
  case (1 n)
  show ?case
  proof (cases "n < 10")
    case True
    then show ?thesis
      by (simp add: show_nat.simps [of n] is_ascii_digit_def byte_char_of_digit)
  next
    case False
    with "1.IH" show ?thesis
      by (simp add: show_nat.simps [of n] is_ascii_digit_def byte_char_of_digit)
  qed
qed

lemma show_nat_nonempty [simp]: "show_nat n \<noteq> []"
  by (subst show_nat.simps) simp

lemma digits_val_show_nat: "digits_val (show_nat n) = n"
proof (induction n rule: show_nat.induct)
  case (1 n)
  show ?case
  proof (cases "n < 10")
    case True
    then show ?thesis
      by (simp add: show_nat.simps [of n] digits_val_def digit_val_def byte_char_of_digit)
  next
    case False
    with "1.IH" show ?thesis
      by (simp add: show_nat.simps [of n] digits_val_def digit_val_def byte_char_of_digit)
  qed
qed

text \<open>Printing and parsing an integer of the width is the identity.\<close>

lemma parse_show_nat [simp]:
  assumes "n < 2 ^ w"
  shows "parse_unsigned w (show_nat n) = Some n"
proof -
  have "strip_prefix ''+'' (show_nat n) = None"
  proof (cases "strip_prefix ''+'' (show_nat n)")
    case (Some t)
    then have "show_nat n = CHR ''+'' # t" by simp
    with show_nat_digits [of n] show ?thesis
      by (simp add: is_ascii_digit_def byte_def)
  qed
  with assms show_nat_digits [of n] show ?thesis
    by (simp add: parse_unsigned_def digits_val_show_nat)
qed

lemma parse_unsigned_less: "parse_unsigned w s = Some n \<Longrightarrow> n < 2 ^ w"
  by (auto simp: parse_unsigned_def Let_def split: if_splits)

section \<open>Hexadecimal digits\<close>

text \<open>The \<open>{:x}\<close> formatting of a byte array.\<close>

definition hex_digit :: "nat \<Rightarrow> char" where
  "hex_digit n = char_of (if n < 10 then 48 + n else 87 + n)"

definition lower_hex :: "string \<Rightarrow> string" where
  "lower_hex bytes = concat (map (\<lambda>b. [hex_digit (byte b div 16), hex_digit (byte b mod 16)]) bytes)"

section \<open>Evaluation\<close>

text \<open>
  Code equations on the bits of a byte, in place of arithmetic on natural numbers, for the evaluation of
  examples.
\<close>

lemma byte_le: "byte c \<le> byte d \<longleftrightarrow> c \<le> d" by (simp add: byte_def less_eq_char_def)
lemma byte_lt: "byte c < byte d \<longleftrightarrow> c < d" by (simp add: byte_def less_char_def)

lemma ascii_code [code]:
  "is_ascii_lowercase c \<longleftrightarrow> CHR ''a'' \<le> c \<and> c \<le> CHR ''z''"
  "is_ascii_uppercase c \<longleftrightarrow> CHR ''A'' \<le> c \<and> c \<le> CHR ''Z''"
  "is_ascii_digit c \<longleftrightarrow> CHR ''0'' \<le> c \<and> c \<le> CHR ''9''"
  "is_ascii_hexdigit c \<longleftrightarrow> is_ascii_digit c \<or> CHR ''a'' \<le> c \<and> c \<le> CHR ''f'' \<or> CHR ''A'' \<le> c \<and> c \<le> CHR ''F''"
  by (simp_all add: ascii_defs byte_le [symmetric]) (simp_all add: byte_def)

lemma byte_Char: "byte (Char b0 b1 b2 b3 b4 b5 b6 b7) = of_bool b0 + 2 * of_bool b1 + 4 * of_bool b2 + 8 * of_bool b3 +
    16 * of_bool b4 + 32 * of_bool b5 + 64 * of_bool b6 + 128 * of_bool b7"
  by (simp add: byte_def of_char_def)

lemma char_of_byte [simp]: "char_of (byte c) = c"
  by (simp add: byte_def)

lemma byte_inject: "byte b = byte c \<longleftrightarrow> b = c"
  by (simp add: byte_def)

lemmas byte_order = byte_lt [symmetric] byte_le [symmetric] byte_inject [symmetric] byte_Char

lemma case_code [code]:
  "lower_byte (Char b0 b1 b2 b3 b4 b5 b6 b7) =
     (if is_ascii_uppercase (Char b0 b1 b2 b3 b4 b5 b6 b7) then Char b0 b1 b2 b3 b4 True b6 b7 else Char b0 b1 b2 b3 b4 b5 b6 b7)"
  "upper_byte (Char b0 b1 b2 b3 b4 b5 b6 b7) =
     (if is_ascii_lowercase (Char b0 b1 b2 b3 b4 b5 b6 b7) then Char b0 b1 b2 b3 b4 False b6 b7 else Char b0 b1 b2 b3 b4 b5 b6 b7)"
proof -
  let ?c = "\<lambda>b. Char b0 b1 b2 b3 b4 b b6 b7"
  have add: "byte (?c True) = byte (?c False) + 32" by (simp add: byte_Char)
  have up: "b5 = False" if "is_ascii_uppercase (?c b5)"
    using that unfolding is_ascii_uppercase_def byte_Char by (cases b5; cases b6; cases b7; cases b4; cases b3; cases b2; cases b1; cases b0) simp_all
  have low: "b5 = True" if "is_ascii_lowercase (?c b5)"
    using that unfolding is_ascii_lowercase_def byte_Char by (cases b5; cases b6; cases b7; cases b4; cases b3; cases b2; cases b1; cases b0) simp_all
  have "char_of (byte (?c False) + 32) = ?c True" unfolding add [symmetric] by (rule char_of_byte)
  then show "lower_byte (?c b5) = (if is_ascii_uppercase (?c b5) then ?c True else ?c b5)"
    using up unfolding lower_byte_def by (cases b5) auto
  have "char_of (byte (?c True) - 32) = ?c False" unfolding add by simp
  then show "upper_byte (?c b5) = (if is_ascii_lowercase (?c b5) then ?c False else ?c b5)"
    using low unfolding upper_byte_def by (cases b5) auto
qed

lemma utf8_len_code [code]:
  "utf8_len c = (if c < CHR 0xC0 then 1 else if c < CHR 0xE0 then 2 else if c < CHR 0xF0 then 3 else 4)"
  by (simp add: utf8_len_def byte_lt [symmetric]) (simp add: byte_def)

lemma is_control_code [code]:
  "is_control s = (case s of [b] \<Rightarrow> b < CHR 0x20 \<or> b = CHR 0x7F
     | [a, b] \<Rightarrow> a = CHR 0xC2 \<and> CHR 0x80 \<le> b \<and> b < CHR 0xA0 | _ \<Rightarrow> False)"
  by (cases s rule: is_control.cases) (simp_all add: byte_order)

lemma is_whitespace_code [code]:
  "is_whitespace s = (case s of
       [b] \<Rightarrow> (CHR 0x09 \<le> b \<and> b \<le> CHR 0x0D) \<or> b = CHR 0x20
     | [a, b] \<Rightarrow> a = CHR 0xC2 \<and> (b = CHR 0x85 \<or> b = CHR 0xA0)
     | [a, b, c] \<Rightarrow>
         (a = CHR 0xE1 \<and> b = CHR 0x9A \<and> c = CHR 0x80)
         \<or> (a = CHR 0xE2 \<and> b = CHR 0x80 \<and>
              ((CHR 0x80 \<le> c \<and> c \<le> CHR 0x8A) \<or> c = CHR 0xA8 \<or> c = CHR 0xA9 \<or> c = CHR 0xAF))
         \<or> (a = CHR 0xE2 \<and> b = CHR 0x81 \<and> c = CHR 0x9F)
         \<or> (a = CHR 0xE3 \<and> b = CHR 0x80 \<and> c = CHR 0x80)
     | _ \<Rightarrow> False)"
  by (cases s rule: is_whitespace.cases) (simp_all add: byte_order)

lemma backslash_code [code_unfold]: "char_of (92 :: nat) = CHR 0x5C"
  using char_of_byte [of "CHR 0x5C"] by (simp add: byte_Char)

lemma show_nat_code [code]:
  "show_nat n = (if n < 10 then [''0123456789'' ! n] else show_nat (n div 10) @ [''0123456789'' ! (n mod 10)])"
proof -
  have "char_of (48 + k) = ''0123456789'' ! k" if "k < 10" for k :: nat
  proof -
    have "k \<in> {0, 1, 2, 3, 4, 5, 6, 7, 8, 9}" using that by auto
    then show ?thesis
      using char_of_byte [of "CHR ''0''"] char_of_byte [of "CHR ''1''"] char_of_byte [of "CHR ''2''"] char_of_byte [of "CHR ''3''"]
        char_of_byte [of "CHR ''4''"] char_of_byte [of "CHR ''5''"] char_of_byte [of "CHR ''6''"] char_of_byte [of "CHR ''7''"]
        char_of_byte [of "CHR ''8''"] char_of_byte [of "CHR ''9''"]
      by (auto simp: byte_Char numeral_eq_Suc)
  qed
  then show ?thesis by (subst show_nat.simps) simp
qed

lemma byte_code [code]: "byte (Char b0 b1 b2 b3 b4 b5 b6 b7) =
    (if b0 then 1 else 0) + (if b1 then 2 else 0) + (if b2 then 4 else 0) + (if b3 then 8 else 0) +
    (if b4 then 16 else 0) + (if b5 then 32 else 0) + (if b6 then 64 else 0) + (if b7 then 128 else 0)"
  by (simp add: byte_Char)

definition hex_of_bits :: "bool \<Rightarrow> bool \<Rightarrow> bool \<Rightarrow> bool \<Rightarrow> char" where
  "hex_of_bits b0 b1 b2 b3 =
     (if b3 then (if b2 then (if b1 then (if b0 then CHR ''f'' else CHR ''e'') else (if b0 then CHR ''d'' else CHR ''c''))
                  else (if b1 then (if b0 then CHR ''b'' else CHR ''a'') else (if b0 then CHR ''9'' else CHR ''8'')))
      else (if b2 then (if b1 then (if b0 then CHR ''7'' else CHR ''6'') else (if b0 then CHR ''5'' else CHR ''4''))
            else (if b1 then (if b0 then CHR ''3'' else CHR ''2'') else (if b0 then CHR ''1'' else CHR ''0''))))"

lemma hex_of_bits: "hex_digit (of_bool b0 + 2 * of_bool b1 + 4 * of_bool b2 + 8 * of_bool b3) = hex_of_bits b0 b1 b2 b3"
proof -
  let ?n = "of_bool b0 + 2 * of_bool b1 + 4 * of_bool b2 + 8 * of_bool b3 :: nat"
  have "(if ?n < 10 then 48 + ?n else 87 + ?n) = byte (hex_of_bits b0 b1 b2 b3)"
    by (cases b0; cases b1; cases b2; cases b3) (simp_all add: hex_of_bits_def byte_Char)
  then show ?thesis unfolding hex_digit_def by (simp only: char_of_byte)
qed

lemma lower_hex_code [code]:
  "lower_hex [] = []"
  "lower_hex (Char b0 b1 b2 b3 b4 b5 b6 b7 # bs) = hex_of_bits b4 b5 b6 b7 # hex_of_bits b0 b1 b2 b3 # lower_hex bs"
proof -
  have n: "byte (Char b0 b1 b2 b3 b4 b5 b6 b7) =
      (of_bool b0 + 2 * of_bool b1 + 4 * of_bool b2 + 8 * of_bool b3) +
      16 * (of_bool b4 + 2 * of_bool b5 + 4 * of_bool b6 + 8 * of_bool b7)" by (simp add: byte_Char)
  have low: "of_bool b0 + 2 * of_bool b1 + 4 * of_bool b2 + 8 * of_bool b3 < (16 :: nat)"
    by (cases b0; cases b1; cases b2; cases b3) simp_all
  have "byte (Char b0 b1 b2 b3 b4 b5 b6 b7) div 16 = of_bool b4 + 2 * of_bool b5 + 4 * of_bool b6 + 8 * of_bool b7"
    "byte (Char b0 b1 b2 b3 b4 b5 b6 b7) mod 16 = of_bool b0 + 2 * of_bool b1 + 4 * of_bool b2 + 8 * of_bool b3"
    unfolding n using low by simp_all
  then show "lower_hex (Char b0 b1 b2 b3 b4 b5 b6 b7 # bs) = hex_of_bits b4 b5 b6 b7 # hex_of_bits b0 b1 b2 b3 # lower_hex bs"
    by (simp add: lower_hex_def hex_of_bits)
qed (simp add: lower_hex_def)

end
