(* ===== verification/BTree.thy ===== *)
theory BTree
  imports RustStr
begin

text \<open>
  \<open>BTreeMap\<close> and \<open>BTreeSet\<close>.  The sources iterate over both in key order and compare maps for
  equality, so a map is the association list of its entries in increasing key order and a
  set is its increasing list of elements.  The contract the components rely on is the locale
  \<open>ordered_map\<close>; it is interpreted on this representation.
\<close>

section \<open>The contract of an ordered map\<close>

locale ordered_map =
  fixes empty :: "'m"
    and insert_entry :: "'k::linorder \<Rightarrow> 'v \<Rightarrow> 'm \<Rightarrow> 'm"
    and remove_entry :: "'k \<Rightarrow> 'm \<Rightarrow> 'm"
    and get_entry :: "'m \<Rightarrow> 'k \<Rightarrow> 'v option"
    and entries :: "'m \<Rightarrow> ('k \<times> 'v) list"
    and wf_map :: "'m \<Rightarrow> bool"
  assumes get_empty: "get_entry empty k = None"
    and get_insert: "wf_map m \<Longrightarrow> get_entry (insert_entry k v m) k' = (if k' = k then Some v else get_entry m k')"
    and get_remove: "wf_map m \<Longrightarrow> get_entry (remove_entry k m) k' = (if k' = k then None else get_entry m k')"
    and get_entries: "wf_map m \<Longrightarrow> get_entry m k = Some v \<longleftrightarrow> (k, v) \<in> set (entries m)"
    and entries_sorted: "wf_map m \<Longrightarrow> sorted_wrt (<) (map fst (entries m))"
    and wf_empty: "wf_map empty"
    and wf_insert: "wf_map m \<Longrightarrow> wf_map (insert_entry k v m)"
    and wf_remove: "wf_map m \<Longrightarrow> wf_map (remove_entry k m)"
begin

text \<open>\<open>iter().collect::<BTreeMap<_, _>>()\<close>: later entries replace earlier ones.\<close>

definition collect_entries :: "('k \<times> 'v) list \<Rightarrow> 'm" where
  "collect_entries kvs = foldl (\<lambda>m (k, v). insert_entry k v m) empty kvs"

lemma wf_foldl_insert: "wf_map m \<Longrightarrow> wf_map (foldl (\<lambda>m (k, v). insert_entry k v m) m kvs)"
  by (induction kvs arbitrary: m) (auto simp: wf_insert)

lemma get_foldl_insert:
  "wf_map m \<Longrightarrow> get_entry (foldl (\<lambda>m (k, v). insert_entry k v m) m kvs) k =
     (case map_of (rev kvs) k of None \<Rightarrow> get_entry m k | Some v \<Rightarrow> Some v)"
proof (induction kvs arbitrary: m)
  case (Cons e kvs)
  obtain a b where e: "e = (a, b)" by (cases e)
  have "wf_map (insert_entry a b m)" using Cons.prems by (rule wf_insert)
  then show ?case
    using Cons.IH [of "insert_entry a b m"] Cons.prems
    by (auto simp: e get_insert map_add_def split: option.splits)
qed simp

lemma wf_collect: "wf_map (collect_entries kvs)"
  by (simp add: collect_entries_def wf_foldl_insert wf_empty)

lemma get_collect: "get_entry (collect_entries kvs) k = map_of (rev kvs) k"
  by (simp add: collect_entries_def get_foldl_insert wf_empty get_empty split: option.splits)

lemma entries_distinct: "wf_map m \<Longrightarrow> distinct (map fst (entries m))"
  by (drule entries_sorted) (auto simp: strict_sorted_iff)

lemma get_entries_map_of: "wf_map m \<Longrightarrow> get_entry m k = map_of (entries m) k"
proof -
  assume wf: "wf_map m"
  have "get_entry m k = Some v \<longleftrightarrow> map_of (entries m) k = Some v" for v
    using get_entries [OF wf] map_of_eq_Some_iff [OF entries_distinct [OF wf]] by simp
  then show ?thesis by (metis option.exhaust)
qed

text \<open>Two maps with the same lookups have the same entries in the same order.\<close>

lemma entries_ext:
  assumes wf: "wf_map m" "wf_map m'" and same: "\<And>k. get_entry m k = get_entry m' k"
  shows "entries m = entries m'"
proof -
  have "(k, v) \<in> set (entries m) \<longleftrightarrow> (k, v) \<in> set (entries m')" for k v
    using get_entries [OF wf(1)] get_entries [OF wf(2)] same by simp
  then have s: "set (entries m) = set (entries m')" by auto
  have "inj_on fst (set (entries m) \<union> set (entries m'))"
    using entries_distinct [OF wf(1)] s by (simp add: distinct_map)
  then show ?thesis
    using s entries_sorted [OF wf(1)] entries_sorted [OF wf(2)]
    by (intro map_sorted_distinct_set_unique) (auto simp: strict_sorted_iff)
qed

end

section \<open>Maps as sorted association lists\<close>

type_synonym ('k, 'v) btree = "('k \<times> 'v) list"

definition bt_wf :: "('k::linorder, 'v) btree \<Rightarrow> bool" where
  "bt_wf m = sorted_wrt (<) (map fst m)"

definition bt_get :: "('k, 'v) btree \<Rightarrow> 'k \<Rightarrow> 'v option" where
  "bt_get m k = map_of m k"

definition bt_contains :: "('k, 'v) btree \<Rightarrow> 'k \<Rightarrow> bool" where
  "bt_contains m k = (bt_get m k \<noteq> None)"

fun bt_insert :: "'k::linorder \<Rightarrow> 'v \<Rightarrow> ('k, 'v) btree \<Rightarrow> ('k, 'v) btree" where
  "bt_insert k v [] = [(k, v)]"
| "bt_insert k v ((a, b) # m) =
     (if k < a then (k, v) # (a, b) # m
      else if k = a then (k, v) # m
      else (a, b) # bt_insert k v m)"

definition bt_remove :: "'k \<Rightarrow> ('k, 'v) btree \<Rightarrow> ('k, 'v) btree" where
  "bt_remove k m = filter (\<lambda>e. fst e \<noteq> k) m"

definition bt_keys :: "('k, 'v) btree \<Rightarrow> 'k list" where
  "bt_keys m = map fst m"

text \<open>\<open>entry(k).or_insert(v)\<close>, keeping an existing value.\<close>

definition bt_or_insert :: "'k::linorder \<Rightarrow> 'v \<Rightarrow> ('k, 'v) btree \<Rightarrow> ('k, 'v) btree" where
  "bt_or_insert k v m = (if bt_contains m k then m else bt_insert k v m)"

text \<open>An update in place through \<open>get_mut\<close>.\<close>

definition bt_update :: "'k \<Rightarrow> ('v \<Rightarrow> 'v) \<Rightarrow> ('k, 'v) btree \<Rightarrow> ('k, 'v) btree" where
  "bt_update k f m = map (\<lambda>(a, b). if a = k then (a, f b) else (a, b)) m"

definition bt_collect :: "('k::linorder \<times> 'v) list \<Rightarrow> ('k, 'v) btree" where
  "bt_collect kvs = foldl (\<lambda>m (k, v). bt_insert k v m) [] kvs"

lemma keys_bt_insert: "set (map fst (bt_insert k v m)) = insert k (set (map fst m))"
  by (induction k v m rule: bt_insert.induct) auto

lemma bt_wf_Nil [simp]: "bt_wf []"
  by (simp add: bt_wf_def)

lemma bt_wf_insert [simp]: "bt_wf m \<Longrightarrow> bt_wf (bt_insert k v m)"
proof (induction k v m rule: bt_insert.induct)
  case (2 k v a b m)
  then show ?case
    using keys_bt_insert [of k v m] by (fastforce simp: bt_wf_def)
qed (simp add: bt_wf_def)

lemma bt_wf_remove [simp]: "bt_wf m \<Longrightarrow> bt_wf (bt_remove k m)"
  unfolding bt_wf_def bt_remove_def
  by (induction m) (auto simp: sorted_wrt_map sorted_wrt_filter)

lemma bt_get_Nil [simp]: "bt_get [] k = None"
  by (simp add: bt_get_def)

lemma bt_get_insert: "bt_get (bt_insert k v m) k' = (if k' = k then Some v else bt_get m k')" if "bt_wf m"
  using that
proof (induction k v m rule: bt_insert.induct)
  case (2 k v a b m)
  then have "k' \<noteq> a \<or> k' \<notin> fst ` set m" by (auto simp: bt_wf_def)
  with 2 show ?case by (auto simp: bt_get_def bt_wf_def)
qed (simp add: bt_get_def)

lemma bt_get_remove: "bt_get (bt_remove k m) k' = (if k' = k then None else bt_get m k')"
  by (induction m) (auto simp: bt_get_def bt_remove_def)

interpretation bt: ordered_map "[]" bt_insert bt_remove bt_get "\<lambda>m. m" bt_wf
proof unfold_locales
  fix m :: "('a::linorder, 'b) btree" and k v
  assume "bt_wf m"
  then have "distinct (map fst m)" by (simp add: bt_wf_def strict_sorted_iff)
  then show "bt_get m k = Some v \<longleftrightarrow> (k, v) \<in> set m"
    by (simp add: bt_get_def)
qed (auto simp: bt_get_insert bt_get_remove bt_wf_def [symmetric])

lemma bt_collect_eq: "bt_collect = bt.collect_entries"
  by (rule ext) (simp add: bt_collect_def bt.collect_entries_def)

lemmas bt_wf_collect [simp] = bt.wf_collect [folded bt_collect_eq]
lemmas bt_get_collect = bt.get_collect [folded bt_collect_eq]
lemmas bt_ext = bt.entries_ext

lemma bt_contains_iff: "bt_contains m k \<longleftrightarrow> k \<in> fst ` set m"
  by (auto simp: bt_contains_def bt_get_def map_of_eq_None_iff)

lemma set_bt_keys: "set (bt_keys m) = fst ` set m"
  by (simp add: bt_keys_def)

lemma distinct_bt_keys: "bt_wf m \<Longrightarrow> distinct (bt_keys m)"
  by (simp add: bt_keys_def bt_wf_def strict_sorted_iff)

lemma bt_get_in_set: "bt_get m k = Some v \<Longrightarrow> (k, v) \<in> set m"
  by (simp add: bt_get_def map_of_SomeD)

lemma bt_wf_or_insert [simp]: "bt_wf m \<Longrightarrow> bt_wf (bt_or_insert k v m)"
  by (simp add: bt_or_insert_def)

lemma bt_get_or_insert:
  "bt_wf m \<Longrightarrow> bt_get (bt_or_insert k v m) k' =
     (if k' = k \<and> bt_get m k = None then Some v else bt_get m k')"
  by (auto simp: bt_or_insert_def bt_contains_def bt_get_insert)

lemma keys_bt_update [simp]: "map fst (bt_update k f m) = map fst m"
  by (induction m) (auto simp: bt_update_def)

lemma bt_wf_update [simp]: "bt_wf (bt_update k f m) \<longleftrightarrow> bt_wf m"
  by (simp add: bt_wf_def)

lemma bt_get_update: "bt_get (bt_update k f m) k' = (if k' = k then map_option f (bt_get m k) else bt_get m k')"
  by (induction m) (auto simp: bt_get_def bt_update_def)

section \<open>Sets as increasing lists\<close>

fun bs_insert :: "'a::linorder \<Rightarrow> 'a list \<Rightarrow> 'a list" where
  "bs_insert x [] = [x]"
| "bs_insert x (y # ys) =
     (if x < y then x # y # ys else if x = y then y # ys else y # bs_insert x ys)"

definition bs_collect :: "'a::linorder list \<Rightarrow> 'a list" where
  "bs_collect xs = foldl (\<lambda>s x. bs_insert x s) [] xs"

abbreviation bs_wf :: "'a::linorder list \<Rightarrow> bool" where
  "bs_wf xs \<equiv> sorted_wrt (<) xs"

lemma set_bs_insert [simp]: "set (bs_insert x xs) = insert x (set xs)"
  by (induction x xs rule: bs_insert.induct) auto

lemma bs_wf_insert [simp]: "bs_wf xs \<Longrightarrow> bs_wf (bs_insert x xs)"
  by (induction x xs rule: bs_insert.induct) (fastforce simp: not_less)+

lemma bs_wf_foldl: "bs_wf s \<Longrightarrow> bs_wf (foldl (\<lambda>s x. bs_insert x s) s xs)"
  by (induction xs arbitrary: s) auto

lemma set_bs_foldl: "set (foldl (\<lambda>s x. bs_insert x s) s xs) = set s \<union> set xs"
  by (induction xs arbitrary: s) auto

lemma set_bs_collect [simp]: "set (bs_collect xs) = set xs"
  by (simp add: bs_collect_def set_bs_foldl)

lemma bs_wf_collect [simp]: "bs_wf (bs_collect xs)"
  by (simp add: bs_collect_def bs_wf_foldl)

lemma bs_wf_distinct: "bs_wf xs \<Longrightarrow> distinct xs"
  by (simp add: strict_sorted_iff)

end
