(* ===== verification/Errors.thy ===== *)
theory Errors
  imports BTree
begin

text \<open>
  The error enumerations of CentralCore (\<^verbatim>\<open>errors/mod.rs\<close> and the per-component enums it wraps).
  Every early return of the sources is a value of \<open>Error\<close>; \<open>Panic\<close> stands for a Rust panic
  (an index that is absent, an arithmetic overflow) and is not a variant of the source's enum:
  the theorems show that the modelled operations never reach it.  Errors of other crates
  (\<open>reqwest\<close>, \<open>serde_json\<close>) carry only their message; an \<open>io::Error\<close> carries its kind.
\<close>

type_synonym path = "string list"

datatype IoErrorKind = IoNotFound | IoAlreadyExists | IoPermissionDenied | IoWouldBlock | IoOther string

text \<open>
  A \<open>Url\<close> is a value of the \<open>url\<close> crate; it is a record of its text and of what its accessors return,
  and parsing and joining URLs are parameters of the operations that call them.
\<close>

record Url =
  url_text :: string
  url_scheme :: string
  url_username :: string
  url_password :: "string option"
  url_host :: "string option"
  url_path :: string
  url_query :: "string option"
  url_fragment :: "string option"

text \<open>A fingerprint of a public key (\<^verbatim>\<open>trust/mod.rs\<close>) and the loader families (\<^verbatim>\<open>loaders/mod.rs\<close>).\<close>

datatype KeyId = KeyId (key_str: string)

datatype LoaderKind = Fabric | Forge | NeoForge | Quilt

datatype ProviderError =
    InvalidId string
  | InvalidComponentId string
  | InvalidReference string
  | UnsupportedProviderFormat u32
  | UnsupportedInstanceFormat u32
  | InvalidManifest string
  | DuplicateInstance string
  | InstanceIdentity string string
  | DuplicateFile string
  | DuplicateFileId string
  | DuplicateComponent string
  | InvalidComponentReference string string
  | InvalidFileSize string u64
  | OptionalFilesUnsupported string
  | UnsupportedLoader string
  | UrlPolicy string string
  | LocalPathEscape path
  | DocumentTooLarge u64
  | MissingSnapshot string
  | AmbiguousInstance string
  | ManagedPathConflict string string string
  | ComponentConflict string string
  | ComponentDependencyCycle "string list"
  | ComponentRequiredBy string string
  | InstanceRunning string
  | StaleUpdatePlan u64 u64
  | StaleInstalledRevision u64 u64
  | StaleComponentSelections

datatype TrustError =
    SignatureMissing
  | SignatureInvalid
  | UnsupportedSignatureAlgorithm string
  | UnsupportedSignatureVersion u32
  | UnsupportedKeyFormat u32
  | UntrustedSigningKey KeyId
  | SigningKeyMismatch KeyId KeyId
  | ManifestRollbackDetected string u64 u64
  | InvalidKeyTransition string
  | TrustStoreError string
  | InvalidPublicKey string
  | KeyIdMismatch
  | Canonicalization string

datatype AccountRestriction = Banned | Disabled | ChildAccount | RegionRestricted | Unknown

datatype AuthError =
    InvalidCredentials string
  | TwoFactorRequired string
  | Cancelled string
  | Expired string
  | ProviderUnavailable string
  | RateLimited string "u64 option"
  | AccountRestricted string AccountRestriction
  | NoMinecraftOwnership string
  | InvalidMinecraftProfile string
  | CredentialStore string
  | Protocol string string

datatype LoaderError =
    UnsupportedKind string
  | InvalidVersion string
  | VersionNotFound LoaderKind string string
  | InvalidPlan string
  | DuplicatePath string
  | UnsupportedForgeSpec u32
  | InvalidMetadata string
  | ProcessorFailed string "int option"
  | InvalidProcessorOutput string string
  | OfflinePlanUnavailable

datatype DownloadError =
    Cancelled
  | Http string
  | HttpStatus nat string
  | SizeLimit u64
  | SizeMismatch path u64 u64
  | ChecksumMismatch path
  | UnsafeDestination path string
  | Io IoErrorKind
  | Json string

datatype MinecraftError =
    VersionNotFound string
  | InvalidManifest string string
  | UnsupportedInheritance string string
  | LibraryResolution string string
  | AssetIndexError string string
  | NativeExtraction string string
  | JavaUnavailable string u16
  | NotInstalled string
  | AlreadyRunning string
  | LaunchPlanError string
  | LaunchError string

datatype LockError = Busy string | InvalidKey | LockIo IoErrorKind | Worker string

datatype CacheError =
    MissingManagedIndex string
  | IndexIdentity string string
  | InvalidIndex string
  | OfflineObjectUnavailable string

datatype RepairError = FinalVerification u64 u64 | RepairOther string

datatype Error =
    InvalidInstanceId string string
  | InvalidRelativePath string string
  | InvalidConfig string
  | UnsupportedFormat string u32
  | AlreadyExists string string
  | NotFound string string
  | UnsafeFilesystemEntry path string
  | Provider string string
  | StaticProvider ProviderError
  | Trust TrustError
  | Authentication string string
  | Auth AuthError
  | Loader string string
  | LoaderPlanErr LoaderError
  | Java string
  | Download DownloadError
  | Minecraft MinecraftError
  | Process string
  | ProcessRecovery string
  | Lock LockError
  | CacheErr CacheError
  | Repair RepairError
  | Recovery string
  | Io IoErrorKind
  | Json string
  | Panic string

type_synonym 'a result = "Error + 'a"

text \<open>\<open>Error::is_lock_busy\<close>.\<close>

definition is_lock_busy :: "Error \<Rightarrow> bool" where
  "is_lock_busy e = (case e of Lock (Busy _) \<Rightarrow> True | _ \<Rightarrow> False)"

text \<open>\<open>AuthError::kind\<close> and the \<open>Display\<close> of \<open>AccountRestriction\<close>.\<close>

fun auth_error_kind :: "AuthError \<Rightarrow> string" where
  "auth_error_kind (InvalidCredentials _) = ''invalid_credentials''"
| "auth_error_kind (TwoFactorRequired _) = ''two_factor_required''"
| "auth_error_kind (AuthError.Cancelled _) = ''cancelled''"
| "auth_error_kind (Expired _) = ''expired''"
| "auth_error_kind (ProviderUnavailable _) = ''provider_unavailable''"
| "auth_error_kind (RateLimited _ _) = ''rate_limited''"
| "auth_error_kind (AccountRestricted _ _) = ''account_restricted''"
| "auth_error_kind (NoMinecraftOwnership _) = ''no_minecraft_ownership''"
| "auth_error_kind (InvalidMinecraftProfile _) = ''invalid_minecraft_profile''"
| "auth_error_kind (CredentialStore _) = ''credential_store''"
| "auth_error_kind (Protocol _ _) = ''protocol''"

fun account_restriction_str :: "AccountRestriction \<Rightarrow> string" where
  "account_restriction_str Banned = ''banned''"
| "account_restriction_str Disabled = ''disabled''"
| "account_restriction_str ChildAccount = ''child_account''"
| "account_restriction_str RegionRestricted = ''region_restricted''"
| "account_restriction_str Unknown = ''unknown''"

end
