(* ===== verification/FileSystem.thy ===== *)
theory FileSystem
  imports Errors
begin

text \<open>
  The file-system operations the services call (\<open>tokio::fs\<close>), as a state and error monad, and a
  Hoare logic for programs over them.

  A tree maps absolute paths to nodes.  The world also holds a schedule of I/O faults, one
  entry per operation, and the list of all trees a crash of the process could have left behind
  so far: every operation is one atomic change of the tree, except a write, which may be torn
  at any byte.  A theorem that holds for every schedule and for every tree of that list is a
  statement about failures and crashes at every point of the program.  The set of resources held
  by the lock manager is part of the world too.
\<close>

section \<open>Trees\<close>

datatype node = FileNode string | DirNode | SymlinkNode path

type_synonym tree = "path \<rightharpoonup> node"

text \<open>Following a final symbolic link; the kernel gives up after forty of them.\<close>

fun follow :: "nat \<Rightarrow> tree \<Rightarrow> path \<Rightarrow> path option" where
  "follow 0 t p = None"
| "follow (Suc n) t p = (case t p of Some (SymlinkNode q) \<Rightarrow> follow n t q | _ \<Rightarrow> Some p)"

definition is_root :: "path \<Rightarrow> bool" where
  "is_root p = (p = [] \<or> p = [''/''])"

definition is_dir :: "tree \<Rightarrow> path \<Rightarrow> bool" where
  "is_dir t p = (is_root p \<or> t p = Some DirNode)"

text \<open>The effects of the operations on a tree, or the error of the operating system.\<close>

definition read_tree :: "path \<Rightarrow> tree \<Rightarrow> IoErrorKind + string" where
  "read_tree p t =
     (case follow 40 t p of
        None \<Rightarrow> Inl (IoOther ''too many levels of symbolic links'')
      | Some q \<Rightarrow> (case t q of
            Some (FileNode c) \<Rightarrow> Inr c
          | Some _ \<Rightarrow> Inl (IoOther ''is a directory'')
          | None \<Rightarrow> Inl IoNotFound))"

definition write_target :: "path \<Rightarrow> tree \<Rightarrow> IoErrorKind + path" where
  "write_target p t =
     (case follow 40 t p of
        None \<Rightarrow> Inl (IoOther ''too many levels of symbolic links'')
      | Some q \<Rightarrow>
          if \<not> is_dir t (butlast q) then Inl IoNotFound
          else if is_dir t q then Inl (IoOther ''is a directory'')
          else Inr q)"

definition remove_file_tree :: "path \<Rightarrow> tree \<Rightarrow> IoErrorKind + tree" where
  "remove_file_tree p t =
     (case t p of
        None \<Rightarrow> Inl IoNotFound
      | Some DirNode \<Rightarrow> Inl (IoOther ''is a directory'')
      | Some _ \<Rightarrow> Inr (t(p := None)))"

text \<open>
  \<open>rename\<close> moves a whole subtree; a file replaces a file, and a directory can only replace a
  missing entry here.
\<close>

definition below :: "path \<Rightarrow> path \<Rightarrow> bool" where
  "below p q = (take (length p) q = p)"

definition move_tree :: "path \<Rightarrow> path \<Rightarrow> tree \<Rightarrow> tree" where
  "move_tree a b t =
     (\<lambda>q. if below b q then t (a @ drop (length b) q) else if below a q then None else t q)"

definition rename_tree :: "path \<Rightarrow> path \<Rightarrow> tree \<Rightarrow> IoErrorKind + tree" where
  "rename_tree a b t =
     (if t a = None \<or> \<not> is_dir t (butlast b) then Inl IoNotFound
      else if t a = Some DirNode
      then (if below a b then Inl (IoOther ''invalid argument'')
            else if t b \<noteq> None then Inl (IoOther ''directory not empty'')
            else Inr (move_tree a b t))
      else if is_dir t b then Inl (IoOther ''is a directory'')
      else Inr (if a = b then t else (t(b := t a))(a := None)))"

definition create_dir_tree :: "path \<Rightarrow> tree \<Rightarrow> IoErrorKind + tree" where
  "create_dir_tree p t =
     (if t p \<noteq> None \<or> is_root p then Inl IoAlreadyExists
      else if \<not> is_dir t (butlast p) then Inl IoNotFound
      else Inr (t(p \<mapsto> DirNode)))"

definition ancestors :: "path \<Rightarrow> path list" where
  "ancestors p = map (\<lambda>n. take n p) [1..<Suc (length p)]"

definition dir_or_link :: "tree \<Rightarrow> path \<Rightarrow> bool" where
  "dir_or_link t p = (case follow 40 t p of None \<Rightarrow> False | Some q \<Rightarrow> is_dir t q)"

definition create_dir_all_tree :: "path \<Rightarrow> tree \<Rightarrow> IoErrorKind + tree" where
  "create_dir_all_tree p t =
     (if list_ex (\<lambda>q. t q \<noteq> None \<and> \<not> dir_or_link t q) (ancestors p)
      then Inl (IoOther ''not a directory'')
      else Inr (\<lambda>q. if q \<in> set (ancestors p) \<and> t q = None \<and> \<not> is_root q then Some DirNode else t q))"

definition remove_dir_all_tree :: "path \<Rightarrow> tree \<Rightarrow> IoErrorKind + tree" where
  "remove_dir_all_tree p t =
     (case t p of
        None \<Rightarrow> Inl IoNotFound
      | Some DirNode \<Rightarrow> Inr (\<lambda>q. if below p q then None else t q)
      | Some _ \<Rightarrow> Inl (IoOther ''not a directory''))"

section \<open>Programs\<close>

text \<open>
  \<open>CoreEvent\<close>s are sent to subscribers and never read back; the world logs them by their
  variant and fields, the latest first.
\<close>

datatype CoreEvent = CoreEvent string "string list"

type_synonym fault = "IoErrorKind \<times> nat"

text \<open>
  A reply of an HTTP server (\<open>reqwest::Response\<close>): the headers whose values are text, and the
  chunks of the body, where an error ends the stream.
\<close>

record http_response =
  hr_status :: nat
  hr_content_length :: "u64 option"
  hr_headers :: "(string \<times> string) list"
  hr_chunks :: "(string + string) list"

type_synonym http_request = "Url \<times> (string \<times> string) list"

record world =
  w_tree :: tree
  w_faults :: "fault option list"
  w_crash :: "tree list"
  w_locks :: "string set"
  w_events :: "CoreEvent list"
  w_net :: "(string + http_response) list"
  w_sent :: "http_request list"
  w_cancel :: "nat option"

type_synonym 'a io = "world \<Rightarrow> 'a result \<times> world"

definition io_return :: "'a \<Rightarrow> 'a io" where
  "io_return x w = (Inr x, w)"

definition io_fail :: "Error \<Rightarrow> 'a io" where
  "io_fail e w = (Inl e, w)"

definition io_lift :: "'a result \<Rightarrow> 'a io" where
  "io_lift r w = (r, w)"

definition io_bind :: "'a io \<Rightarrow> ('a \<Rightarrow> 'b io) \<Rightarrow> 'b io" where
  "io_bind m f w = (case m w of (Inl e, w') \<Rightarrow> (Inl e, w') | (Inr x, w') \<Rightarrow> f x w')"

definition io_catch :: "'a io \<Rightarrow> (Error \<Rightarrow> 'a io) \<Rightarrow> 'a io" where
  "io_catch m h w = (case m w of (Inl e, w') \<Rightarrow> h e w' | (Inr x, w') \<Rightarrow> (Inr x, w'))"

text \<open>An operation whose \<open>Result\<close> is inspected instead of propagated.\<close>

definition io_try :: "'a io \<Rightarrow> 'a result io" where
  "io_try m w = (case m w of (r, w') \<Rightarrow> (Inr r, w'))"

text \<open>\<open>let _ = operation;\<close>\<close>

definition io_ignore :: "'a io \<Rightarrow> unit io" where
  "io_ignore m w = (case m w of (_, w') \<Rightarrow> (Inr (), w'))"

definition io_map_err :: "(Error \<Rightarrow> Error) \<Rightarrow> 'a io \<Rightarrow> 'a io" where
  "io_map_err f m w = (case m w of (r, w') \<Rightarrow> (map_err f r, w'))"

text \<open>
  The fault of the next operation.  An entry that is there is never reported as missing: a
  scheduled \<open>NotFound\<close> does not fire.
\<close>

definition next_fault :: "world \<Rightarrow> fault option \<times> world" where
  "next_fault w = (case w_faults w of
      [] \<Rightarrow> (None, w)
    | f # fs \<Rightarrow> (case f of Some (IoNotFound, _) \<Rightarrow> None | _ \<Rightarrow> f, w\<lparr>w_faults := fs\<rparr>))"

definition set_tree :: "tree \<Rightarrow> world \<Rightarrow> world" where
  "set_tree t w = w\<lparr>w_tree := t, w_crash := t # w_crash w\<rparr>"

text \<open>An operation that only looks at the tree, and one that changes it in one step.\<close>

definition io_query :: "(tree \<Rightarrow> IoErrorKind + 'a) \<Rightarrow> 'a io" where
  "io_query f w = (case next_fault w of
      (Some (e, _), w') \<Rightarrow> (Inl (Error.Io e), w')
    | (None, w') \<Rightarrow> (map_err Error.Io (f (w_tree w')), w'))"

definition io_step :: "(tree \<Rightarrow> IoErrorKind + tree) \<Rightarrow> unit io" where
  "io_step f w = (case next_fault w of
      (Some (e, _), w') \<Rightarrow> (Inl (Error.Io e), w')
    | (None, w') \<Rightarrow> (case f (w_tree w') of
          Inl e \<Rightarrow> (Inl (Error.Io e), w')
        | Inr t \<Rightarrow> (Inr (), set_tree t w')))"

definition fs_read :: "path \<Rightarrow> string io" where
  "fs_read p = io_query (read_tree p)"

definition fs_try_exists :: "path \<Rightarrow> bool io" where
  "fs_try_exists p = io_query (\<lambda>t. Inr (case follow 40 t p of None \<Rightarrow> False | Some q \<Rightarrow> t q \<noteq> None))"

definition fs_symlink_metadata :: "path \<Rightarrow> node io" where
  "fs_symlink_metadata p =
     io_query (\<lambda>t. case t p of None \<Rightarrow> (if is_root p then Inr DirNode else Inl IoNotFound) | Some n \<Rightarrow> Inr n)"

definition fs_remove_file :: "path \<Rightarrow> unit io" where
  "fs_remove_file p = io_step (remove_file_tree p)"

definition fs_rename :: "path \<Rightarrow> path \<Rightarrow> unit io" where
  "fs_rename a b = io_step (rename_tree a b)"

definition fs_create_dir :: "path \<Rightarrow> unit io" where
  "fs_create_dir p = io_step (create_dir_tree p)"

definition fs_create_dir_all :: "path \<Rightarrow> unit io" where
  "fs_create_dir_all p = io_step (create_dir_all_tree p)"

definition fs_remove_dir_all :: "path \<Rightarrow> unit io" where
  "fs_remove_dir_all p = io_step (remove_dir_all_tree p)"

text \<open>
  A write truncates the file and fills it: a crash can leave any prefix, and a fault carries the
  number of bytes written before it.
\<close>

definition fs_write :: "path \<Rightarrow> string \<Rightarrow> unit io" where
  "fs_write p c w = (case next_fault w of
      (f, w') \<Rightarrow> (case write_target p (w_tree w') of
          Inl e \<Rightarrow> (Inl (Error.Io e), w')
        | Inr q \<Rightarrow>
            let torn = map (\<lambda>n. (w_tree w')(q \<mapsto> FileNode (take n c))) [0..<length c];
                w1 = w'\<lparr>w_crash := torn @ w_crash w'\<rparr>
            in case f of
                 Some (e, n) \<Rightarrow> (Inl (Error.Io e), set_tree ((w_tree w')(q \<mapsto> FileNode (take n c))) w1)
               | None \<Rightarrow> (Inr (), set_tree ((w_tree w')(q \<mapsto> FileNode c)) w1)))"

text \<open>\<open>metadata(p).len()\<close>; the length of a directory is unspecified and is 0 here.\<close>

definition fs_metadata_len :: "path \<Rightarrow> nat io" where
  "fs_metadata_len p = io_query (\<lambda>t. case follow 40 t p of
      None \<Rightarrow> Inl (IoOther ''too many levels of symbolic links'')
    | Some q \<Rightarrow> (case t q of
          Some (FileNode c) \<Rightarrow> Inr (length c)
        | Some _ \<Rightarrow> Inr 0
        | None \<Rightarrow> if is_root q then Inr 0 else Inl IoNotFound))"

text \<open>
  \<open>OpenOptions\<close> with \<open>create(true)\<close>, appending or truncating, and \<open>write_all\<close> on the file opened for
  appending or just truncated; the latter may be torn as a write may.
\<close>

definition fs_open_write :: "bool \<Rightarrow> path \<Rightarrow> unit io" where
  "fs_open_write appending p = io_step (\<lambda>t. case write_target p t of
      Inl e \<Rightarrow> Inl e
    | Inr q \<Rightarrow> Inr (case t q of
        Some (FileNode c) \<Rightarrow> if appending then t else t(q \<mapsto> FileNode [])
      | _ \<Rightarrow> t(q \<mapsto> FileNode [])))"

definition file_content :: "node option \<Rightarrow> string" where
  "file_content n = (case n of Some (FileNode c) \<Rightarrow> c | _ \<Rightarrow> [])"

definition fs_append :: "path \<Rightarrow> string \<Rightarrow> unit io" where
  "fs_append p c w = (case next_fault w of
      (f, w') \<Rightarrow> (case write_target p (w_tree w') of
          Inl e \<Rightarrow> (Inl (Error.Io e), w')
        | Inr q \<Rightarrow>
            let grown = (\<lambda>n. (w_tree w')(q \<mapsto> FileNode (file_content (w_tree w' q) @ take n c)));
                w1 = w'\<lparr>w_crash := map grown [0..<length c] @ w_crash w'\<rparr>
            in case f of
                 Some (e, n) \<Rightarrow> (Inl (Error.Io e), set_tree (grown n) w1)
               | None \<Rightarrow> (Inr (), set_tree (grown (length c)) w1)))"

text \<open>
  \<open>Client::send\<close>: the request is logged, and the next reply of the schedule comes back; a request
  without a scheduled reply fails.
\<close>

definition http_send :: "Url \<Rightarrow> (string \<times> string) list \<Rightarrow> http_response io" where
  "http_send u headers w =
     (let w1 = w\<lparr>w_sent := (u, headers) # w_sent w\<rparr>
      in case w_net w of
           [] \<Rightarrow> (Inl (Download (Http ''no connection'')), w1)
         | Inl e # replies \<Rightarrow> (Inl (Download (Http e)), w1\<lparr>w_net := replies\<rparr>)
         | Inr r # replies \<Rightarrow> (Inr r, w1\<lparr>w_net := replies\<rparr>))"

text \<open>
  \<open>CancellationToken::is_cancelled\<close>: the token is set concurrently, and once set stays set; the world
  holds the number of checks that still find it unset.
\<close>

definition is_cancelled :: "bool io" where
  "is_cancelled w = (case w_cancel w of
      None \<Rightarrow> (Inr False, w)
    | Some 0 \<Rightarrow> (Inr True, w)
    | Some (Suc n) \<Rightarrow> (Inr False, w\<lparr>w_cancel := Some n\<rparr>))"

text \<open>
  Holding a resource of the lock manager for the duration of a block: the guard is released on
  every exit, and a resource that is held already is reported as busy.
\<close>

definition with_lock :: "string \<Rightarrow> 'a io \<Rightarrow> 'a io" where
  "with_lock r m w =
     (if r \<in> w_locks w then (Inl (Lock (Busy r)), w)
      else case m (w\<lparr>w_locks := insert r (w_locks w)\<rparr>) of
             (x, w') \<Rightarrow> (x, w'\<lparr>w_locks := w_locks w' - {r}\<rparr>))"

text \<open>\<open>EventBus::emit\<close>.\<close>

definition emit :: "string \<Rightarrow> string list \<Rightarrow> unit io" where
  "emit variant args w = (Inr (), w\<lparr>w_events := CoreEvent variant args # w_events w\<rparr>)"

section \<open>A Hoare logic\<close>

text \<open>
  \<open>io_valid J P m Q E\<close>: from a tree satisfying \<open>P\<close>, whatever the faults, \<open>m\<close> ends with \<open>Q\<close> of its
  result and the tree, or fails with \<open>E\<close> of the tree; and every tree a crash during \<open>m\<close> could
  leave satisfies \<open>J\<close>.
\<close>

definition crash_grows :: "(tree \<Rightarrow> bool) \<Rightarrow> world \<Rightarrow> world \<Rightarrow> bool" where
  "crash_grows J w w' \<longleftrightarrow> (\<exists>ts. w_crash w' = ts @ w_crash w \<and> (\<forall>t \<in> set ts. J t))"

definition io_valid ::
    "(tree \<Rightarrow> bool) \<Rightarrow> (tree \<Rightarrow> bool) \<Rightarrow> 'a io \<Rightarrow> ('a \<Rightarrow> tree \<Rightarrow> bool) \<Rightarrow> (tree \<Rightarrow> bool) \<Rightarrow> bool" where
  "io_valid J P m Q E \<longleftrightarrow> (\<forall>w r w'. P (w_tree w) \<longrightarrow> m w = (r, w') \<longrightarrow>
     crash_grows J w w' \<and> (case r of Inr x \<Rightarrow> Q x (w_tree w') | Inl e \<Rightarrow> E (w_tree w')))"

lemma crash_grows_same [simp]: "w_crash w' = w_crash w \<Longrightarrow> crash_grows J w w'"
  by (simp add: crash_grows_def)

lemma crash_grows_trans: "crash_grows J a b \<Longrightarrow> crash_grows J b c \<Longrightarrow> crash_grows J a c"
  by (auto simp: crash_grows_def)

lemma crash_grows_mono: "crash_grows J a b \<Longrightarrow> (\<And>t. J t \<Longrightarrow> J' t) \<Longrightarrow> crash_grows J' a b"
  by (auto simp: crash_grows_def)

lemma crash_grows_from: "w_crash a = w_crash b \<Longrightarrow> crash_grows J a c \<Longrightarrow> crash_grows J b c"
  by (simp add: crash_grows_def)

lemma io_validI:
  assumes "\<And>w r w'. P (w_tree w) \<Longrightarrow> m w = (r, w') \<Longrightarrow>
      crash_grows J w w' \<and> (case r of Inr x \<Rightarrow> Q x (w_tree w') | Inl e \<Rightarrow> E (w_tree w'))"
  shows "io_valid J P m Q E"
  using assms unfolding io_valid_def by blast

lemma io_validD:
  assumes "io_valid J P m Q E" "P (w_tree w)" "m w = (r, w')"
  shows "crash_grows J w w'" "r = Inr x \<Longrightarrow> Q x (w_tree w')" "r = Inl e \<Longrightarrow> E (w_tree w')"
  using assms unfolding io_valid_def by force+

lemma io_valid_return [intro]: "(\<And>t. P t \<Longrightarrow> Q x t) \<Longrightarrow> io_valid J P (io_return x) Q E"
  by (auto simp: io_valid_def io_return_def)

lemma io_valid_fail [intro]: "(\<And>t. P t \<Longrightarrow> E t) \<Longrightarrow> io_valid J P (io_fail e) Q E"
  by (auto simp: io_valid_def io_fail_def)

lemma io_valid_lift:
  "(\<And>x t. r = Inr x \<Longrightarrow> P t \<Longrightarrow> Q x t) \<Longrightarrow> (\<And>e t. r = Inl e \<Longrightarrow> P t \<Longrightarrow> E t) \<Longrightarrow> io_valid J P (io_lift r) Q E"
  by (cases r) (auto simp: io_valid_def io_lift_def)

lemma io_valid_bind:
  assumes m: "io_valid J P m R E" and f: "\<And>x. io_valid J (R x) (f x) Q E"
  shows "io_valid J P (io_bind m f) Q E"
proof (rule io_validI)
  fix w r w' assume w: "P (w_tree w)" and run: "io_bind m f w = (r, w')"
  obtain x w1 where x: "m w = (x, w1)" by fastforce
  note m1 = io_validD [OF m w x]
  show "crash_grows J w w' \<and> (case r of Inr x \<Rightarrow> Q x (w_tree w') | Inl e \<Rightarrow> E (w_tree w'))"
  proof (cases x)
    case (Inl e)
    with run x m1 show ?thesis by (auto simp: io_bind_def)
  next
    case (Inr y)
    with run x have fy: "f y w1 = (r, w')" by (simp add: io_bind_def)
    note f1 = io_validD [OF f m1(2) [OF Inr] fy]
    from crash_grows_trans [OF m1(1) f1(1)] f1(2,3) show ?thesis by (auto split: sum.split)
  qed
qed

lemma io_valid_catch:
  assumes m: "io_valid J P m Q F" and h: "\<And>e. io_valid J F (h e) Q E"
  shows "io_valid J P (io_catch m h) Q E"
proof (rule io_validI)
  fix w r w' assume w: "P (w_tree w)" and run: "io_catch m h w = (r, w')"
  obtain x w1 where x: "m w = (x, w1)" by fastforce
  note m1 = io_validD [OF m w x]
  show "crash_grows J w w' \<and> (case r of Inr x \<Rightarrow> Q x (w_tree w') | Inl e \<Rightarrow> E (w_tree w'))"
  proof (cases x)
    case (Inr y)
    with run x m1 show ?thesis by (auto simp: io_catch_def)
  next
    case (Inl e)
    with run x have he: "h e w1 = (r, w')" by (simp add: io_catch_def)
    note h1 = io_validD [OF h m1(3) [OF Inl] he]
    from crash_grows_trans [OF m1(1) h1(1)] h1(2,3) show ?thesis by (auto split: sum.split)
  qed
qed

lemma io_valid_ignore:
  assumes "io_valid J P m (\<lambda>_. Q) Q"
  shows "io_valid J P (io_ignore m) (\<lambda>_. Q) E"
proof (rule io_validI)
  fix w r w' assume w: "P (w_tree w)" and r: "io_ignore m w = (r, w')"
  obtain x where x: "m w = (x, w')" "r = Inr ()" using r by (auto simp: io_ignore_def split: prod.splits)
  show "crash_grows J w w' \<and> (case r of Inr x \<Rightarrow> Q (w_tree w') | Inl e \<Rightarrow> E (w_tree w'))"
    using io_validD [OF assms w x(1)] x(2) by (cases x) auto
qed

lemma io_valid_map_err:
  assumes "io_valid J P m Q E"
  shows "io_valid J P (io_map_err f m) Q E"
proof (rule io_validI)
  fix w r w' assume w: "P (w_tree w)" and r: "io_map_err f m w = (r, w')"
  obtain x where x: "m w = (x, w')" "r = map_err f x" using r by (auto simp: io_map_err_def split: prod.splits)
  show "crash_grows J w w' \<and> (case r of Inr x \<Rightarrow> Q x (w_tree w') | Inl e \<Rightarrow> E (w_tree w'))"
    using io_validD [OF assms w x(1)] x(2) by (cases x) auto
qed

lemma io_valid_weaken:
  assumes m: "io_valid J' P' m Q' E'"
    and "\<And>t. J' t \<Longrightarrow> J t" "\<And>t. P t \<Longrightarrow> P' t" "\<And>x t. Q' x t \<Longrightarrow> Q x t" "\<And>t. E' t \<Longrightarrow> E t"
  shows "io_valid J P m Q E"
proof (rule io_validI)
  fix w r w' assume w: "P (w_tree w)" and r: "m w = (r, w')"
  note v = io_validD [OF m assms(3) [OF w] r]
  show "crash_grows J w w' \<and> (case r of Inr x \<Rightarrow> Q x (w_tree w') | Inl e \<Rightarrow> E (w_tree w'))"
    using crash_grows_mono [OF v(1) assms(2)] v(2,3) assms(4,5) by (cases r) auto
qed

lemma io_valid_conseq:
  assumes m: "io_valid J P' m Q' E'"
    and "\<And>t. P t \<Longrightarrow> P' t" "\<And>x t. Q' x t \<Longrightarrow> Q x t" "\<And>t. E' t \<Longrightarrow> E t"
  shows "io_valid J P m Q E"
  by (rule io_valid_weaken [OF m]) (use assms(2-4) in auto)

lemma next_fault_simps:
  assumes "next_fault w = (f, w')"
  shows "w_tree w' = w_tree w" "w_crash w' = w_crash w" "w_locks w' = w_locks w"
  using assms by (auto simp: next_fault_def split: list.splits)

lemma next_fault_kind: "next_fault w = (Some (e, n), w') \<Longrightarrow> e \<noteq> IoNotFound"
  by (auto simp: next_fault_def split: list.splits option.splits IoErrorKind.splits)

lemma io_valid_query:
  assumes "\<And>t x. P t \<Longrightarrow> f t = Inr x \<Longrightarrow> Q x t" and "\<And>t. P t \<Longrightarrow> E t"
  shows "io_valid J P (io_query f) Q E"
proof (rule io_validI)
  fix w r w' assume w: "P (w_tree w)" and run: "io_query f w = (r, w')"
  obtain g w1 where n: "next_fault w = (g, w1)" by fastforce
  note s = next_fault_simps [OF n]
  from run show "crash_grows J w w' \<and> (case r of Inr x \<Rightarrow> Q x (w_tree w') | Inl e \<Rightarrow> E (w_tree w'))"
    using w assms s by (cases "f (w_tree w)") (auto simp: io_query_def n split: option.splits)
qed

lemma io_valid_step:
  assumes "\<And>t t'. P t \<Longrightarrow> f t = Inr t' \<Longrightarrow> J t' \<and> Q () t'" and "\<And>t. P t \<Longrightarrow> E t"
  shows "io_valid J P (io_step f) Q E"
proof (rule io_validI)
  fix w r w' assume w: "P (w_tree w)" and run: "io_step f w = (r, w')"
  obtain g w1 where n: "next_fault w = (g, w1)" by fastforce
  note s = next_fault_simps [OF n]
  from run show "crash_grows J w w' \<and> (case r of Inr x \<Rightarrow> Q x (w_tree w') | Inl e \<Rightarrow> E (w_tree w'))"
    using w assms s by (cases "f (w_tree w)") (auto simp: io_step_def n set_tree_def crash_grows_def split: option.splits)
qed

lemma crash_grows_map:
  assumes "\<And>n. J (f n)" "w_crash w' = f m # map f [0..<k] @ w_crash w"
  shows "crash_grows J w w'"
  unfolding crash_grows_def using assms by (intro exI [of _ "f m # map f [0..<k]"]) auto

lemma io_valid_write:
  assumes "\<And>t q k. P t \<Longrightarrow> write_target p t = Inr q \<Longrightarrow>
      J (t(q \<mapsto> FileNode (take k c))) \<and> E (t(q \<mapsto> FileNode (take k c)))"
    and "\<And>t q. P t \<Longrightarrow> write_target p t = Inr q \<Longrightarrow> Q () (t(q \<mapsto> FileNode c))"
    and "\<And>t. P t \<Longrightarrow> E t"
  shows "io_valid J P (fs_write p c) Q E"
proof (rule io_validI)
  fix w r w' assume w: "P (w_tree w)" and run: "fs_write p c w = (r, w')"
  obtain g w1 where n: "next_fault w = (g, w1)" by fastforce
  note s = next_fault_simps [OF n]
  show "crash_grows J w w' \<and> (case r of Inr x \<Rightarrow> Q x (w_tree w') | Inl e \<Rightarrow> E (w_tree w'))"
  proof (cases "write_target p (w_tree w)")
    case (Inl e)
    with run w assms(3) s show ?thesis by (auto simp: fs_write_def n)
  next
    case (Inr q)
    let ?f = "\<lambda>k. (w_tree w)(q \<mapsto> FileNode (take k c))"
    have J: "J (?f k)" for k using assms(1) [OF w Inr] by simp
    have "\<exists>m. w_crash w' = ?f m # map ?f [0..<length c] @ w_crash w"
    proof (cases g)
      case None
      with run Inr have "w_crash w' = ?f (length c) # map ?f [0..<length c] @ w_crash w"
        by (auto simp: fs_write_def n s set_tree_def Let_def)
      then show ?thesis ..
    next
      case (Some f)
      with run Inr have "w_crash w' = ?f (snd f) # map ?f [0..<length c] @ w_crash w"
        by (cases f) (auto simp: fs_write_def n s set_tree_def Let_def)
      then show ?thesis ..
    qed
    then obtain m where "w_crash w' = ?f m # map ?f [0..<length c] @ w_crash w" ..
    with J have "crash_grows J w w'" by (rule crash_grows_map [where f = ?f])
    then show ?thesis
      using run assms(1) [OF w Inr] assms(2) [OF w Inr] Inr
      by (auto simp: fs_write_def n s set_tree_def Let_def split: option.splits)
  qed
qed

lemma io_valid_with_lock:
  assumes "io_valid J P m Q E" "\<And>t. P t \<Longrightarrow> E t"
  shows "io_valid J P (with_lock r m) Q E"
proof (rule io_validI)
  fix w x w' assume w: "P (w_tree w)" and run: "with_lock r m w = (x, w')"
  let ?w = "w\<lparr>w_locks := insert r (w_locks w)\<rparr>"
  show "crash_grows J w w' \<and> (case x of Inr x \<Rightarrow> Q x (w_tree w') | Inl e \<Rightarrow> E (w_tree w'))"
  proof (cases "r \<in> w_locks w")
    case True
    with run w assms(2) show ?thesis by (auto simp: with_lock_def)
  next
    case False
    with run obtain w1 where m: "m ?w = (x, w1)" and w1: "w' = w1\<lparr>w_locks := w_locks w1 - {r}\<rparr>"
      by (auto simp: with_lock_def split: prod.splits)
    have "P (w_tree ?w)" using w by simp
    note v = io_validD [OF assms(1) this m]
    have "crash_grows J w w'" using v(1) by (simp add: crash_grows_def w1)
    with v(2,3) w1 show ?thesis by (auto split: sum.split)
  qed
qed

lemma io_valid_emit: "(\<And>t. P t \<Longrightarrow> Q () t) \<Longrightarrow> io_valid J P (emit v f) Q E"
  by (auto simp: io_valid_def emit_def)

lemma io_valid_try:
  assumes "io_valid J P m (\<lambda>x. Q (Inr x)) (\<lambda>t. \<forall>e. Q (Inl e) t)"
  shows "io_valid J P (io_try m) Q E"
proof (rule io_validI)
  fix w r w' assume w: "P (w_tree w)" and r: "io_try m w = (r, w')"
  obtain x where x: "m w = (x, w')" "r = Inr x" using r by (auto simp: io_try_def split: prod.splits)
  show "crash_grows J w w' \<and> (case r of Inr x \<Rightarrow> Q x (w_tree w') | Inl e \<Rightarrow> E (w_tree w'))"
    using io_validD [OF assms w x(1)] x(2) by (cases x) auto
qed

text \<open>Operations that leave the tree and its crash states alone.\<close>

definition io_frame :: "'a io \<Rightarrow> bool" where
  "io_frame m \<longleftrightarrow> (\<forall>w. w_tree (snd (m w)) = w_tree w \<and> w_crash (snd (m w)) = w_crash w)"

lemma io_valid_frame:
  assumes "io_frame m" "\<And>x t. P t \<Longrightarrow> Q x t" "\<And>t. P t \<Longrightarrow> E t"
  shows "io_valid J P m Q E"
proof (rule io_validI)
  fix w r w' assume w: "P (w_tree w)" and r: "m w = (r, w')"
  have "w_tree w' = w_tree w \<and> w_crash w' = w_crash w"
    using assms(1) r unfolding io_frame_def by (metis snd_conv)
  then show "crash_grows J w w' \<and> (case r of Inr x \<Rightarrow> Q x (w_tree w') | Inl e \<Rightarrow> E (w_tree w'))"
    using w assms(2,3) by (cases r) auto
qed

text \<open>What such an operation returns may be noted about the tree.\<close>

lemma io_valid_frame_result:
  assumes "io_frame m" "\<And>w x w'. m w = (Inr x, w') \<Longrightarrow> R x (w_tree w)"
  shows "io_valid J P m (\<lambda>x t. P t \<and> R x t) P"
proof (rule io_validI)
  fix w r w' assume w: "P (w_tree w)" and r: "m w = (r, w')"
  have "w_tree w' = w_tree w \<and> w_crash w' = w_crash w"
    using assms(1) r unfolding io_frame_def by (metis snd_conv)
  then show "crash_grows J w w' \<and> (case r of Inr x \<Rightarrow> P (w_tree w') \<and> R x (w_tree w') | Inl e \<Rightarrow> P (w_tree w'))"
    using w r assms(2) by (cases r) auto
qed

lemma io_frame_query [intro]: "io_frame (io_query f)"
  by (auto simp: io_frame_def io_query_def next_fault_def split: list.split option.split)

lemma io_frame_basic [intro]:
  "io_frame (io_return x)" "io_frame (io_fail e)" "io_frame (io_lift r)" "io_frame (emit v f)"
  "io_frame is_cancelled" "io_frame (http_send u hs)"
  by (auto simp: io_frame_def io_return_def io_fail_def io_lift_def emit_def is_cancelled_def http_send_def Let_def
      split: option.split nat.split list.split sum.split)

lemma io_frameD: "io_frame m \<Longrightarrow> m w = (r, w') \<Longrightarrow> w_tree w' = w_tree w \<and> w_crash w' = w_crash w"
  unfolding io_frame_def by (metis snd_conv)

lemma io_frameI: "(\<And>w r w'. m w = (r, w') \<Longrightarrow> w_tree w' = w_tree w \<and> w_crash w' = w_crash w) \<Longrightarrow> io_frame m"
  unfolding io_frame_def by (metis surjective_pairing)

lemma io_frame_bind [intro]:
  assumes "io_frame m" "\<And>x. io_frame (f x)"
  shows "io_frame (io_bind m f)"
proof (rule io_frameI)
  fix w r w' assume b: "io_bind m f w = (r, w')"
  obtain x w1 where x: "m w = (x, w1)" by fastforce
  note x1 = io_frameD [OF assms(1) x]
  show "w_tree w' = w_tree w \<and> w_crash w' = w_crash w"
  proof (cases x)
    case (Inl e)
    with b x x1 show ?thesis by (simp add: io_bind_def)
  next
    case (Inr y)
    with b x have "f y w1 = (r, w')" by (simp add: io_bind_def)
    from io_frameD [OF assms(2) this] x1 show ?thesis by simp
  qed
qed

lemma io_frame_map_err [intro]:
  assumes "io_frame m"
  shows "io_frame (io_map_err f m)"
proof (rule io_frameI)
  fix w r w' assume "io_map_err f m w = (r, w')"
  then obtain x where "m w = (x, w')" by (auto simp: io_map_err_def split: prod.splits)
  with assms show "w_tree w' = w_tree w \<and> w_crash w' = w_crash w" by (rule io_frameD)
qed

lemma io_frame_catch [intro]:
  assumes "io_frame m" "\<And>e. io_frame (h e)"
  shows "io_frame (io_catch m h)"
proof (rule io_frameI)
  fix w r w' assume b: "io_catch m h w = (r, w')"
  obtain x w1 where x: "m w = (x, w1)" by fastforce
  note x1 = io_frameD [OF assms(1) x]
  show "w_tree w' = w_tree w \<and> w_crash w' = w_crash w"
  proof (cases x)
    case (Inr y)
    with b x x1 show ?thesis by (simp add: io_catch_def)
  next
    case (Inl e)
    with b x have "h e w1 = (r, w')" by (simp add: io_catch_def)
    from io_frameD [OF assms(2) this] x1 show ?thesis by simp
  qed
qed

lemma io_frame_try [intro]:
  assumes "io_frame m"
  shows "io_frame (io_try m)"
proof (rule io_frameI)
  fix w r w' assume "io_try m w = (r, w')"
  then obtain x where "m w = (x, w')" by (auto simp: io_try_def split: prod.splits)
  with assms show "w_tree w' = w_tree w \<and> w_crash w' = w_crash w" by (rule io_frameD)
qed

lemma io_frame_if [intro]: "io_frame a \<Longrightarrow> io_frame b \<Longrightarrow> io_frame (if c then a else b)"
  by simp

lemma io_frame_reads [intro]:
  "io_frame (fs_read p)" "io_frame (fs_try_exists p)" "io_frame (fs_symlink_metadata p)" "io_frame (fs_metadata_len p)"
  by (auto simp: fs_read_def fs_try_exists_def fs_symlink_metadata_def fs_metadata_len_def)

lemma io_valid_open_write:
  assumes "\<And>t q. P t \<Longrightarrow> write_target p t = Inr q \<Longrightarrow> J (t(q \<mapsto> FileNode [])) \<and> Q () (t(q \<mapsto> FileNode []))"
    and "\<And>t q. P t \<Longrightarrow> J t \<and> Q () t" and "\<And>t. P t \<Longrightarrow> E t"
  shows "io_valid J P (fs_open_write appending p) Q E"
  unfolding fs_open_write_def
  by (rule io_valid_step) (use assms in \<open>auto split: sum.splits if_splits option.splits node.splits\<close>)

lemma io_valid_append:
  assumes "\<And>t q k. P t \<Longrightarrow> write_target p t = Inr q \<Longrightarrow>
      J (t(q \<mapsto> FileNode (file_content (t q) @ take k c))) \<and> E (t(q \<mapsto> FileNode (file_content (t q) @ take k c)))"
    and "\<And>t q. P t \<Longrightarrow> write_target p t = Inr q \<Longrightarrow> Q () (t(q \<mapsto> FileNode (file_content (t q) @ c)))"
    and "\<And>t. P t \<Longrightarrow> E t"
  shows "io_valid J P (fs_append p c) Q E"
proof (rule io_validI)
  fix w r w' assume w: "P (w_tree w)" and run: "fs_append p c w = (r, w')"
  obtain g w1 where n: "next_fault w = (g, w1)" by fastforce
  note s = next_fault_simps [OF n]
  show "crash_grows J w w' \<and> (case r of Inr x \<Rightarrow> Q x (w_tree w') | Inl e \<Rightarrow> E (w_tree w'))"
  proof (cases "write_target p (w_tree w)")
    case (Inl e)
    with run w assms(3) s show ?thesis by (auto simp: fs_append_def n)
  next
    case (Inr q)
    let ?f = "\<lambda>k. (w_tree w)(q \<mapsto> FileNode (file_content (w_tree w q) @ take k c))"
    have J: "J (?f k)" for k using assms(1) [OF w Inr] by simp
    have "\<exists>m. w_crash w' = ?f m # map ?f [0..<length c] @ w_crash w"
    proof (cases g)
      case None
      with run Inr have "w_crash w' = ?f (length c) # map ?f [0..<length c] @ w_crash w"
        by (auto simp: fs_append_def n s set_tree_def Let_def)
      then show ?thesis ..
    next
      case (Some f)
      with run Inr have "w_crash w' = ?f (snd f) # map ?f [0..<length c] @ w_crash w"
        by (cases f) (auto simp: fs_append_def n s set_tree_def Let_def)
      then show ?thesis ..
    qed
    then obtain m where "w_crash w' = ?f m # map ?f [0..<length c] @ w_crash w" ..
    with J have "crash_grows J w w'" by (rule crash_grows_map [where f = ?f])
    then show ?thesis
      using run assms(1) [OF w Inr] assms(2) [OF w Inr] Inr
      by (auto simp: fs_append_def n s set_tree_def Let_def split: option.splits)
  qed
qed

section \<open>Requests\<close>

text \<open>
  \<open>io_sends n U m\<close>: however it ends, \<open>m\<close> sends at most \<open>n\<close> requests, all of them to URLs in \<open>U\<close>.
\<close>

definition io_sends :: "nat \<Rightarrow> Url set \<Rightarrow> 'a io \<Rightarrow> bool" where
  "io_sends n U m \<longleftrightarrow> (\<forall>w r w'. m w = (r, w') \<longrightarrow>
     (\<exists>reqs. w_sent w' = reqs @ w_sent w \<and> length reqs \<le> n \<and> fst ` set reqs \<subseteq> U))"

lemma io_sendsI:
  assumes "\<And>w r w'. m w = (r, w') \<Longrightarrow> \<exists>reqs. w_sent w' = reqs @ w_sent w \<and> length reqs \<le> n \<and> fst ` set reqs \<subseteq> U"
  shows "io_sends n U m"
  using assms by (auto simp: io_sends_def)

lemma io_sendsD:
  assumes "io_sends n U m" "m w = (r, w')"
  obtains reqs where "w_sent w' = reqs @ w_sent w" "length reqs \<le> n" "fst ` set reqs \<subseteq> U"
  using assms unfolding io_sends_def by blast

lemma io_sends_mono: "io_sends n U m \<Longrightarrow> n \<le> n' \<Longrightarrow> U \<subseteq> U' \<Longrightarrow> io_sends n' U' m"
  unfolding io_sends_def by (meson order_trans)

lemma io_sends_silent: "(\<And>w. w_sent (snd (m w)) = w_sent w) \<Longrightarrow> io_sends n U m"
  by (rule io_sendsI) (metis append_Nil empty_iff image_subset_iff le0 list.set(1) list.size(3) snd_conv)

lemma sent_next_fault: "next_fault w = (f, w') \<Longrightarrow> w_sent w' = w_sent w"
  by (auto simp: next_fault_def split: list.splits)

lemma sent_query: "w_sent (snd (io_query f w)) = w_sent w"
  using sent_next_fault by (auto simp: io_query_def split: prod.split option.split)

lemma sent_step: "w_sent (snd (io_step f w)) = w_sent w"
  using sent_next_fault by (auto simp: io_step_def set_tree_def split: prod.split option.split sum.split)

lemma sent_write: "w_sent (snd (fs_write p c w)) = w_sent w" "w_sent (snd (fs_append p c w)) = w_sent w"
  using sent_next_fault
  by (auto simp: fs_write_def fs_append_def set_tree_def Let_def split: prod.split option.split sum.split)

lemma io_sends_silent_ops [intro]:
  "io_sends n U (io_query f)" "io_sends n U (io_step g)" "io_sends n U (fs_write p c)" "io_sends n U (fs_append p c)"
  "io_sends n U (io_return x)" "io_sends n U (io_fail e)" "io_sends n U (io_lift r)" "io_sends n U (emit v a)"
  "io_sends n U is_cancelled"
  by (rule io_sends_silent; simp add: sent_query sent_step sent_write io_return_def io_fail_def io_lift_def emit_def
      is_cancelled_def split: option.split nat.split)+

lemma io_sends_fs_ops [intro]:
  "io_sends n U (fs_read p)" "io_sends n U (fs_try_exists p)" "io_sends n U (fs_symlink_metadata p)"
  "io_sends n U (fs_metadata_len p)" "io_sends n U (fs_remove_file p)" "io_sends n U (fs_rename p q)"
  "io_sends n U (fs_create_dir p)" "io_sends n U (fs_create_dir_all p)" "io_sends n U (fs_remove_dir_all p)"
  "io_sends n U (fs_open_write b p)"
  by (auto simp: fs_read_def fs_try_exists_def fs_symlink_metadata_def fs_metadata_len_def fs_remove_file_def
      fs_rename_def fs_create_dir_def fs_create_dir_all_def fs_remove_dir_all_def fs_open_write_def)

lemma io_sends_http: "u \<in> U \<Longrightarrow> io_sends 1 U (http_send u hs)"
  by (rule io_sendsI) (force simp: http_send_def Let_def split: list.splits sum.splits)

lemma io_sends_bind:
  assumes "io_sends a U m" "\<And>x. io_sends b U (f x)"
  shows "io_sends (a + b) U (io_bind m f)"
proof (rule io_sendsI)
  fix w r w' assume run: "io_bind m f w = (r, w')"
  obtain x w1 where x: "m w = (x, w1)" by fastforce
  obtain reqs where 1: "w_sent w1 = reqs @ w_sent w" "length reqs \<le> a" "fst ` set reqs \<subseteq> U"
    using io_sendsD [OF assms(1) x] .
  show "\<exists>reqs. w_sent w' = reqs @ w_sent w \<and> length reqs \<le> a + b \<and> fst ` set reqs \<subseteq> U"
  proof (cases x)
    case (Inl e)
    with run x 1 show ?thesis by (auto simp: io_bind_def)
  next
    case (Inr y)
    with run x have "f y w1 = (r, w')" by (simp add: io_bind_def)
    from io_sendsD [OF assms(2) this] obtain reqs' where
      "w_sent w' = reqs' @ w_sent w1" "length reqs' \<le> b" "fst ` set reqs' \<subseteq> U" .
    with 1 show ?thesis by (intro exI [of _ "reqs' @ reqs"]) auto
  qed
qed

lemma io_sends_catch:
  assumes "io_sends a U m" "\<And>e. io_sends b U (h e)"
  shows "io_sends (a + b) U (io_catch m h)"
proof (rule io_sendsI)
  fix w r w' assume run: "io_catch m h w = (r, w')"
  obtain x w1 where x: "m w = (x, w1)" by fastforce
  obtain reqs where 1: "w_sent w1 = reqs @ w_sent w" "length reqs \<le> a" "fst ` set reqs \<subseteq> U"
    using io_sendsD [OF assms(1) x] .
  show "\<exists>reqs. w_sent w' = reqs @ w_sent w \<and> length reqs \<le> a + b \<and> fst ` set reqs \<subseteq> U"
  proof (cases x)
    case (Inr y)
    with run x 1 show ?thesis by (auto simp: io_catch_def)
  next
    case (Inl e)
    with run x have "h e w1 = (r, w')" by (simp add: io_catch_def)
    from io_sendsD [OF assms(2) this] obtain reqs' where
      "w_sent w' = reqs' @ w_sent w1" "length reqs' \<le> b" "fst ` set reqs' \<subseteq> U" .
    with 1 show ?thesis by (intro exI [of _ "reqs' @ reqs"]) auto
  qed
qed

lemma io_sends_wrappers [intro]:
  assumes "io_sends n U m"
  shows "io_sends n U (io_map_err g m)" "io_sends n U (io_try m)" "io_sends n U (io_ignore m)"
  by (rule io_sendsI; use assms in \<open>auto simp: io_map_err_def io_try_def io_ignore_def split: prod.splits elim: io_sendsD\<close>)+

text \<open>Binds whose first part is silent.\<close>

lemmas io_sends_bind0 = io_sends_bind [where a = 0, simplified]
lemmas io_sends_catch0 = io_sends_catch [where a = 0, simplified]

lemma io_sends_with_lock [intro]:
  assumes "io_sends n U m"
  shows "io_sends n U (with_lock k m)"
  by (rule io_sendsI) (use assms in \<open>fastforce simp: with_lock_def split: if_splits prod.splits elim: io_sendsD\<close>)

text \<open>The same without a bound on their number.\<close>

definition io_sends_to :: "Url set \<Rightarrow> 'a io \<Rightarrow> bool" where
  "io_sends_to U m \<longleftrightarrow> (\<forall>w r w'. m w = (r, w') \<longrightarrow> (\<exists>reqs. w_sent w' = reqs @ w_sent w \<and> fst ` set reqs \<subseteq> U))"

lemma io_sends_toI:
  assumes "\<And>w r w'. m w = (r, w') \<Longrightarrow> \<exists>reqs. w_sent w' = reqs @ w_sent w \<and> fst ` set reqs \<subseteq> U"
  shows "io_sends_to U m"
  using assms by (auto simp: io_sends_to_def)

lemma io_sends_toD:
  assumes "io_sends_to U m" "m w = (r, w')"
  obtains reqs where "w_sent w' = reqs @ w_sent w" "fst ` set reqs \<subseteq> U"
  using assms unfolding io_sends_to_def by blast

lemma io_sends_to_bounded: "io_sends n U m \<Longrightarrow> io_sends_to U m"
  unfolding io_sends_def io_sends_to_def by blast

lemma io_sends_to_silent [intro]:
  "io_sends_to U (io_return x)" "io_sends_to U (io_fail e)" "io_sends_to U (io_lift r)" "io_sends_to U (emit v a)"
  "io_sends_to U (fs_read p)" "io_sends_to U (fs_try_exists p)" "io_sends_to U (fs_symlink_metadata p)"
  "io_sends_to U (fs_remove_file p)" "io_sends_to U (fs_rename p q)" "io_sends_to U (fs_create_dir_all p)"
  "io_sends_to U (fs_write p c)"
  by (rule io_sends_to_bounded [where n = 0]; blast)+

lemma io_sends_to_bind [intro]:
  assumes "io_sends_to U m" "\<And>x. io_sends_to U (f x)"
  shows "io_sends_to U (io_bind m f)"
proof (rule io_sends_toI)
  fix w r w' assume run: "io_bind m f w = (r, w')"
  obtain x w1 where x: "m w = (x, w1)" by fastforce
  obtain reqs where 1: "w_sent w1 = reqs @ w_sent w" "fst ` set reqs \<subseteq> U"
    using io_sends_toD [OF assms(1) x] .
  show "\<exists>reqs. w_sent w' = reqs @ w_sent w \<and> fst ` set reqs \<subseteq> U"
  proof (cases x)
    case (Inl e)
    with run x 1 show ?thesis by (auto simp: io_bind_def)
  next
    case (Inr y)
    with run x have "f y w1 = (r, w')" by (simp add: io_bind_def)
    from io_sends_toD [OF assms(2) this] obtain reqs' where
      "w_sent w' = reqs' @ w_sent w1" "fst ` set reqs' \<subseteq> U" .
    with 1 show ?thesis by (intro exI [of _ "reqs' @ reqs"]) auto
  qed
qed

lemma io_sends_to_catch [intro]:
  assumes "io_sends_to U m" "\<And>e. io_sends_to U (h e)"
  shows "io_sends_to U (io_catch m h)"
proof (rule io_sends_toI)
  fix w r w' assume run: "io_catch m h w = (r, w')"
  obtain x w1 where x: "m w = (x, w1)" by fastforce
  obtain reqs where 1: "w_sent w1 = reqs @ w_sent w" "fst ` set reqs \<subseteq> U"
    using io_sends_toD [OF assms(1) x] .
  show "\<exists>reqs. w_sent w' = reqs @ w_sent w \<and> fst ` set reqs \<subseteq> U"
  proof (cases x)
    case (Inr y)
    with run x 1 show ?thesis by (auto simp: io_catch_def)
  next
    case (Inl e)
    with run x have "h e w1 = (r, w')" by (simp add: io_catch_def)
    from io_sends_toD [OF assms(2) this] obtain reqs' where
      "w_sent w' = reqs' @ w_sent w1" "fst ` set reqs' \<subseteq> U" .
    with 1 show ?thesis by (intro exI [of _ "reqs' @ reqs"]) auto
  qed
qed

lemma io_sends_to_wrappers [intro]:
  assumes "io_sends_to U m"
  shows "io_sends_to U (io_map_err g m)" "io_sends_to U (io_try m)" "io_sends_to U (io_ignore m)"
  by (rule io_sends_toI; use assms in \<open>auto simp: io_map_err_def io_try_def io_ignore_def split: prod.splits elim: io_sends_toD\<close>)+

lemma io_sends_to_with_lock [intro]:
  assumes "io_sends_to U m"
  shows "io_sends_to U (with_lock k m)"
  by (rule io_sends_toI) (use assms in \<open>fastforce simp: with_lock_def split: if_splits prod.splits elim: io_sends_toD\<close>)

lemma io_sends_to_if [intro]: "io_sends_to U a \<Longrightarrow> io_sends_to U b \<Longrightarrow> io_sends_to U (if c then a else b)"
  by simp

text \<open>The rule for a whole run from a world without recorded crash states.\<close>

lemma io_valid_run:
  assumes "io_valid J P m Q E" "P (w_tree w)" "w_crash w = []" "m w = (r, w')"
  shows "(\<forall>t \<in> set (w_crash w'). J t) \<and> (case r of Inr x \<Rightarrow> Q x (w_tree w') | Inl e \<Rightarrow> E (w_tree w'))"
  using io_validD [OF assms(1,2,4)] assms(3) by (cases r) (auto simp: crash_grows_def)

text \<open>Without faults a program behaves as its operations do: evaluation rules.\<close>

lemma io_run_simps [simp]:
  "io_return x w = (Inr x, w)" "io_fail e w = (Inl e, w)" "io_lift r w = (r, w)"
  by (simp_all add: io_return_def io_fail_def io_lift_def)

lemma io_bind_Inr: "m w = (Inr x, w') \<Longrightarrow> io_bind m f w = f x w'"
  by (simp add: io_bind_def)

lemma io_bind_Inl: "m w = (Inl e, w') \<Longrightarrow> io_bind m f w = (Inl e, w')"
  by (simp add: io_bind_def)

lemma io_bind_eq_Inr:
  "io_bind m f w = (Inr y, w') \<longleftrightarrow> (\<exists>x w1. m w = (Inr x, w1) \<and> f x w1 = (Inr y, w'))"
  by (auto simp: io_bind_def split: prod.splits sum.splits)

lemma io_map_err_eq_Inr: "io_map_err g m w = (Inr y, w') \<longleftrightarrow> m w = (Inr y, w')"
  by (auto simp: io_map_err_def split: prod.splits)

lemma io_catch_eq_Inr:
  "io_catch m h w = (Inr y, w') \<longleftrightarrow>
     m w = (Inr y, w') \<or> (\<exists>e w1. m w = (Inl e, w1) \<and> h e w1 = (Inr y, w'))"
  by (auto simp: io_catch_def split: prod.splits sum.splits)

lemma io_query_run: "w_faults w = [] \<Longrightarrow> io_query f w = (map_err Error.Io (f (w_tree w)), w)"
  by (simp add: io_query_def next_fault_def)

lemma io_step_run:
  "w_faults w = [] \<Longrightarrow> io_step f w =
     (case f (w_tree w) of Inl e \<Rightarrow> (Inl (Error.Io e), w) | Inr t \<Rightarrow> (Inr (), set_tree t w))"
  by (simp add: io_step_def next_fault_def)

lemma io_bind_assoc: "io_bind (io_bind m f) g = io_bind m (\<lambda>x. io_bind (f x) g)"
  by (rule ext) (simp add: io_bind_def split: prod.split sum.split)

lemma io_bind_return [simp]: "io_bind (io_return x) f = f x"
  by (rule ext) (simp add: io_bind_def)

lemma io_bind_fail [simp]: "io_bind (io_fail e) f = io_fail e"
  by (rule ext) (simp add: io_bind_def)

lemma io_bind_lift_Inr [simp]: "io_bind (io_lift (Inr x)) f = f x"
  by (rule ext) (simp add: io_bind_def)

lemma io_bind_lift_Inl [simp]: "io_bind (io_lift (Inl e)) f = io_fail e"
  by (rule ext) (simp add: io_bind_def)

end
