(* ===== verification/Files.thy ===== *)
theory Files
  imports Errors
begin

text \<open>
  \<^verbatim>\<open>files/mod.rs\<close>: safe relative paths, content digests and provider-neutral file manifests.
  A host path is the list of its components below the file-system root; joining normalises
  empty and \<open>.\<close> components as \<open>Path::join\<close> and \<open>Path::components\<close> do, and keeps \<open>..\<close>.
\<close>

section \<open>Validated newtypes\<close>

text \<open>
  The contract the validated string wrappers share (\<open>SafeRelativePath\<close>, \<open>InstanceId\<close>,
  \<open>ProviderId\<close>, \<open>ComponentId\<close>, \<open>KeyId\<close>): \<open>new\<close> accepts exactly the valid strings and keeps them
  unchanged, which is what makes \<open>Deserialize\<close> through \<open>new\<close> and \<open>Serialize\<close> through \<open>as_str\<close>
  inverse to each other.
\<close>

locale validated_string =
  fixes new :: "string \<Rightarrow> 'e + 'n"
    and as_str :: "'n \<Rightarrow> string"
    and valid :: "string \<Rightarrow> bool"
  assumes new_valid: "valid s \<Longrightarrow> \<exists>n. new s = Inr n \<and> as_str n = s"
    and new_invalid: "\<not> valid s \<Longrightarrow> \<exists>e. new s = Inl e"
begin

lemma new_ok_iff: "is_ok (new s) \<longleftrightarrow> valid s"
  using new_valid [of s] new_invalid [of s] by (cases "valid s") auto

lemma new_as_str: "new s = Inr n \<Longrightarrow> as_str n = s"
  using new_valid [of s] new_invalid [of s] by (cases "valid s") auto

lemma new_Inr_valid: "new s = Inr n \<Longrightarrow> valid (as_str n)"
  using new_as_str new_ok_iff by (metis is_ok_simps(1))

lemma deserialize_serialize: "new s = Inr n \<Longrightarrow> new (as_str n) = Inr n"
  by (simp add: new_as_str)

lemma new_inj: "new s = Inr n \<Longrightarrow> new t = Inr n \<Longrightarrow> s = t"
  using new_as_str by metis

end

section \<open>Safe relative paths\<close>

datatype SafeRelativePath = SafeRelativePath (srp_str: string)

definition reserved_stems :: "string list" where
  "reserved_stems =
     [''CON'', ''PRN'', ''AUX'', ''NUL'', ''COM1'', ''COM2'', ''COM3'', ''COM4'', ''COM5'', ''COM6'',
      ''COM7'', ''COM8'', ''COM9'', ''LPT1'', ''LPT2'', ''LPT3'', ''LPT4'', ''LPT5'', ''LPT6'', ''LPT7'',
      ''LPT8'', ''LPT9'']"

definition forbidden_chars :: "string list" where
  "forbidden_chars = [''<'', ''>'', '':'', [CHR 0x22], ''|'', ''?'', ''*'']"

text \<open>The body of the loop over \<open>path.split('/')\<close>.\<close>

definition validate_component :: "string \<Rightarrow> string \<Rightarrow> unit result" where
  "validate_component path component =
     (if component = [] \<or> component = ''.'' \<or> component = ''..''
      then Inl (InvalidRelativePath path ''empty, current, and parent components are forbidden'')
      else if list_ex (\<lambda>c. is_control c \<or> c \<in> set forbidden_chars) (chars component)
      then Inl (InvalidRelativePath path ''component contains a non-portable character'')
      else if ends_with component ''.'' \<or> ends_with component '' ''
      then Inl (InvalidRelativePath path ''component has a non-portable suffix'')
      else if to_ascii_uppercase (hd (split_on CHR ''.'' component)) \<in> set reserved_stems
      then Inl (InvalidRelativePath path ''component is a reserved Windows device name'')
      else Inr ())"

fun validate_components :: "string \<Rightarrow> string list \<Rightarrow> unit result" where
  "validate_components path [] = Inr ()"
| "validate_components path (c # cs) =
     res_bind (validate_component path c) (\<lambda>_. validate_components path cs)"

definition validate_relative_path :: "string \<Rightarrow> unit result" where
  "validate_relative_path path =
     (if path = [] then Inl (InvalidRelativePath path ''path is empty'')
      else if starts_with path ''/'' \<or> starts_with path [CHR 0x5C]
      then Inl (InvalidRelativePath path ''absolute paths are forbidden'')
      else if CHR 0x5C \<in> set path
      then Inl (InvalidRelativePath path ''backslash separators are forbidden'')
      else if CHR 0x00 \<in> set path
      then Inl (InvalidRelativePath path ''NUL bytes are forbidden'')
      else validate_components path (split_on CHR ''/'' path))"

definition srp_new :: "string \<Rightarrow> SafeRelativePath result" where
  "srp_new path = res_bind (validate_relative_path path) (\<lambda>_. Inr (SafeRelativePath path))"

text \<open>
  \<open>Path::components\<close> and \<open>Path::join\<close>: empty components and every \<open>.\<close> but a leading one are
  dropped, the root directory is a component of its own, and joining an absolute path replaces.
\<close>

definition plain_components :: "string \<Rightarrow> path" where
  "plain_components s = filter (\<lambda>c. c \<noteq> [] \<and> c \<noteq> ''.'') (split_on CHR ''/'' s)"

definition path_components :: "string \<Rightarrow> path" where
  "path_components s =
     (if starts_with s ''/'' then [''/''] else if hd (split_on CHR ''/'' s) = ''.'' then [''.''] else [])
     @ plain_components s"

definition path_join :: "path \<Rightarrow> string \<Rightarrow> path" where
  "path_join p s = (if starts_with s ''/'' \<or> p = [] then path_components s else p @ plain_components s)"

definition join_under :: "SafeRelativePath \<Rightarrow> path \<Rightarrow> path" where
  "join_under p root = foldl path_join root (split_on CHR ''/'' (srp_str p))"

text \<open>
  What the operating system resolves a path to when no component is a symbolic link:
  \<open>.\<close> stays, \<open>..\<close> goes to the parent, and the parent of the root is the root.
\<close>

definition resolve_dots :: "path \<Rightarrow> path" where
  "resolve_dots p =
     foldl (\<lambda>acc c. if c = ''.'' then acc
                     else if c = ''..'' then (if acc = [''/''] then acc else butlast acc)
                     else acc @ [c]) [] p"

definition valid_relative_path :: "string \<Rightarrow> bool" where
  "valid_relative_path s = is_ok (validate_relative_path s)"

subsection \<open>Lemmas\<close>

lemma validate_components_Inr:
  "validate_components path cs = Inr u \<longleftrightarrow> (\<forall>c \<in> set cs. validate_component path c = Inr ())"
  by (induction cs) (auto simp: res_bind_def split: sum.splits)

lemma validate_component_safe:
  "validate_component path c = Inr u \<Longrightarrow> c \<noteq> [] \<and> c \<noteq> ''.'' \<and> c \<noteq> ''..''"
  by (auto simp: validate_component_def split: if_splits)

lemma validate_relative_path_components:
  assumes "validate_relative_path s = Inr u" and "c \<in> set (split_on CHR ''/'' s)"
  shows "c \<noteq> []" "c \<noteq> ''.''" "c \<noteq> ''..''" "CHR ''/'' \<notin> set c"
  using assms validate_component_safe split_on_no_sep
  by (fastforce simp: validate_relative_path_def validate_components_Inr split: if_splits)+

lemma path_join_component:
  assumes "c \<noteq> []" "c \<noteq> ''.''" "CHR ''/'' \<notin> set c"
  shows "path_join p c = p @ [c]"
proof -
  have "\<not> starts_with c ''/''"
    using assms by (auto simp: starts_with_iff)
  with assms show ?thesis
    by (simp add: path_join_def path_components_def plain_components_def split_on_no_occurrence)
qed

lemma foldl_path_join:
  "\<forall>c \<in> set cs. c \<noteq> [] \<and> c \<noteq> ''.'' \<and> CHR ''/'' \<notin> set c \<Longrightarrow> foldl path_join p cs = p @ cs"
  by (induction cs arbitrary: p) (auto simp: path_join_component)

lemma join_under_valid:
  assumes "validate_relative_path s = Inr u"
  shows "join_under (SafeRelativePath s) root = root @ split_on CHR ''/'' s"
  using validate_relative_path_components [OF assms]
  by (simp add: join_under_def foldl_path_join)

lemma resolve_dots_append_plain:
  "\<forall>c \<in> set cs. c \<noteq> ''.'' \<and> c \<noteq> ''..'' \<Longrightarrow> resolve_dots (p @ cs) = resolve_dots p @ cs"
proof (induction cs rule: rev_induct)
  case (snoc c cs)
  then show ?case by (simp add: resolve_dots_def flip: append_assoc)
qed simp

lemma srp_new_Inr: "srp_new s = Inr p \<longleftrightarrow> validate_relative_path s = Inr () \<and> p = SafeRelativePath s"
  by (auto simp: srp_new_def)

interpretation srp: validated_string srp_new srp_str valid_relative_path
  by unfold_locales
    (auto simp: srp_new_def valid_relative_path_def is_ok_iff res_bind_def split: sum.splits)

text \<open>
  A parsed path below a root resolves to a path strictly inside that root, whatever the root is.
\<close>

lemma srp_join_under_contained:
  assumes "srp_new s = Inr p"
  shows "\<exists>rel. rel \<noteq> [] \<and> resolve_dots (join_under p root) = resolve_dots root @ rel"
proof -
  from assms have v: "validate_relative_path s = Inr ()" and p: "p = SafeRelativePath s"
    by (auto simp: srp_new_Inr)
  have "resolve_dots (join_under p root) = resolve_dots root @ split_on CHR ''/'' s"
    using validate_relative_path_components(2,3) [OF v]
    by (simp add: p join_under_valid [OF v] resolve_dots_append_plain)
  then show ?thesis by auto
qed

lemma srp_join_under_inj:
  assumes "srp_new s = Inr p" "srp_new t = Inr q" "join_under p root = join_under q root"
  shows "p = q"
proof -
  have "split_on CHR ''/'' s = split_on CHR ''/'' t"
    using assms by (auto simp: srp_new_Inr join_under_valid)
  then have "s = t" by (metis join_split)
  with assms show ?thesis by simp
qed

section \<open>Content digests\<close>

datatype HashAlgorithm = Sha1 | Sha256

record FileHash =
  fh_algorithm :: HashAlgorithm
  fh_value :: string

definition expected_len :: "HashAlgorithm \<Rightarrow> nat" where
  "expected_len a = (case a of Sha1 \<Rightarrow> 40 | Sha256 \<Rightarrow> 64)"

definition show_algorithm :: "HashAlgorithm \<Rightarrow> string" where
  "show_algorithm a = (case a of Sha1 \<Rightarrow> ''Sha1'' | Sha256 \<Rightarrow> ''Sha256'')"

definition fh_new :: "HashAlgorithm \<Rightarrow> string \<Rightarrow> FileHash result" where
  "fh_new algorithm v =
     (let value = to_ascii_lowercase v in
      if length value \<noteq> expected_len algorithm \<or> \<not> list_all is_ascii_hexdigit value
      then Inl (InvalidConfig (''invalid '' @ show_algorithm algorithm @ '' digest''))
      else Inr \<lparr>fh_algorithm = algorithm, fh_value = value\<rparr>)"

definition fh_wf :: "FileHash \<Rightarrow> bool" where
  "fh_wf h = (length (fh_value h) = expected_len (fh_algorithm h)
              \<and> list_all is_ascii_hexdigit (fh_value h)
              \<and> to_ascii_lowercase (fh_value h) = fh_value h)"

lemma fh_new_Inr:
  "fh_new a v = Inr h \<longleftrightarrow>
     length v = expected_len a \<and> list_all is_ascii_hexdigit v
     \<and> h = \<lparr>fh_algorithm = a, fh_value = to_ascii_lowercase v\<rparr>"
  by (auto simp: fh_new_def Let_def)

lemma fh_new_wf: "fh_new a v = Inr h \<Longrightarrow> fh_wf h \<and> fh_algorithm h = a"
  by (auto simp: fh_new_Inr fh_wf_def)

text \<open>Deserialising a digest goes through \<open>new\<close>, so a stored digest reads back unchanged.\<close>

lemma fh_roundtrip: "fh_wf h \<Longrightarrow> fh_new (fh_algorithm h) (fh_value h) = Inr h"
  by (cases h) (simp add: fh_wf_def fh_new_Inr)

section \<open>File manifests\<close>

record 'url FileEntry =
  fe_path :: SafeRelativePath
  fe_url :: 'url
  fe_size :: "u64 option"
  fe_hash :: "FileHash option"

record 'url FileManifest =
  fm_format_version :: u32
  fm_files :: "'url FileEntry list"

definition FILE_MANIFEST_FORMAT_VERSION :: u32 where
  "FILE_MANIFEST_FORMAT_VERSION = 1"

fun validate_unique_paths :: "SafeRelativePath set \<Rightarrow> 'url FileEntry list \<Rightarrow> unit result" where
  "validate_unique_paths paths [] = Inr ()"
| "validate_unique_paths paths (f # fs) =
     (if fe_path f \<in> paths
      then Inl (InvalidConfig (''duplicate manifest path `'' @ srp_str (fe_path f) @ ''`''))
      else validate_unique_paths (insert (fe_path f) paths) fs)"

definition fm_validate :: "'url FileManifest \<Rightarrow> unit result" where
  "fm_validate m =
     (if fm_format_version m \<noteq> FILE_MANIFEST_FORMAT_VERSION
      then Inl (UnsupportedFormat ''file manifest'' (fm_format_version m))
      else validate_unique_paths {} (fm_files m))"

lemma validate_unique_paths_Inr:
  "validate_unique_paths S fs = Inr u \<longleftrightarrow>
     distinct (map fe_path fs) \<and> S \<inter> fe_path ` set fs = {}"
  by (induction S fs rule: validate_unique_paths.induct) auto

lemma fm_validate_ok_iff:
  "is_ok (fm_validate m) \<longleftrightarrow>
     fm_format_version m = FILE_MANIFEST_FORMAT_VERSION \<and> distinct (map fe_path (fm_files m))"
  by (auto simp: fm_validate_def is_ok_iff validate_unique_paths_Inr)

end
