(* ===== verification/AtomicJson.thy ===== *)
theory AtomicJson
  imports FileSystem Files
begin

text \<open>
  How JSON documents are replaced on disk: \<open>atomic_json\<close> and \<open>read_with_previous\<close> of
  \<^verbatim>\<open>providers/service.rs\<close>, which keep the previous document under another name while the new one
  takes its place, and the replacement used by the trust store, the component selections and
  the instance metadata, which removes the old document first.

  Serialisation is a parameter of each operation: \<open>bytes\<close> is what \<open>serde_json::to_vec_pretty\<close>
  returned for the document.  The main result is that the first form never loses a document,
  whatever operations fail and wherever the process stops.
\<close>

section \<open>Paths\<close>

text \<open>\<open>Path::file_stem\<close> and \<open>Path::with_extension\<close> on the last component.\<close>

definition file_stem :: "string \<Rightarrow> string" where
  "file_stem s = (case split_once CHR ''.'' (rev s) of
      None \<Rightarrow> s | Some (_, r) \<Rightarrow> if r = [] then s else rev r)"

definition with_extension :: "path \<Rightarrow> string \<Rightarrow> path" where
  "with_extension p e = butlast p @ [file_stem (last p) @ ''.'' @ e]"

section \<open>Operations\<close>

definition is_file_node :: "node \<Rightarrow> bool" where
  "is_file_node n = (case n of FileNode _ \<Rightarrow> True | _ \<Rightarrow> False)"

definition is_not_found :: "Error \<Rightarrow> bool" where
  "is_not_found e = (e = Error.Io IoNotFound)"

text \<open>\<open>reject_non_file_or_symlink\<close>: an existing real file is removed.\<close>

definition reject_non_file_or_symlink :: "path \<Rightarrow> unit io" where
  "reject_non_file_or_symlink p =
     io_bind (io_catch (io_bind (fs_symlink_metadata p) (\<lambda>n. io_return (Some n)))
                (\<lambda>e. if is_not_found e then io_return None else io_fail e)) (\<lambda>m.
     case m of
       None \<Rightarrow> io_return ()
     | Some n \<Rightarrow> if is_file_node n then fs_remove_file p
                 else io_fail (UnsafeFilesystemEntry p ''managed destination must be a real file''))"

definition replace_file :: "path \<Rightarrow> path \<Rightarrow> unit io" where
  "replace_file temporary destination =
     io_bind (reject_non_file_or_symlink destination) (\<lambda>_. fs_rename temporary destination)"

definition service_atomic_json :: "path \<Rightarrow> path \<Rightarrow> string result \<Rightarrow> unit io" where
  "service_atomic_json root relative bytes =
     (let destination = root @ relative;
          temporary = with_extension destination ''json.tmp'';
          previous = with_extension destination ''json.previous''
      in
      io_bind (fs_create_dir_all root) (\<lambda>_.
      io_bind (fs_create_dir_all (butlast destination)) (\<lambda>_.
      io_bind (io_lift bytes) (\<lambda>b.
      io_bind (fs_write temporary b) (\<lambda>_.
      io_bind (fs_try_exists destination) (\<lambda>present.
      io_bind (if present
               then io_bind (fs_symlink_metadata destination) (\<lambda>n.
                      if \<not> is_file_node n
                      then io_fail (UnsafeFilesystemEntry destination ''provider metadata destination must be a real file'')
                      else io_bind (reject_non_file_or_symlink previous) (\<lambda>_.
                           fs_rename destination previous))
               else io_return ()) (\<lambda>_.
      io_bind (io_catch (fs_rename temporary destination) (\<lambda>e.
                 io_bind (io_catch (fs_try_exists previous) (\<lambda>_. io_return False)) (\<lambda>has_previous.
                 io_bind (if has_previous then io_ignore (fs_rename previous destination) else io_return ()) (\<lambda>_.
                 io_fail e)))) (\<lambda>_.
      io_bind (fs_try_exists previous) (\<lambda>left.
      if left then fs_remove_file previous else io_return ())))))))))"

definition read_with_previous :: "path \<Rightarrow> string io" where
  "read_with_previous p =
     io_catch (fs_read p) (\<lambda>e.
       if is_not_found e then fs_read (with_extension p ''json.previous'') else io_fail e)"

text \<open>
  The common shape of the other writers: write a temporary file, remove the destination, rename.
\<close>

definition write_remove_rename :: "path \<Rightarrow> path \<Rightarrow> string result \<Rightarrow> unit io" where
  "write_remove_rename temporary destination bytes =
     io_bind (io_lift bytes) (\<lambda>b.
     io_bind (fs_write temporary b) (\<lambda>_.
     io_bind (fs_try_exists destination) (\<lambda>present.
     io_bind (if present then fs_remove_file destination else io_return ()) (\<lambda>_.
     fs_rename temporary destination))))"

section \<open>Lemmas on trees\<close>

lemma follow_plain: "(\<And>q. t p \<noteq> Some (SymlinkNode q)) \<Longrightarrow> follow 40 t p = Some p"
  by (simp add: numeral_eq_Suc split: option.split node.split)

lemma read_tree_file [simp]: "t p = Some (FileNode c) \<Longrightarrow> read_tree p t = Inr c"
  by (simp add: read_tree_def follow_plain)

lemma read_tree_absent [simp]: "t p = None \<Longrightarrow> read_tree p t = Inl IoNotFound"
  by (simp add: read_tree_def follow_plain)

lemma write_target_plain:
  "(\<And>q. t p \<noteq> Some (SymlinkNode q)) \<Longrightarrow> write_target p t = Inr q \<Longrightarrow> q = p"
  by (simp add: write_target_def follow_plain split: if_splits)

lemma rename_tree_file:
  assumes "t a = Some (FileNode c)" "rename_tree a b t = Inr t'" "a \<noteq> b"
  shows "t' = (t(b := t a))(a := None)"
  using assms by (auto simp: rename_tree_def split: if_splits)

lemma io_valid_rename_file:
  assumes "a \<noteq> b"
    and "\<And>t. P t \<Longrightarrow> \<exists>c. t a = Some (FileNode c)"
    and "\<And>t. P t \<Longrightarrow> J ((t(b := t a))(a := None)) \<and> Q () ((t(b := t a))(a := None))"
    and "\<And>t. P t \<Longrightarrow> E t"
  shows "io_valid J P (fs_rename a b) Q E"
  unfolding fs_rename_def
proof (rule io_valid_step)
  fix t t' assume P: "P t" and t': "rename_tree a b t = Inr t'"
  from assms(2) [OF P] obtain c where "t a = Some (FileNode c)" by blast
  from rename_tree_file [OF this t' assms(1)] assms(3) [OF P] show "J t' \<and> Q () t'" by simp
qed (rule assms(4))

lemma remove_file_tree_Inr: "remove_file_tree p t = Inr t' \<Longrightarrow> t' = t(p := None)"
  by (auto simp: remove_file_tree_def split: option.splits node.splits)

lemma create_dir_all_tree_Inr:
  "create_dir_all_tree p t = Inr t' \<Longrightarrow> length p < length q \<Longrightarrow> t' q = t q"
  by (auto simp: create_dir_all_tree_def ancestors_def split: if_splits)

lemma file_stem_json:
  assumes "stem \<noteq> []"
  shows "file_stem (stem @ ''.json'') = stem"
proof -
  have "split_once CHR ''.'' (rev (stem @ ''.json'')) = Some (''nosj'', rev stem)" by simp
  with assms show ?thesis by (simp add: file_stem_def)
qed

lemma with_extension_length: "p \<noteq> [] \<Longrightarrow> length (with_extension p e) = length p"
  by (simp add: with_extension_def)

section \<open>Replacing a document without losing it\<close>

text \<open>What a reader with fallback finds.\<close>

definition document_at :: "path \<Rightarrow> tree \<Rightarrow> string option" where
  "document_at d t =
     (case read_tree d t of
        Inr c \<Rightarrow> Some c
      | Inl e \<Rightarrow> if e = IoNotFound then res_ok (read_tree (with_extension d ''json.previous'') t) else None)"

text \<open>The old document is in place, or only its previous copy is.\<close>

definition holds_document :: "path \<Rightarrow> string \<Rightarrow> tree \<Rightarrow> bool" where
  "holds_document d c t \<longleftrightarrow> t d = Some (FileNode c) \<or>
     t d = None \<and> t (with_extension d ''json.previous'') = Some (FileNode c)"

definition old_or_new :: "path \<Rightarrow> string \<Rightarrow> string \<Rightarrow> tree \<Rightarrow> bool" where
  "old_or_new d old new t \<longleftrightarrow> holds_document d old t \<or> t d = Some (FileNode new)"

lemma document_at_holds: "holds_document d c t \<Longrightarrow> document_at d t = Some c"
  by (auto simp: holds_document_def document_at_def)

lemma document_at_new: "t d = Some (FileNode c) \<Longrightarrow> document_at d t = Some c"
  by (simp add: document_at_def)

lemma old_or_new_document: "old_or_new d old new t \<Longrightarrow> document_at d t \<in> {Some old, Some new}"
  by (auto simp: old_or_new_def document_at_holds) (auto simp: document_at_def)

lemma reject_non_file_valid:
  assumes "\<And>t. I t \<Longrightarrow> J (t(p := None)) \<and> I (t(p := None))"
  shows "io_valid J I (reject_non_file_or_symlink p) (\<lambda>_. I) I"
  unfolding reject_non_file_or_symlink_def
proof (rule io_valid_bind [where R = "\<lambda>_. I"])
  show "io_valid J I (io_catch (io_bind (fs_symlink_metadata p) (\<lambda>n. io_return (Some n)))
     (\<lambda>e. if is_not_found e then io_return None else io_fail e)) (\<lambda>_. I) I"
  proof (rule io_valid_catch [where F = I])
    show "io_valid J I (io_bind (fs_symlink_metadata p) (\<lambda>n. io_return (Some n))) (\<lambda>_. I) I"
      unfolding fs_symlink_metadata_def
      by (rule io_valid_bind [where R = "\<lambda>_. I"], rule io_valid_query) auto
    show "io_valid J I (if is_not_found e then io_return None else io_fail e) (\<lambda>_. I) I" for e
      by (auto split: if_splits)
  qed
  show "io_valid J I (case m of None \<Rightarrow> io_return ()
     | Some n \<Rightarrow> if is_file_node n then fs_remove_file p
         else io_fail (UnsafeFilesystemEntry p ''managed destination must be a real file'')) (\<lambda>_. I) I" for m
    using assms
    by (auto split: option.split simp: fs_remove_file_def
        intro!: io_valid_step dest!: remove_file_tree_Inr)
qed

text \<open>The steps after the temporary file is written, on three distinct paths of one directory.\<close>

lemma move_old_away_valid:
  fixes d p m :: path
  assumes dist: "d \<noteq> p" "d \<noteq> m" "p \<noteq> m"
    and J: "\<And>t. J t \<longleftrightarrow> (t d = Some (FileNode old) \<or> t d = None \<and> t p = Some (FileNode old)) \<or> t d = Some (FileNode new)"
  shows "io_valid J (\<lambda>t. (t d = Some (FileNode old) \<or> t d = None \<and> t p = Some (FileNode old)) \<and> t m = Some (FileNode new))
    (io_bind (fs_try_exists d) (\<lambda>present. if present
               then io_bind (fs_symlink_metadata d) (\<lambda>n.
                      if \<not> is_file_node n then io_fail (err n)
                      else io_bind (reject_non_file_or_symlink p) (\<lambda>_. fs_rename d p))
               else io_return ()))
    (\<lambda>_ t. t d = None \<and> t p = Some (FileNode old) \<and> t m = Some (FileNode new)) J"
    (is "io_valid J ?S1 _ ?S3 J")
proof (rule io_valid_bind)
  let ?S2 = "\<lambda>t :: tree. t d = Some (FileNode old) \<and> t m = Some (FileNode new)"
  show "io_valid J ?S1 (fs_try_exists d) (\<lambda>present t. ?S1 t \<and> (present \<longleftrightarrow> t d = Some (FileNode old))) J"
    unfolding fs_try_exists_def by (rule io_valid_query) (auto simp: J follow_plain)
  have reject: "io_valid J ?S2 (reject_non_file_or_symlink p) (\<lambda>_. ?S2) ?S2"
    by (rule reject_non_file_valid) (use dist in \<open>auto simp: J\<close>)
  have ren: "io_valid J ?S2 (fs_rename d p) ?S3 J"
    by (rule io_valid_rename_file) (use dist in \<open>auto simp: J\<close>)
  have 1: "io_valid J ?S2 (io_bind (reject_non_file_or_symlink p) (\<lambda>_. fs_rename d p)) ?S3 J"
    by (rule io_valid_bind [OF io_valid_conseq [OF reject] ren]) (auto simp: J)
  have 2: "io_valid J ?S2 (if \<not> is_file_node n then io_fail (err n)
      else io_bind (reject_non_file_or_symlink p) (\<lambda>_. fs_rename d p)) ?S3 J" for n
    using 1 by (auto simp: J intro!: io_valid_fail)
  have 3: "io_valid J ?S2 (io_bind (fs_symlink_metadata d) (\<lambda>n. if \<not> is_file_node n then io_fail (err n)
      else io_bind (reject_non_file_or_symlink p) (\<lambda>_. fs_rename d p))) ?S3 J"
    by (rule io_valid_bind [OF _ 2]) (auto simp: fs_symlink_metadata_def J intro!: io_valid_query)
  show "io_valid J (\<lambda>t. ?S1 t \<and> (present \<longleftrightarrow> t d = Some (FileNode old)))
     (if present then io_bind (fs_symlink_metadata d) (\<lambda>n. if \<not> is_file_node n then io_fail (err n)
        else io_bind (reject_non_file_or_symlink p) (\<lambda>_. fs_rename d p)) else io_return ()) ?S3 J" for present
  proof (cases present)
    case True
    then show ?thesis using io_valid_conseq [OF 3] by (fastforce simp: J)
  next
    case False
    then show ?thesis by (auto intro!: io_valid_return)
  qed
qed

lemma move_new_in_valid:
  fixes d p m :: path
  assumes dist: "d \<noteq> p" "d \<noteq> m" "p \<noteq> m"
    and J: "\<And>t. J t \<longleftrightarrow> (t d = Some (FileNode old) \<or> t d = None \<and> t p = Some (FileNode old)) \<or> t d = Some (FileNode new)"
  shows "io_valid J (\<lambda>t. t d = None \<and> t p = Some (FileNode old) \<and> t m = Some (FileNode new))
    (io_catch (fs_rename m d) (\<lambda>e.
                 io_bind (io_catch (fs_try_exists p) (\<lambda>_. io_return False)) (\<lambda>has_previous.
                 io_bind (if has_previous then io_ignore (fs_rename p d) else io_return ()) (\<lambda>_.
                 io_fail e))))
    (\<lambda>_ t. t d = Some (FileNode new)) J"
    (is "io_valid J ?S3 _ ?S4 J")
proof (rule io_valid_catch [where F = ?S3])
  show "io_valid J ?S3 (fs_rename m d) ?S4 ?S3"
    by (rule io_valid_rename_file) (use dist in \<open>auto simp: J\<close>)
  have undo: "io_valid J ?S3 (io_catch (fs_try_exists p) (\<lambda>_. io_return False)) (\<lambda>_. ?S3) J"
    unfolding fs_try_exists_def
    by (rule io_valid_catch [where F = ?S3]) (auto intro!: io_valid_query)
  have ren: "io_valid J ?S3 (fs_rename p d) (\<lambda>_. J) J"
    by (rule io_valid_rename_file) (use dist in \<open>auto simp: J\<close>)
  have fin: "io_valid J ?S3 (if b then io_ignore (fs_rename p d) else io_return ()) (\<lambda>_. J) J" for b
    using io_valid_ignore [OF ren] by (auto simp: J intro!: io_valid_return)
  show "io_valid J ?S3 (io_bind (io_catch (fs_try_exists p) (\<lambda>_. io_return False)) (\<lambda>has_previous.
                 io_bind (if has_previous then io_ignore (fs_rename p d) else io_return ()) (\<lambda>_.
                 io_fail e))) ?S4 J" for e
    by (rule io_valid_bind [OF undo io_valid_bind [OF fin]]) auto
qed

lemma io_valid_create_dir_all:
  assumes "\<And>t t'. P t \<Longrightarrow> (\<And>q. length p < length q \<Longrightarrow> t' q = t q) \<Longrightarrow> J t' \<and> Q () t'"
    and "\<And>t. P t \<Longrightarrow> E t"
  shows "io_valid J P (fs_create_dir_all p) Q E"
  unfolding fs_create_dir_all_def
  by (rule io_valid_step) (use assms create_dir_all_tree_Inr in \<open>blast+\<close>)

lemma temporary_paths_distinct:
  assumes "d \<noteq> []" "last d = stem @ ''.json''" "stem \<noteq> []"
  shows "d \<noteq> with_extension d ''json.previous''" "d \<noteq> with_extension d ''json.tmp''"
    "with_extension d ''json.previous'' \<noteq> with_extension d ''json.tmp''"
  using assms by (auto simp: with_extension_def file_stem_json dest!: arg_cong [where f = last])

lemma service_atomic_json_valid:
  assumes d: "d = root @ relative" "relative \<noteq> []" "last d = stem @ ''.json''" "stem \<noteq> []"
  shows "io_valid (old_or_new d old new)
     (\<lambda>t. holds_document d old t \<and> (\<forall>q. t (with_extension d ''json.tmp'') \<noteq> Some (SymlinkNode q)))
     (service_atomic_json root relative (Inr new))
     (\<lambda>_ t. t d = Some (FileNode new)) (old_or_new d old new)"
proof -
  let ?p = "with_extension d ''json.previous''" and ?m = "with_extension d ''json.tmp''"
  let ?J = "old_or_new d old new"
  have dne: "d \<noteq> []" using d by auto
  note dist = temporary_paths_distinct [OF dne d(3,4)]
  have len: "length root < length d" "length (butlast d) < length d"
    "length ?p = length d" "length ?m = length d"
    using d dne by (simp_all add: with_extension_length)
  have J: "?J t \<longleftrightarrow> (t d = Some (FileNode old) \<or> t d = None \<and> t ?p = Some (FileNode old)) \<or> t d = Some (FileNode new)" for t
    by (simp add: old_or_new_def holds_document_def)
  let ?S0 = "\<lambda>t :: tree. holds_document d old t \<and> (\<forall>q. t ?m \<noteq> Some (SymlinkNode q))"
  let ?S1 = "\<lambda>t :: tree. (t d = Some (FileNode old) \<or> t d = None \<and> t ?p = Some (FileNode old)) \<and> t ?m = Some (FileNode new)"
  have mkdir: "io_valid ?J ?S0 (fs_create_dir_all q) (\<lambda>_. ?S0) ?J" if "length q < length d" for q
    using that len by (intro io_valid_create_dir_all) (auto simp: J holds_document_def)
  have wr: "io_valid ?J ?S0 (fs_write ?m new) (\<lambda>_. ?S1) ?J"
  proof (rule io_valid_write)
    fix t q and k :: nat assume t: "?S0 t" "write_target ?m t = Inr q"
    then have q: "q = ?m" using write_target_plain [of t ?m q] by blast
    show "?J (t(q \<mapsto> FileNode (take k new))) \<and> ?J (t(q \<mapsto> FileNode (take k new)))"
      using t(1) dist by (auto simp: q J holds_document_def)
    show "?S1 (t(q \<mapsto> FileNode new))" using t(1) dist by (auto simp: q holds_document_def)
  qed (auto simp: old_or_new_def)
  have final: "io_valid ?J (\<lambda>t. t d = Some (FileNode new))
      (io_bind (fs_try_exists ?p) (\<lambda>left. if left then fs_remove_file ?p else io_return ()))
      (\<lambda>_ t. t d = Some (FileNode new)) ?J"
  proof (rule io_valid_bind [where R = "\<lambda>_ t. t d = Some (FileNode new)"])
    show "io_valid ?J (\<lambda>t. t d = Some (FileNode new)) (fs_try_exists ?p) (\<lambda>_ t. t d = Some (FileNode new)) ?J"
      unfolding fs_try_exists_def by (rule io_valid_query) (auto simp: J)
    show "io_valid ?J (\<lambda>t. t d = Some (FileNode new)) (if left then fs_remove_file ?p else io_return ())
      (\<lambda>_ t. t d = Some (FileNode new)) ?J" for left
      using dist by (auto simp: J fs_remove_file_def intro!: io_valid_step dest!: remove_file_tree_Inr)
  qed
  note away = move_old_away_valid [OF dist J, of "\<lambda>_. UnsafeFilesystemEntry d ''provider metadata destination must be a real file''"]
  note into = move_new_in_valid [OF dist J]
  have "io_valid ?J ?S1
     (io_bind (fs_try_exists d) (\<lambda>present.
      io_bind (if present
               then io_bind (fs_symlink_metadata d) (\<lambda>n.
                      if \<not> is_file_node n
                      then io_fail (UnsafeFilesystemEntry d ''provider metadata destination must be a real file'')
                      else io_bind (reject_non_file_or_symlink ?p) (\<lambda>_. fs_rename d ?p))
               else io_return ()) (\<lambda>_.
      io_bind (io_catch (fs_rename ?m d) (\<lambda>e.
                 io_bind (io_catch (fs_try_exists ?p) (\<lambda>_. io_return False)) (\<lambda>has_previous.
                 io_bind (if has_previous then io_ignore (fs_rename ?p d) else io_return ()) (\<lambda>_.
                 io_fail e)))) (\<lambda>_.
      io_bind (fs_try_exists ?p) (\<lambda>left.
      if left then fs_remove_file ?p else io_return ())))))
     (\<lambda>_ t. t d = Some (FileNode new)) ?J"
    by (subst io_bind_assoc [symmetric], rule io_valid_bind [OF away])
      (rule io_valid_bind [OF into final])
  then show ?thesis
    unfolding service_atomic_json_def Let_def d(1) [symmetric] io_bind_lift_Inr
    by (intro io_valid_bind [OF mkdir [OF len(1)] io_valid_bind [OF mkdir [OF len(2)]
      io_valid_bind [OF wr]]])
qed

text \<open>Without faults, \<open>read_with_previous\<close> returns the document that is held.\<close>

lemma read_with_previous_holds:
  assumes "w_faults w = []" "holds_document d c (w_tree w)"
  shows "read_with_previous d w = (Inr c, w)"
  using assms
  by (auto simp: holds_document_def read_with_previous_def io_catch_def fs_read_def io_query_run is_not_found_def)

text \<open>
  The other writers: whatever fails, the destination is the old document, the new one, or
  missing with the new one complete under the temporary name.
\<close>

lemma write_remove_rename_valid:
  fixes d m :: path and old new :: string
  assumes dist: "d \<noteq> m"
  defines "J \<equiv> (\<lambda>t :: tree. t d = Some (FileNode old) \<or> t d = None \<and> t m = Some (FileNode new) \<or> t d = Some (FileNode new))"
  shows "io_valid J (\<lambda>t. t d = Some (FileNode old) \<and> (\<forall>q. t m \<noteq> Some (SymlinkNode q)))
     (write_remove_rename m d (Inr new)) (\<lambda>_ t. t d = Some (FileNode new)) J"
proof -
  let ?S0 = "\<lambda>t :: tree. t d = Some (FileNode old) \<and> (\<forall>q. t m \<noteq> Some (SymlinkNode q))"
  let ?S1 = "\<lambda>t :: tree. t d = Some (FileNode old) \<and> t m = Some (FileNode new)"
  let ?S2 = "\<lambda>t :: tree. t d = None \<and> t m = Some (FileNode new)"
  have wr: "io_valid J ?S0 (fs_write m new) (\<lambda>_. ?S1) J"
  proof (rule io_valid_write)
    fix t q and k :: nat assume t: "?S0 t" "write_target m t = Inr q"
    then have q: "q = m" using write_target_plain [of t m q] by blast
    show "J (t(q \<mapsto> FileNode (take k new))) \<and> J (t(q \<mapsto> FileNode (take k new)))"
      using t(1) dist by (auto simp: q J_def)
    show "?S1 (t(q \<mapsto> FileNode new))" using t(1) dist by (auto simp: q)
  qed (auto simp: J_def)
  have ex: "io_valid J ?S1 (fs_try_exists d) (\<lambda>x t. ?S1 t \<and> x) J"
    unfolding fs_try_exists_def by (rule io_valid_query) (auto simp: J_def follow_plain)
  have rm: "io_valid J (\<lambda>t. ?S1 t \<and> x) (if x then fs_remove_file d else io_return ()) (\<lambda>_. ?S2) J" for x
    using dist by (cases x) (auto simp: J_def fs_remove_file_def intro!: io_valid_step dest!: remove_file_tree_Inr)
  have ren: "io_valid J ?S2 (fs_rename m d) (\<lambda>_ t. t d = Some (FileNode new)) J"
    by (rule io_valid_rename_file) (use dist in \<open>auto simp: J_def\<close>)
  show ?thesis
    unfolding write_remove_rename_def io_bind_lift_Inr
    by (rule io_valid_bind [OF wr io_valid_bind [OF ex io_valid_bind [OF rm ren]]])
qed

text \<open>A run without faults passes through the tree in which neither document is at its place.\<close>

lemma write_remove_rename_run:
  assumes "d \<noteq> m" "w_faults w = []" "w_tree w d = Some (FileNode old)"
    and "\<And>q. w_tree w m \<noteq> Some (SymlinkNode q)" "\<not> is_dir (w_tree w) m"
    and "is_dir (w_tree w) (butlast m)" "is_dir (w_tree w) (butlast d)" "butlast d \<noteq> m" "\<not> is_root d"
  shows "\<exists>w'. write_remove_rename m d (Inr new) w = (Inr (), w') \<and> w_tree w' d = Some (FileNode new) \<and>
     (w_tree w)(m \<mapsto> FileNode new, d := None) \<in> set (w_crash w')"
proof -
  let ?t1 = "(w_tree w)(m \<mapsto> FileNode new)"
  let ?torn = "map (\<lambda>n. (w_tree w)(m \<mapsto> FileNode (take n new))) [0..<length new]"
  let ?w1 = "set_tree ?t1 (w\<lparr>w_crash := ?torn @ w_crash w\<rparr>)"
  have wr: "fs_write m new w = (Inr (), ?w1)"
    using assms by (simp add: fs_write_def next_fault_def write_target_def follow_plain Let_def)
  have t1d: "?t1 d = Some (FileNode old)" using assms by simp
  have ex: "fs_try_exists d ?w1 = (Inr True, ?w1)"
    using assms t1d by (simp add: fs_try_exists_def io_query_run set_tree_def follow_plain)
  let ?w2 = "set_tree (?t1(d := None)) ?w1"
  have rm: "fs_remove_file d ?w1 = (Inr (), ?w2)"
    using assms by (simp add: fs_remove_file_def io_step_run set_tree_def remove_file_tree_def)
  have nb: "butlast d \<noteq> d" using assms(9) by (metis append_butlast_last_id is_root_def not_Cons_self2 self_append_conv)
  have par: "is_dir (?t1(d := None)) (butlast d)" "\<not> is_dir (?t1(d := None)) d"
    using assms nb by (auto simp: is_dir_def)
  let ?t3 = "(?t1(d := None))(d := Some (FileNode new), m := None)"
  have ren: "fs_rename m d ?w2 = (Inr (), set_tree ?t3 ?w2)"
    using assms(1,2) par by (simp add: fs_rename_def io_step_run set_tree_def rename_tree_def)
  have "write_remove_rename m d (Inr new) w = (Inr (), set_tree ?t3 ?w2)"
    by (simp only: write_remove_rename_def io_bind_lift_Inr) (simp only: io_bind_def wr ex rm ren prod.case sum.case if_True)
  then show ?thesis using assms(1) by (simp add: set_tree_def)
qed

text \<open>Without faults a document that is not there yet is created.\<close>

lemma create_dir_all_existing:
  assumes "\<forall>q \<in> set (ancestors p). t q = Some DirNode"
  shows "create_dir_all_tree p t = Inr t"
proof -
  have "\<not> list_ex (\<lambda>q. t q \<noteq> None \<and> \<not> dir_or_link t q) (ancestors p)"
    using assms by (auto simp: list_ex_iff dir_or_link_def follow_plain is_dir_def)
  moreover have "(\<lambda>q. if q \<in> set (ancestors p) \<and> t q = None \<and> \<not> is_root q then Some DirNode else t q) = t"
    using assms by auto
  ultimately show ?thesis by (simp add: create_dir_all_tree_def)
qed

lemma service_atomic_json_fresh:
  assumes w: "w_faults w = []" and root: "root \<noteq> []" and dirs: "\<forall>q \<in> set (ancestors root). w_tree w q = Some DirNode"
    and absent: "w_tree w (root @ [f]) = None" "w_tree w (root @ [file_stem f @ ''.json.tmp'']) = None"
      "w_tree w (root @ [file_stem f @ ''.json.previous'']) = None"
    and names: "file_stem f @ ''.json.tmp'' \<noteq> f" "file_stem f @ ''.json.previous'' \<noteq> f"
  shows "\<exists>w'. service_atomic_json root [f] (Inr b) w = (Inr (), w')"
proof -
  let ?d = "root @ [f]" and ?m = "root @ [file_stem f @ ''.json.tmp'']" and ?p = "root @ [file_stem f @ ''.json.previous'']"
  have ext: "with_extension ?d ''json.tmp'' = ?m" "with_extension ?d ''json.previous'' = ?p" "butlast ?d = root"
    by (simp_all add: with_extension_def)
  have "root \<in> set (ancestors root)" using root
    by (auto simp: ancestors_def Suc_le_eq intro!: image_eqI [of _ _ "length root"])
  then have dir: "is_dir (w_tree w) root" using dirs by (simp add: is_dir_def)
  define w1 where "w1 = set_tree (w_tree w) (set_tree (w_tree w) w)"
  define w2 where "w2 = snd (fs_write ?m b w1)"
  define w3 where "w3 = set_tree ((w_tree w2)(?d := w_tree w2 ?m, ?m := None)) w2"
  have t1: "w_tree w1 = w_tree w" "w_faults w1 = []" using w by (simp_all add: w1_def set_tree_def)
  have mk: "fs_create_dir_all root w = (Inr (), set_tree (w_tree w) w)"
    "fs_create_dir_all root (set_tree (w_tree w) w) = (Inr (), w1)"
    using create_dir_all_existing [OF dirs] w by (simp_all add: fs_create_dir_all_def io_step_run set_tree_def w1_def)
  have wr: "fs_write ?m b w1 = (Inr (), w2)" and t2: "w_tree w2 = (w_tree w)(?m \<mapsto> FileNode b)" "w_faults w2 = []"
    using t1 absent(2) dir
    by (simp_all add: w2_def fs_write_def next_fault_def write_target_def follow_plain is_dir_def Let_def set_tree_def is_root_def)
  have ex: "fs_try_exists ?d w2 = (Inr False, w2)"
    using t2 absent(1) names(1) by (simp add: fs_try_exists_def io_query_run follow_plain)
  have ren: "fs_rename ?m ?d w2 = (Inr (), w3)"
    using t2 dir root absent(1) names(1) by (auto simp: fs_rename_def io_step_run rename_tree_def w3_def is_dir_def is_root_def)
  have ex': "fs_try_exists ?p w3 = (Inr False, w3)"
    using t2 absent(3) names by (simp add: fs_try_exists_def io_query_run follow_plain w3_def set_tree_def)
  show ?thesis
    by (simp add: service_atomic_json_def Let_def ext io_bind_def io_catch_def mk wr ex ren ex')
qed

section \<open>Replacing a document leaves the rest alone\<close>

text \<open>Assertions that only look at the nodes of some paths.\<close>

definition depends_on :: "path set \<Rightarrow> (tree \<Rightarrow> bool) \<Rightarrow> bool" where
  "depends_on D I \<longleftrightarrow> (\<forall>t t'. (\<forall>q \<in> D. t' q = t q) \<longrightarrow> I t \<longrightarrow> I t')"

lemma depends_onD: "depends_on D I \<Longrightarrow> I t \<Longrightarrow> (\<And>q. q \<in> D \<Longrightarrow> t' q = t q) \<Longrightarrow> I t'"
  unfolding depends_on_def by blast

lemma io_valid_step_elsewhere:
  assumes "depends_on D I" "\<And>t. I t \<Longrightarrow> J t" "\<And>t t' q. q \<in> D \<Longrightarrow> f t = Inr t' \<Longrightarrow> t' q = t q"
  shows "io_valid J I (io_step f) (\<lambda>_. I) I"
  by (rule io_valid_step) (use assms depends_onD in blast)+

lemma rename_tree_elsewhere:
  assumes "rename_tree a b t = Inr t'" "\<not> below a q" "\<not> below b q"
  shows "t' q = t q"
proof -
  have "q \<noteq> a" "q \<noteq> b" using assms(2,3) by (auto simp: below_def)
  with assms show ?thesis by (auto simp: rename_tree_def move_tree_def split: if_splits)
qed

lemma service_atomic_json_elsewhere:
  fixes root relative :: path and stem :: string
  defines "d \<equiv> root @ relative"
  assumes d: "relative \<noteq> []" "last d = stem @ ''.json''" "stem \<noteq> []"
    and dep: "depends_on D I" and J: "\<And>t. I t \<Longrightarrow> J t"
    and far: "\<And>q. q \<in> D \<Longrightarrow> length d < length q \<and>
      \<not> below d q \<and> \<not> below (with_extension d ''json.previous'') q \<and> \<not> below (with_extension d ''json.tmp'') q"
  shows "io_valid J (\<lambda>t. I t \<and> (\<forall>q. t (with_extension d ''json.tmp'') \<noteq> Some (SymlinkNode q)))
     (service_atomic_json root relative bytes) (\<lambda>_. I) I"
proof -
  let ?p = "with_extension d ''json.previous''" and ?m = "with_extension d ''json.tmp''"
  let ?S0 = "\<lambda>t :: tree. I t \<and> (\<forall>q. t ?m \<noteq> Some (SymlinkNode q))"
  have dne: "d \<noteq> []" using d(1) by (simp add: d_def)
  have len: "length root < length d" "length (butlast d) < length d" "length ?p = length d" "length ?m = length d"
    using d(1) dne by (simp_all add: d_def with_extension_length)
  note step = io_valid_step_elsewhere [OF dep J]
  have mkdir: "io_valid J ?S0 (fs_create_dir_all q) (\<lambda>_. ?S0) I" if "length q < length d" for q
  proof (rule io_valid_create_dir_all)
    fix t t' assume t: "?S0 t" and same: "\<And>r. length q < length r \<Longrightarrow> t' r = t r"
    have "I t'"
    proof (rule depends_onD [OF dep])
      show "I t" using t by simp
      show "t' r = t r" if "r \<in> D" for r using far [OF that] \<open>length q < length d\<close> by (intro same) linarith
    qed
    with t J same [of ?m] that len show "J t' \<and> ?S0 t'" by auto
  qed simp
  have wr: "io_valid J ?S0 (fs_write ?m b) (\<lambda>_. I) I" for b
  proof (rule io_valid_write)
    fix t q and k :: nat assume t: "?S0 t" "write_target ?m t = Inr q"
    then have q: "q = ?m" using write_target_plain [of t ?m q] by blast
    have I: "I (t(q \<mapsto> FileNode c))" for c
      by (rule depends_onD [OF dep, of t]) (use t far [of ?m] in \<open>auto simp: q below_def\<close>)
    then show "J (t(q \<mapsto> FileNode (take k b))) \<and> I (t(q \<mapsto> FileNode (take k b)))" "I (t(q \<mapsto> FileNode b))"
      using J by auto
  qed simp
  have q: "io_valid J I (fs_try_exists r) (\<lambda>_. I) I" "io_valid J I (fs_symlink_metadata r) (\<lambda>_. I) I" for r
    by (rule io_valid_frame; blast)+
  have rm: "io_valid J I (fs_remove_file r) (\<lambda>_. I) I" if "r \<in> {d, ?p, ?m}" for r
    unfolding fs_remove_file_def
  proof (rule step)
    fix t t' q assume q: "q \<in> D" and t': "remove_file_tree r t = Inr t'"
    have "length r = length d" using that len by auto
    with far [OF q] have "q \<noteq> r" by auto
    with remove_file_tree_Inr [OF t'] show "t' q = t q" by simp
  qed
  have rn: "io_valid J I (fs_rename a b) (\<lambda>_. I) I" if "a \<in> {d, ?p, ?m}" "b \<in> {d, ?p, ?m}" for a b
    unfolding fs_rename_def
  proof (rule step)
    fix t t' q assume q: "q \<in> D" and t': "rename_tree a b t = Inr t'"
    show "t' q = t q" by (rule rename_tree_elsewhere [OF t']) (use that far [OF q] in auto)
  qed
  have reject: "io_valid J I (reject_non_file_or_symlink ?p) (\<lambda>_. I) I"
  proof (rule reject_non_file_valid)
    fix t assume "I t"
    then have "I (t(?p := None))" by (rule depends_onD [OF dep]) (use far [of ?p] in \<open>auto simp: below_def\<close>)
    with J show "J (t(?p := None)) \<and> I (t(?p := None))" by simp
  qed
  have fl: "io_valid J I (io_fail e) (\<lambda>_ :: unit. I) I" and rt: "io_valid J I (io_return ()) (\<lambda>_. I) I" for e
    by auto
  have away: "io_valid J I (if x then io_bind (fs_symlink_metadata d) (\<lambda>n. if \<not> is_file_node n
       then io_fail (UnsafeFilesystemEntry d ''provider metadata destination must be a real file'')
       else io_bind (reject_non_file_or_symlink ?p) (\<lambda>_. fs_rename d ?p)) else io_return ()) (\<lambda>_. I) I" for x
  proof -
    have "io_valid J I (if \<not> is_file_node n
       then io_fail (UnsafeFilesystemEntry d ''provider metadata destination must be a real file'')
       else io_bind (reject_non_file_or_symlink ?p) (\<lambda>_. fs_rename d ?p)) (\<lambda>_. I) I" for n
      using fl io_valid_bind [OF reject rn [of d ?p]] by simp
    from rt io_valid_bind [OF q(2) this] show ?thesis by simp
  qed
  have undo: "io_valid J I (io_bind (io_catch (fs_try_exists ?p) (\<lambda>_. io_return False)) (\<lambda>h.
      io_bind (if h then io_ignore (fs_rename ?p d) else io_return ()) (\<lambda>_. io_fail e :: unit io))) (\<lambda>_. I) I" for e
  proof -
    have c: "io_valid J I (io_catch (fs_try_exists ?p) (\<lambda>_. io_return False)) (\<lambda>_. I) I"
      by (rule io_valid_catch [OF q(1)]) auto
    have r: "io_valid J I (if h then io_ignore (fs_rename ?p d) else io_return ()) (\<lambda>_. I) I" for h
      using io_valid_ignore [OF rn [of ?p d]] rt by simp
    show ?thesis by (rule io_valid_bind [OF c], rule io_valid_bind [OF r], rule fl)
  qed
  have last: "io_valid J I (if h then fs_remove_file ?p else io_return ()) (\<lambda>_. I) I" for h
    using rm [of ?p] rt by simp
  have lift: "io_valid J ?S0 (io_lift bytes) (\<lambda>_. ?S0) I" by (rule io_valid_lift) auto
  show ?thesis
    unfolding service_atomic_json_def Let_def d_def [symmetric]
    by (intro io_valid_bind [OF mkdir [OF len(1)] io_valid_bind [OF mkdir [OF len(2)]
      io_valid_bind [OF lift io_valid_bind [OF wr io_valid_bind [OF q(1) io_valid_bind [OF away
      io_valid_bind [OF io_valid_catch [OF rn [of ?m d] undo] io_valid_bind [OF q(1) last]]]]]]]]) auto
qed

text \<open>A successful replacement puts the new document in place, whatever was there.\<close>

lemma rename_keeps:
  assumes "rename_tree a b t = Inr t'" "a \<noteq> m" "b \<noteq> m" "length a = length m" "length b = length m"
  shows "t' m = t m"
  by (rule rename_tree_elsewhere [OF assms(1)]) (use assms in \<open>auto simp: below_def\<close>)

lemma service_atomic_json_sets:
  fixes root relative :: path and stem :: string
  defines "d \<equiv> root @ relative"
  assumes d: "relative \<noteq> []" "last d = stem @ ''.json''" "stem \<noteq> []"
  shows "io_valid (\<lambda>_. True) (\<lambda>t. \<forall>q. t (with_extension d ''json.tmp'') \<noteq> Some (SymlinkNode q))
     (service_atomic_json root relative (Inr new)) (\<lambda>_ t. t d = Some (FileNode new)) (\<lambda>_. True)"
proof -
  let ?p = "with_extension d ''json.previous''" and ?m = "with_extension d ''json.tmp''"
  let ?T = "\<lambda>_ :: tree. True" and ?M = "\<lambda>t :: tree. t ?m = Some (FileNode new)"
  have dne: "d \<noteq> []" using d(1) by (simp add: d_def)
  note dist = temporary_paths_distinct [OF dne d(2,3)]
  have len: "length root < length d" "length (butlast d) < length d" "length ?p = length d" "length ?m = length d"
    using d(1) dne by (simp_all add: d_def with_extension_length)
  let ?S0 = "\<lambda>t :: tree. \<forall>q. t ?m \<noteq> Some (SymlinkNode q)"
  have mkdir: "io_valid ?T ?S0 (fs_create_dir_all q) (\<lambda>_. ?S0) ?T" if "length q < length d" for q
    using that len by (intro io_valid_create_dir_all) auto
  have wr: "io_valid ?T ?S0 (fs_write ?m new) (\<lambda>_. ?M) ?T"
  proof (rule io_valid_write)
    fix t q assume "?S0 t" "write_target ?m t = Inr q"
    then have "q = ?m" using write_target_plain [of t ?m q] by blast
    then show "?M (t(q \<mapsto> FileNode new))" by simp
  qed auto
  have q: "io_valid ?T ?M (fs_try_exists r) (\<lambda>_. ?M) ?T" "io_valid ?T ?M (fs_symlink_metadata r) (\<lambda>_. ?M) ?T" for r
    by (rule io_valid_frame; blast)+
  have rn: "io_valid ?T ?M (fs_rename d ?p) (\<lambda>_. ?M) ?T"
    unfolding fs_rename_def
  proof (rule io_valid_step)
    fix t t' assume t: "?M t" "rename_tree d ?p t = Inr t'"
    have "t' ?m = t ?m" by (rule rename_keeps [OF t(2)]) (use dist len in simp_all)
    with t(1) show "?T t' \<and> ?M t'" by simp
  qed simp
  have reject: "io_valid ?T ?M (reject_non_file_or_symlink ?p) (\<lambda>_. ?M) ?T"
    by (rule io_valid_conseq [OF reject_non_file_valid [where I = ?M]]) (use dist in auto)
  have away: "io_valid ?T ?M (if x then io_bind (fs_symlink_metadata d) (\<lambda>n. if \<not> is_file_node n
       then io_fail (UnsafeFilesystemEntry d ''provider metadata destination must be a real file'')
       else io_bind (reject_non_file_or_symlink ?p) (\<lambda>_. fs_rename d ?p)) else io_return ()) (\<lambda>_. ?M) ?T" for x
  proof -
    have "io_valid ?T ?M (if \<not> is_file_node n
       then io_fail (UnsafeFilesystemEntry d ''provider metadata destination must be a real file'')
       else io_bind (reject_non_file_or_symlink ?p) (\<lambda>_. fs_rename d ?p)) (\<lambda>_. ?M) ?T" for n
      using io_valid_bind [OF reject rn] by (auto intro!: io_valid_fail)
    from io_valid_bind [OF q(2) this] show ?thesis by (auto intro!: io_valid_return)
  qed
  let ?D = "\<lambda>t :: tree. t d = Some (FileNode new)"
  have into: "io_valid ?T ?M (io_catch (fs_rename ?m d) (\<lambda>e.
                 io_bind (io_catch (fs_try_exists ?p) (\<lambda>_. io_return False)) (\<lambda>has_previous.
                 io_bind (if has_previous then io_ignore (fs_rename ?p d) else io_return ()) (\<lambda>_.
                 io_fail e)))) (\<lambda>_. ?D) ?T"
  proof (rule io_valid_catch [where F = ?T])
    show "io_valid ?T ?M (fs_rename ?m d) (\<lambda>_. ?D) ?T"
      by (rule io_valid_rename_file) (use dist in auto)
    show "io_valid ?T ?T (io_bind (io_catch (fs_try_exists ?p) (\<lambda>_. io_return False)) (\<lambda>has_previous.
                 io_bind (if has_previous then io_ignore (fs_rename ?p d) else io_return ()) (\<lambda>_.
                 io_fail e))) (\<lambda>_. ?D) ?T" for e
    proof (rule io_valid_bind [where R = "\<lambda>_. ?T"])
      show "io_valid ?T ?T (io_catch (fs_try_exists ?p) (\<lambda>_. io_return False)) (\<lambda>_. ?T) ?T"
        by (rule io_valid_frame) auto
      have ren: "io_valid ?T ?T (fs_rename ?p d) (\<lambda>_. ?T) ?T"
        unfolding fs_rename_def by (rule io_valid_step) auto
      have "io_valid ?T ?T (if h then io_ignore (fs_rename ?p d) else io_return ()) (\<lambda>_. ?T) ?T" for h
        using io_valid_ignore [OF ren] by (auto intro!: io_valid_return)
      then show "io_valid ?T ?T (io_bind (if h then io_ignore (fs_rename ?p d) else io_return ()) (\<lambda>_.
                 io_fail e)) (\<lambda>_. ?D) ?T" for h
        by (rule io_valid_bind) auto
    qed
  qed
  have fin: "io_valid ?T ?D (io_bind (fs_try_exists ?p) (\<lambda>left. if left then fs_remove_file ?p else io_return ())) (\<lambda>_. ?D) ?T"
  proof (rule io_valid_bind [where R = "\<lambda>_. ?D"])
    show "io_valid ?T ?D (fs_try_exists ?p) (\<lambda>_. ?D) ?T" by (rule io_valid_frame) auto
    show "io_valid ?T ?D (if left then fs_remove_file ?p else io_return ()) (\<lambda>_. ?D) ?T" for left
      using dist by (auto simp: fs_remove_file_def intro!: io_valid_step io_valid_return dest!: remove_file_tree_Inr)
  qed
  show ?thesis
    unfolding service_atomic_json_def Let_def d_def [symmetric] io_bind_lift_Inr
    by (rule io_valid_bind [OF mkdir [OF len(1)] io_valid_bind [OF mkdir [OF len(2)]
      io_valid_bind [OF wr io_valid_bind [OF q(1) io_valid_bind [OF away io_valid_bind [OF into fin]]]]]])
qed

section \<open>Properties\<close>

text \<open>C2: replacing a provider document through \<open>atomic_json\<close> never loses it: whatever operations
  fail, the tree left behind, and every tree a crash at any point could leave behind, still
  yields the old or the new document to \<open>read_with_previous\<close>; success means the new one.\<close>

theorem service_atomic_json_crash_safe:
  assumes "relative \<noteq> []" "last (root @ relative) = stem @ ''.json''" "stem \<noteq> []"
    and "holds_document (root @ relative) old (w_tree w)"
    and "\<forall>q. w_tree w (with_extension (root @ relative) ''json.tmp'') \<noteq> Some (SymlinkNode q)"
    and "w_crash w = []" "service_atomic_json root relative (Inr new) w = (r, w')"
  shows "(\<forall>t \<in> set (w_crash w'). document_at (root @ relative) t \<in> {Some old, Some new}) \<and>
    document_at (root @ relative) (w_tree w') \<in> {Some old, Some new} \<and>
    (r = Inr () \<longrightarrow> document_at (root @ relative) (w_tree w') = Some new)"
proof -
  note v = service_atomic_json_valid [OF refl assms(1-3), of old new]
  have 1: "\<forall>t \<in> set (w_crash w'). old_or_new (root @ relative) old new t"
    and 2: "case r of Inr _ \<Rightarrow> w_tree w' (root @ relative) = Some (FileNode new)
       | Inl _ \<Rightarrow> old_or_new (root @ relative) old new (w_tree w')"
    using io_valid_run [OF v _ assms(6,7)] assms(4,5) by auto
  from 2 have "document_at (root @ relative) (w_tree w') \<in> {Some old, Some new}"
    using old_or_new_document document_at_new by (cases r) auto
  moreover from 2 have "r = Inr () \<longrightarrow> document_at (root @ relative) (w_tree w') = Some new"
    by (auto simp: document_at_new)
  ultimately show ?thesis using 1 old_or_new_document by blast
qed

definition sample_world :: world where
  "sample_world = \<lparr>w_tree = [[''data''] \<mapsto> DirNode, [''data'', ''registry.json''] \<mapsto> FileNode ''old''],
     w_faults = [None, None, None, None, None, None, None, Some (IoPermissionDenied, 0)],
     w_crash = [], w_locks = {}, w_events = [],
     w_net = [], w_sent = [], w_cancel = None\<rparr>"

theorem service_atomic_json_crash_safe_witness:
  "document_at [''data'', ''registry.json'']
     (w_tree (snd (service_atomic_json [''data''] [''registry.json''] (Inr ''new'') sample_world)))
   \<in> {Some ''old'', Some ''new''}"
proof -
  obtain r w' where run: "service_atomic_json [''data''] [''registry.json''] (Inr ''new'') sample_world = (r, w')"
    by fastforce
  have "last ([''data''] @ [''registry.json'']) = ''registry'' @ ''.json''" by simp
  moreover have "holds_document ([''data''] @ [''registry.json'']) ''old'' (w_tree sample_world)"
    by (simp add: holds_document_def sample_world_def)
  moreover have "\<forall>q. w_tree sample_world (with_extension ([''data''] @ [''registry.json'']) ''json.tmp'') \<noteq> Some (SymlinkNode q)"
    by (simp add: sample_world_def with_extension_def)
  ultimately show ?thesis
    using service_atomic_json_crash_safe [of "[''registry.json'']" "[''data'']" "''registry''" "''old''" sample_world "''new''" r w'] run
    by (simp add: sample_world_def)
qed

end
