(* ===== verification/Identifiers.thy ===== *)
theory Identifiers
  imports Files
begin

text \<open>
  The identifier newtypes: \<open>InstanceId\<close> (\<^verbatim>\<open>instance/mod.rs\<close>), \<open>ProviderId\<close>, \<open>ComponentId\<close> and
  \<open>ProviderInstanceId\<close> (\<^verbatim>\<open>providers/manifest.rs\<close>), \<open>KeyId::parse\<close> (\<^verbatim>\<open>trust/mod.rs\<close>),
  \<open>MinecraftConfig\<close> (\<^verbatim>\<open>minecraft/mod.rs\<close>), \<open>LoaderKind\<close> and \<open>LoaderConfig\<close>
  (\<^verbatim>\<open>loaders/mod.rs\<close>).  The string wrappers are ordered as their strings, as the derived \<open>Ord\<close>
  orders them, so they are keys of ordered maps; each is an instance of \<open>validated_string\<close>.
\<close>

section \<open>The types\<close>

datatype InstanceId = InstanceId (iid_str: string)

datatype ProviderId = ProviderId (pid_str: string)

datatype ComponentId = ComponentId (cid_str: string)

instantiation InstanceId :: linorder
begin

definition less_eq_InstanceId :: "InstanceId \<Rightarrow> InstanceId \<Rightarrow> bool" where
  "less_eq_InstanceId x y = (iid_str x \<le> iid_str y)"

definition less_InstanceId :: "InstanceId \<Rightarrow> InstanceId \<Rightarrow> bool" where
  "less_InstanceId x y = (iid_str x < iid_str y)"

instance
  by intro_classes (auto simp: less_eq_InstanceId_def less_InstanceId_def intro: InstanceId.expand)

end

instantiation ProviderId :: linorder
begin

definition less_eq_ProviderId :: "ProviderId \<Rightarrow> ProviderId \<Rightarrow> bool" where
  "less_eq_ProviderId x y = (pid_str x \<le> pid_str y)"

definition less_ProviderId :: "ProviderId \<Rightarrow> ProviderId \<Rightarrow> bool" where
  "less_ProviderId x y = (pid_str x < pid_str y)"

instance
  by intro_classes (auto simp: less_eq_ProviderId_def less_ProviderId_def intro: ProviderId.expand)

end

instantiation ComponentId :: linorder
begin

definition less_eq_ComponentId :: "ComponentId \<Rightarrow> ComponentId \<Rightarrow> bool" where
  "less_eq_ComponentId x y = (cid_str x \<le> cid_str y)"

definition less_ComponentId :: "ComponentId \<Rightarrow> ComponentId \<Rightarrow> bool" where
  "less_ComponentId x y = (cid_str x < cid_str y)"

instance
  by intro_classes (auto simp: less_eq_ComponentId_def less_ComponentId_def intro: ComponentId.expand)

end

instantiation KeyId :: linorder
begin

definition less_eq_KeyId :: "KeyId \<Rightarrow> KeyId \<Rightarrow> bool" where
  "less_eq_KeyId x y = (key_str x \<le> key_str y)"

definition less_KeyId :: "KeyId \<Rightarrow> KeyId \<Rightarrow> bool" where
  "less_KeyId x y = (key_str x < key_str y)"

instance
  by intro_classes (auto simp: less_eq_KeyId_def less_KeyId_def intro: KeyId.expand)

end

instantiation SafeRelativePath :: linorder
begin

definition less_eq_SafeRelativePath :: "SafeRelativePath \<Rightarrow> SafeRelativePath \<Rightarrow> bool" where
  "less_eq_SafeRelativePath x y = (srp_str x \<le> srp_str y)"

definition less_SafeRelativePath :: "SafeRelativePath \<Rightarrow> SafeRelativePath \<Rightarrow> bool" where
  "less_SafeRelativePath x y = (srp_str x < srp_str y)"

instance
  by intro_classes (auto simp: less_eq_SafeRelativePath_def less_SafeRelativePath_def intro: SafeRelativePath.expand)

end

section \<open>Instance identifiers\<close>

definition invalid_id :: "string \<Rightarrow> string \<Rightarrow> Error" where
  "invalid_id i reason = InvalidInstanceId i reason"

definition iid_new :: "string \<Rightarrow> InstanceId result" where
  "iid_new i =
     (if i = [] then Inl (invalid_id i ''identifier is empty'')
      else if length i > 64 then Inl (invalid_id i ''identifier exceeds 64 bytes'')
      else if \<not> list_all (\<lambda>b. is_ascii_alphanumeric b \<or> b \<in> {CHR ''-'', CHR ''_''}) i
      then Inl (invalid_id i ''only ASCII letters, digits, hyphens, and underscores are allowed'')
      else Inr (InstanceId i))"

definition iid_valid :: "string \<Rightarrow> bool" where
  "iid_valid s = (s \<noteq> [] \<and> length s \<le> 64 \<and>
     list_all (\<lambda>b. is_ascii_alphanumeric b \<or> b \<in> {CHR ''-'', CHR ''_''}) s)"

section \<open>Provider and component identifiers\<close>

definition pid_new :: "string \<Rightarrow> ProviderId result" where
  "pid_new value =
     (if value = [] \<or> length value > 64
         \<or> \<not> list_all (\<lambda>(i, b). is_ascii_lowercase b \<or> is_ascii_digit b
                \<or> (i > 0 \<and> b \<in> {CHR ''-'', CHR ''_''})) (enumerate 0 value)
      then Inl (StaticProvider (InvalidId value))
      else Inr (ProviderId value))"

definition pid_valid :: "string \<Rightarrow> bool" where
  "pid_valid s = (s \<noteq> [] \<and> length s \<le> 64 \<and>
     list_all (\<lambda>(i, b). is_ascii_lowercase b \<or> is_ascii_digit b
       \<or> (i > 0 \<and> b \<in> {CHR ''-'', CHR ''_''})) (enumerate 0 s))"

definition cid_new :: "string \<Rightarrow> ComponentId result" where
  "cid_new value =
     (if value = [] \<or> length value > 64
         \<or> \<not> list_all (\<lambda>(i, b). is_ascii_lowercase b \<or> is_ascii_digit b
                \<or> (i > 0 \<and> b \<in> {CHR ''-'', CHR ''_'', CHR ''.''})) (enumerate 0 value)
      then Inl (StaticProvider (InvalidComponentId value))
      else Inr (ComponentId value))"

definition cid_valid :: "string \<Rightarrow> bool" where
  "cid_valid s = (s \<noteq> [] \<and> length s \<le> 64 \<and>
     list_all (\<lambda>(i, b). is_ascii_lowercase b \<or> is_ascii_digit b
       \<or> (i > 0 \<and> b \<in> {CHR ''-'', CHR ''_'', CHR ''.''})) (enumerate 0 s))"

interpretation iid: validated_string iid_new iid_str iid_valid
  by unfold_locales (auto simp: iid_new_def iid_valid_def)

interpretation pid: validated_string pid_new pid_str pid_valid
  by unfold_locales (auto simp: pid_new_def pid_valid_def)

interpretation cid: validated_string cid_new cid_str cid_valid
  by unfold_locales (auto simp: cid_new_def cid_valid_def)

section \<open>Key fingerprints\<close>

definition key_parse :: "string \<Rightarrow> TrustError + KeyId" where
  "key_parse value =
     (case strip_prefix ''sha256:'' value of
        None \<Rightarrow> Inl (InvalidPublicKey ''key ID must use the sha256: prefix'')
      | Some digest \<Rightarrow>
          if length digest \<noteq> 64 \<or> \<not> list_all (\<lambda>b. is_ascii_hexdigit b \<and> \<not> is_ascii_uppercase b) digest
          then Inl (InvalidPublicKey ''key ID must contain 64 lowercase hexadecimal characters'')
          else Inr (KeyId value))"

definition key_valid :: "string \<Rightarrow> bool" where
  "key_valid s = (\<exists>d. s = ''sha256:'' @ d \<and> length d = 64
     \<and> list_all (\<lambda>b. is_ascii_hexdigit b \<and> \<not> is_ascii_uppercase b) d)"

interpretation kid: validated_string key_parse key_str key_valid
  by unfold_locales (auto simp: key_parse_def key_valid_def split: option.splits)

section \<open>Provider instance references\<close>

record ProviderInstanceId =
  pi_provider_id :: ProviderId
  pi_instance_id :: InstanceId

text \<open>\<open>Display\<close> and \<open>FromStr\<close>.\<close>

definition pi_show :: "ProviderInstanceId \<Rightarrow> string" where
  "pi_show k = pid_str (pi_provider_id k) @ '':'' @ iid_str (pi_instance_id k)"

definition pi_from_str :: "string \<Rightarrow> ProviderInstanceId result" where
  "pi_from_str value =
     (case split_once CHR '':'' value of
        None \<Rightarrow> Inl (StaticProvider (InvalidReference value))
      | Some (provider, instance) \<Rightarrow>
          if CHR '':'' \<in> set instance then Inl (StaticProvider (InvalidReference value))
          else res_bind (pid_new provider) (\<lambda>p.
               res_bind (iid_new instance) (\<lambda>i.
               Inr \<lparr>pi_provider_id = p, pi_instance_id = i\<rparr>)))"

definition pi_wf :: "ProviderInstanceId \<Rightarrow> bool" where
  "pi_wf k = (pid_valid (pid_str (pi_provider_id k)) \<and> iid_valid (iid_str (pi_instance_id k)))"

lemma pid_valid_no_colon: "pid_valid s \<Longrightarrow> CHR '':'' \<notin> set s"
proof
  assume v: "pid_valid s" and c: "CHR '':'' \<in> set s"
  from c obtain i where "i < length s" "s ! i = CHR '':''" by (auto simp: in_set_conv_nth)
  then have "(i, CHR '':'') \<in> set (enumerate 0 s)"
    by (force simp: in_set_enumerate_eq)
  with v show False
    by (auto simp: pid_valid_def list_all_iff is_ascii_lowercase_def is_ascii_digit_def byte_def)
qed

lemma iid_valid_no_colon: "iid_valid s \<Longrightarrow> CHR '':'' \<notin> set s"
  by (auto simp: iid_valid_def list_all_iff ascii_defs byte_def)

lemma pi_from_show:
  assumes "pi_wf k"
  shows "pi_from_str (pi_show k) = Inr k"
proof -
  let ?p = "pid_str (pi_provider_id k)" and ?i = "iid_str (pi_instance_id k)"
  from assms have v: "pid_valid ?p" "iid_valid ?i" by (auto simp: pi_wf_def)
  have "split_once CHR '':'' (pi_show k) = Some (?p, ?i)"
    using pid_valid_no_colon [OF v(1)] by (simp add: split_once_Some pi_show_def)
  moreover have "pid_new ?p = Inr (pi_provider_id k)" "iid_new ?i = Inr (pi_instance_id k)"
    using v by (simp_all add: pid_new_def pid_valid_def iid_new_def iid_valid_def)
  ultimately show ?thesis
    using iid_valid_no_colon [OF v(2)] by (simp add: pi_from_str_def)
qed

lemma pi_show_from:
  assumes "pi_from_str s = Inr k"
  shows "pi_show k = s \<and> pi_wf k"
proof -
  from assms obtain p i where pi: "split_once CHR '':'' s = Some (p, i)"
      "pid_new p = Inr (pi_provider_id k)" "iid_new i = Inr (pi_instance_id k)"
    by (auto simp: pi_from_str_def split: option.splits if_splits)
  then show ?thesis
    using pid.new_as_str [OF pi(2)] iid.new_as_str [OF pi(3)]
      pid.new_Inr_valid [OF pi(2)] iid.new_Inr_valid [OF pi(3)]
    by (simp add: pi_show_def pi_wf_def split_once_Some)
qed

section \<open>Minecraft versions and loaders\<close>

datatype MinecraftConfig = MinecraftConfig (mc_version: string)

definition mc_validate :: "MinecraftConfig \<Rightarrow> unit result" where
  "mc_validate c =
     (if mc_version c = [] \<or> length (mc_version c) > 128
         \<or> \<not> list_all (\<lambda>b. is_ascii_alphanumeric b \<or> b \<in> {CHR ''.'', CHR ''-'', CHR ''_''}) (mc_version c)
      then Inl (InvalidConfig ''Minecraft version identifier is invalid'')
      else Inr ())"

definition mc_new :: "string \<Rightarrow> MinecraftConfig result" where
  "mc_new version = res_bind (mc_validate (MinecraftConfig version)) (\<lambda>_. Inr (MinecraftConfig version))"

definition loader_kind_str :: "LoaderKind \<Rightarrow> string" where
  "loader_kind_str k =
     (case k of Fabric \<Rightarrow> ''fabric'' | Forge \<Rightarrow> ''forge'' | NeoForge \<Rightarrow> ''neoforge'' | Quilt \<Rightarrow> ''quilt'')"

definition loader_kind_from_str :: "string \<Rightarrow> LoaderKind result" where
  "loader_kind_from_str value =
     (let v = to_ascii_lowercase value in
      if v = ''fabric'' then Inr Fabric
      else if v = ''forge'' then Inr Forge
      else if v = ''neoforge'' then Inr NeoForge
      else if v = ''quilt'' then Inr Quilt
      else Inl (LoaderPlanErr (UnsupportedKind value)))"

record LoaderConfig =
  lc_kind :: LoaderKind
  lc_version :: string

definition lc_validate :: "LoaderConfig \<Rightarrow> unit result" where
  "lc_validate c =
     (if eq_ignore_ascii_case (lc_version c) ''latest'' \<or> lc_version c = []
         \<or> length (lc_version c) > 128
         \<or> \<not> list_all (\<lambda>b. is_ascii_alphanumeric b \<or> b \<in> {CHR ''.'', CHR ''-'', CHR ''_'', CHR ''+''})
              (lc_version c)
      then Inl (LoaderPlanErr (InvalidVersion (lc_version c)))
      else Inr ())"

definition lc_new :: "LoaderKind \<Rightarrow> string \<Rightarrow> LoaderConfig result" where
  "lc_new kind version =
     (let value = \<lparr>lc_kind = kind, lc_version = version\<rparr>
      in res_bind (lc_validate value) (\<lambda>_. Inr value))"

lemma lc_new_Inr: "lc_new k v = Inr c \<longleftrightarrow> c = \<lparr>lc_kind = k, lc_version = v\<rparr> \<and> lc_validate c = Inr ()"
  by (auto simp: lc_new_def Let_def)

lemma loader_kind_roundtrip: "loader_kind_from_str (loader_kind_str k) = Inr k"
  by (cases k) (simp_all add: loader_kind_from_str_def loader_kind_str_def to_ascii_lowercase_def
      lower_byte_def is_ascii_uppercase_def byte_def)

end
