(* ===== verification/Trust.thy ===== *)
theory Trust
  imports AtomicJson Identifiers
begin

text \<open>
  \<^verbatim>\<open>trust/mod.rs\<close>: public keys, the local trust store with its revocations and rotations, and the
  verification of detached provider signatures.

  The cryptographic and serialisation crates (\<open>ed25519_dalek\<close>, \<open>sha2\<close>, \<open>base64\<close>, \<open>serde_json\<close>,
  \<open>serde_jcs\<close>) are the fields of the parameter record \<open>crypto\<close>.  The operations are first given
  on the trust document, then composed with loading and saving it.
\<close>

section \<open>Data\<close>

datatype SignatureAlgorithm = Ed25519

text \<open>The 32 bytes of a public key.\<close>

datatype PublicKey = PublicKey (pk_bytes: string)

record PublicKeyFile =
  kf_version :: u32
  kf_algorithm :: SignatureAlgorithm
  kf_public_key :: PublicKey
  kf_key_id :: KeyId
  kf_label :: "string option"

record TrustedKey =
  tk_id :: KeyId
  tk_algorithm :: SignatureAlgorithm
  tk_public_key :: PublicKey
  tk_label :: "string option"
  tk_revoked :: bool
  tk_added :: u64

record SignatureEnvelope =
  se_version :: u32
  se_algorithm :: string
  se_key_id :: KeyId
  se_signature :: string

datatype SignaturePolicy = PolicyRequired | PolicyOptional | PolicyDisabled

datatype SignatureStatus = Verified | Unsigned | StatusDisabled

record KeyTransitionPayload =
  tp_version :: u32
  tp_provider_id :: string
  tp_from_key_id :: KeyId
  tp_to_key :: PublicKeyFile
  tp_valid_from_revision :: u64

record KeyTransition =
  kt_payload :: KeyTransitionPayload
  kt_signature :: string

record StoredTransition =
  tr_provider_id :: string
  tr_from_key_id :: KeyId
  tr_to_key_id :: KeyId
  tr_valid_from_revision :: u64

record TrustDocument =
  td_format_version :: u32
  td_keys :: "(KeyId, TrustedKey) btree"
  td_transitions :: "StoredTransition list"

definition TRUST_STORE_FORMAT_VERSION :: u32 where "TRUST_STORE_FORMAT_VERSION = 1"
definition SIGNATURE_VERSION :: u32 where "SIGNATURE_VERSION = 1"
definition KEY_FILE_FORMAT_VERSION :: u32 where "KEY_FILE_FORMAT_VERSION = 1"
definition KEY_TRANSITION_VERSION :: u32 where "KEY_TRANSITION_VERSION = 1"

definition PROVIDER_DOMAIN :: string where
  "PROVIDER_DOMAIN = ''centralcore-provider-signature-v1'' @ [CHR 0x00]"

definition TRANSITION_DOMAIN :: string where
  "TRANSITION_DOMAIN = ''centralcore-key-transition-v1'' @ [CHR 0x00]"

definition trust_document_default :: TrustDocument where
  "trust_document_default =
     \<lparr>td_format_version = TRUST_STORE_FORMAT_VERSION, td_keys = [], td_transitions = []\<rparr>"

section \<open>Parameters\<close>

record crypto =
  cr_base64_decode :: "string \<Rightarrow> string option"
  cr_base64_encode :: "string \<Rightarrow> string"
  cr_sha256 :: "string \<Rightarrow> string"
  cr_valid_point :: "string \<Rightarrow> bool"
  cr_valid_signature :: "string \<Rightarrow> bool"
  cr_verify :: "string \<Rightarrow> string \<Rightarrow> string \<Rightarrow> bool"
  cr_canonical :: "string \<Rightarrow> string + string"
  cr_canonical_payload :: "KeyTransitionPayload \<Rightarrow> string + string"

section \<open>Keys\<close>

definition pk_key_id :: "crypto \<Rightarrow> PublicKey \<Rightarrow> KeyId" where
  "pk_key_id cr k = KeyId (''sha256:'' @ lower_hex (cr_sha256 cr (pk_bytes k)))"

definition pk_from_base64 :: "crypto \<Rightarrow> string \<Rightarrow> TrustError + PublicKey" where
  "pk_from_base64 cr value =
     res_bind (ok_or (cr_base64_decode cr value) (InvalidPublicKey ''public key is not valid base64'')) (\<lambda>bytes.
     res_bind (guard_err (length bytes \<noteq> 32) (InvalidPublicKey ''Ed25519 public key must be exactly 32 bytes'')) (\<lambda>_.
     res_bind (guard_err (\<not> cr_valid_point cr bytes) (InvalidPublicKey ''invalid Ed25519 public key'')) (\<lambda>_.
     Inr (PublicKey bytes))))"

definition pk_to_base64 :: "crypto \<Rightarrow> PublicKey \<Rightarrow> string" where
  "pk_to_base64 cr k = cr_base64_encode cr (pk_bytes k)"

definition kf_new :: "crypto \<Rightarrow> PublicKey \<Rightarrow> string option \<Rightarrow> PublicKeyFile" where
  "kf_new cr k label =
     \<lparr>kf_version = KEY_FILE_FORMAT_VERSION, kf_algorithm = Ed25519, kf_public_key = k,
      kf_key_id = pk_key_id cr k, kf_label = label\<rparr>"

definition kf_validate :: "crypto \<Rightarrow> PublicKeyFile \<Rightarrow> TrustError + unit" where
  "kf_validate cr f =
     (if kf_version f \<noteq> KEY_FILE_FORMAT_VERSION then Inl (UnsupportedKeyFormat (kf_version f))
      else if kf_key_id f \<noteq> pk_key_id cr (kf_public_key f) then Inl KeyIdMismatch
      else Inr ())"

definition se_ed25519 :: "crypto \<Rightarrow> KeyId \<Rightarrow> string \<Rightarrow> SignatureEnvelope" where
  "se_ed25519 cr key_id signature =
     \<lparr>se_version = SIGNATURE_VERSION, se_algorithm = ''ed25519'', se_key_id = key_id,
      se_signature = cr_base64_encode cr signature\<rparr>"

section \<open>Signatures\<close>

definition canonicalize_json :: "crypto \<Rightarrow> string \<Rightarrow> TrustError + string" where
  "canonicalize_json cr document = map_err Canonicalization (cr_canonical cr document)"

definition provider_signing_payload :: "crypto \<Rightarrow> string \<Rightarrow> TrustError + string" where
  "provider_signing_payload cr document =
     res_bind (canonicalize_json cr document) (\<lambda>c. Inr (PROVIDER_DOMAIN @ c))"

definition transition_signing_payload :: "crypto \<Rightarrow> KeyTransitionPayload \<Rightarrow> TrustError + string" where
  "transition_signing_payload cr payload =
     res_bind (map_err Canonicalization (cr_canonical_payload cr payload)) (\<lambda>c. Inr (TRANSITION_DOMAIN @ c))"

definition verify_signature :: "crypto \<Rightarrow> PublicKey \<Rightarrow> string \<Rightarrow> string \<Rightarrow> unit result" where
  "verify_signature cr k msg encoded =
     map_err Trust (
     res_bind (ok_or (cr_base64_decode cr encoded) SignatureInvalid) (\<lambda>bytes.
     res_bind (guard_err (\<not> cr_valid_signature cr bytes) SignatureInvalid) (\<lambda>_.
     res_bind (guard_err (\<not> cr_valid_point cr (pk_bytes k)) (InvalidPublicKey ''invalid Ed25519 point'')) (\<lambda>_.
     guard_err (\<not> cr_verify cr (pk_bytes k) msg bytes) SignatureInvalid))))"

definition validate_envelope :: "SignatureEnvelope \<Rightarrow> unit result" where
  "validate_envelope e =
     (if se_version e \<noteq> SIGNATURE_VERSION then Inl (Trust (UnsupportedSignatureVersion (se_version e)))
      else if se_algorithm e \<noteq> ''ed25519'' then Inl (Trust (UnsupportedSignatureAlgorithm (se_algorithm e)))
      else Inr ())"

section \<open>Operations on the trust document\<close>

definition trust_add_key :: "crypto \<Rightarrow> u64 \<Rightarrow> PublicKey \<Rightarrow> string option \<Rightarrow> TrustDocument \<Rightarrow> TrustedKey \<times> TrustDocument" where
  "trust_add_key cr now k label doc =
     (let key = \<lparr>tk_id = pk_key_id cr k, tk_algorithm = Ed25519, tk_public_key = k, tk_label = label,
                 tk_revoked = False, tk_added = now\<rparr>
      in (key, doc\<lparr>td_keys := bt_insert (pk_key_id cr k) key (td_keys doc)\<rparr>))"

definition trust_list :: "TrustDocument \<Rightarrow> TrustedKey list" where
  "trust_list doc = map snd (td_keys doc)"

definition trust_get :: "KeyId \<Rightarrow> TrustDocument \<Rightarrow> TrustedKey result" where
  "trust_get i doc =
     res_bind (ok_or (bt_get (td_keys doc) i) (Trust (UntrustedSigningKey i))) (\<lambda>key.
     if tk_revoked key then Inl (Trust (UntrustedSigningKey i)) else Inr key)"

definition trust_show :: "KeyId \<Rightarrow> TrustDocument \<Rightarrow> TrustedKey result" where
  "trust_show i doc = ok_or (bt_get (td_keys doc) i) (Trust (UntrustedSigningKey i))"

definition trust_remove :: "KeyId \<Rightarrow> TrustDocument \<Rightarrow> (TrustedKey \<times> TrustDocument) result" where
  "trust_remove i doc =
     res_bind (ok_or (bt_get (td_keys doc) i) (Trust (UntrustedSigningKey i))) (\<lambda>key.
     let key' = key\<lparr>tk_revoked := True\<rparr>
     in Inr (key', doc\<lparr>td_keys := bt_update i (\<lambda>_. key') (td_keys doc)\<rparr>))"

definition trusted_key :: "TrustDocument \<Rightarrow> KeyId \<Rightarrow> TrustedKey option" where
  "trusted_key doc i =
     (case bt_get (td_keys doc) i of None \<Rightarrow> None | Some k \<Rightarrow> if tk_revoked k then None else Some k)"

definition validate_transition :: "crypto \<Rightarrow> TrustDocument \<Rightarrow> KeyTransition \<Rightarrow> unit result" where
  "validate_transition cr doc transition =
     (let payload = kt_payload transition in
      if tp_version payload \<noteq> KEY_TRANSITION_VERSION
      then Inl (Trust (InvalidKeyTransition (''unsupported version '' @ show_nat (unat (tp_version payload)))))
      else if tp_provider_id payload = [] \<or> tp_valid_from_revision payload = 0
      then Inl (Trust (InvalidKeyTransition ''provider ID and non-zero starting revision are required''))
      else res_bind (map_err Trust (kf_validate cr (tp_to_key payload))) (\<lambda>_.
      if tp_from_key_id payload = kf_key_id (tp_to_key payload)
      then Inl (Trust (InvalidKeyTransition ''old and new keys are identical''))
      else res_bind (ok_or (trusted_key doc (tp_from_key_id payload))
               (Trust (UntrustedSigningKey (tp_from_key_id payload)))) (\<lambda>old.
      res_bind (map_err Trust (transition_signing_payload cr payload)) (\<lambda>msg.
      map_err (\<lambda>_. Trust (InvalidKeyTransition ''transition signature is invalid''))
        (verify_signature cr (tk_public_key old) msg (kt_signature transition))))))"

definition stored_transition :: "KeyTransitionPayload \<Rightarrow> StoredTransition" where
  "stored_transition payload =
     \<lparr>tr_provider_id = tp_provider_id payload, tr_from_key_id = tp_from_key_id payload,
      tr_to_key_id = kf_key_id (tp_to_key payload),
      tr_valid_from_revision = tp_valid_from_revision payload\<rparr>"

definition trust_apply_transition ::
    "crypto \<Rightarrow> u64 \<Rightarrow> KeyTransition \<Rightarrow> TrustDocument \<Rightarrow> (TrustedKey \<times> TrustDocument) result" where
  "trust_apply_transition cr now transition doc =
     res_bind (validate_transition cr doc transition) (\<lambda>_.
     let payload = kt_payload transition;
         i = kf_key_id (tp_to_key payload);
         key = \<lparr>tk_id = i, tk_algorithm = kf_algorithm (tp_to_key payload),
                tk_public_key = kf_public_key (tp_to_key payload), tk_label = kf_label (tp_to_key payload),
                tk_revoked = False, tk_added = now\<rparr>;
         stored = stored_transition payload;
         doc = doc\<lparr>td_keys := bt_insert i key (td_keys doc)\<rparr>;
         doc = (if list_ex (\<lambda>s. s = stored) (td_transitions doc) then doc
                else doc\<lparr>td_transitions := td_transitions doc @ [stored]\<rparr>)
     in Inr (key, doc))"

definition trust_authorize ::
    "KeyId \<Rightarrow> KeyId \<Rightarrow> string \<Rightarrow> u64 \<Rightarrow> TrustDocument \<Rightarrow> TrustedKey result" where
  "trust_authorize expected actual provider_id revision doc =
     res_bind (ok_or (trusted_key doc actual) (Trust (UntrustedSigningKey actual))) (\<lambda>key.
     if actual = expected then Inr key
     else if list_ex (\<lambda>s. tr_provider_id s = provider_id \<and> tr_from_key_id s = expected
               \<and> tr_to_key_id s = actual \<and> revision \<ge> tr_valid_from_revision s) (td_transitions doc)
     then Inr key
     else Inl (Trust (SigningKeyMismatch expected actual)))"

definition verify_provider ::
    "crypto \<Rightarrow> TrustDocument \<Rightarrow> string \<Rightarrow> SignatureEnvelope \<Rightarrow> KeyId \<Rightarrow> string \<Rightarrow> u64 \<Rightarrow> unit result" where
  "verify_provider cr doc document envelope expected provider_id revision =
     res_bind (validate_envelope envelope) (\<lambda>_.
     res_bind (trust_authorize expected (se_key_id envelope) provider_id revision doc) (\<lambda>key.
     res_bind (map_err Trust (provider_signing_payload cr document)) (\<lambda>msg.
     verify_signature cr (tk_public_key key) msg (se_signature envelope))))"

section \<open>The store on disk\<close>

text \<open>The JSON form of the document: \<open>from_slice\<close> and \<open>to_vec_pretty\<close>.\<close>

record 'doc codec =
  decode_json :: "string \<Rightarrow> string + 'doc"
  encode_json :: "'doc \<Rightarrow> string + string"

definition trust_io_error :: "Error \<Rightarrow> Error" where
  "trust_io_error e = Trust (TrustStoreError ''io'')"

definition ts_load :: "TrustDocument codec \<Rightarrow> path \<Rightarrow> TrustDocument io" where
  "ts_load js root =
     io_bind (io_catch (io_bind (fs_read (root @ [''trust.json''])) (\<lambda>bytes. io_return (Some bytes)))
                (\<lambda>e. if is_not_found e then io_return None else io_fail (trust_io_error e))) (\<lambda>found.
     case found of
       None \<Rightarrow> io_return trust_document_default
     | Some bytes \<Rightarrow>
         io_bind (io_lift (map_err (\<lambda>e. Trust (TrustStoreError e)) (decode_json js bytes))) (\<lambda>doc.
         if td_format_version doc \<noteq> TRUST_STORE_FORMAT_VERSION
         then io_fail (UnsupportedFormat ''trust store'' (td_format_version doc))
         else io_return doc))"

text \<open>\<open>TrustStore::save\<close>: the bytes are computed before the temporary file is written.\<close>

definition ts_save :: "TrustDocument codec \<Rightarrow> path \<Rightarrow> TrustDocument \<Rightarrow> unit io" where
  "ts_save js root doc =
     io_bind (io_map_err trust_io_error (fs_create_dir_all root)) (\<lambda>_.
     io_bind (io_lift (map_err (\<lambda>e. Trust (TrustStoreError e)) (encode_json js doc))) (\<lambda>bytes.
     io_map_err trust_io_error
       (write_remove_rename (root @ [''trust.json.tmp'']) (root @ [''trust.json'']) (Inr bytes))))"

text \<open>
  The public operations hold the store's mutex; every one loads the document, changes it and
  saves it before it reports.
\<close>

definition ts_update ::
    "TrustDocument codec \<Rightarrow> path \<Rightarrow> (TrustDocument \<Rightarrow> ('a \<times> TrustDocument) result) \<Rightarrow> 'a io" where
  "ts_update js root f =
     io_bind (ts_load js root) (\<lambda>doc.
     io_bind (io_lift (f doc)) (\<lambda>(x, doc').
     io_bind (ts_save js root doc') (\<lambda>_. io_return x)))"

definition ts_add_key :: "crypto \<Rightarrow> TrustDocument codec \<Rightarrow> path \<Rightarrow> u64 \<Rightarrow> PublicKey \<Rightarrow> string option \<Rightarrow> TrustedKey io" where
  "ts_add_key cr js root now k label =
     io_bind (ts_update js root (\<lambda>doc. Inr (trust_add_key cr now k label doc))) (\<lambda>key.
     io_bind (emit ''SigningKeyTrusted'' [key_str (tk_id key)]) (\<lambda>_. io_return key))"

definition ts_add_key_file :: "crypto \<Rightarrow> TrustDocument codec \<Rightarrow> path \<Rightarrow> u64 \<Rightarrow> PublicKeyFile \<Rightarrow> TrustedKey io" where
  "ts_add_key_file cr js root now f =
     io_bind (io_lift (map_err Trust (kf_validate cr f))) (\<lambda>_.
     ts_add_key cr js root now (kf_public_key f) (kf_label f))"

definition ts_remove :: "TrustDocument codec \<Rightarrow> path \<Rightarrow> KeyId \<Rightarrow> TrustedKey io" where
  "ts_remove js root i =
     io_bind (ts_update js root (trust_remove i)) (\<lambda>key.
     io_bind (emit ''SigningKeyRemoved'' [key_str i]) (\<lambda>_. io_return key))"

definition ts_apply_transition :: "crypto \<Rightarrow> TrustDocument codec \<Rightarrow> path \<Rightarrow> u64 \<Rightarrow> KeyTransition \<Rightarrow> TrustedKey io" where
  "ts_apply_transition cr js root now transition =
     io_bind (ts_update js root (trust_apply_transition cr now transition)) (\<lambda>key.
     io_bind (emit ''SigningKeyRotated'' [tp_provider_id (kt_payload transition),
        key_str (tp_from_key_id (kt_payload transition)), key_str (tk_id key)]) (\<lambda>_. io_return key))"

definition ts_query :: "TrustDocument codec \<Rightarrow> path \<Rightarrow> (TrustDocument \<Rightarrow> 'a result) \<Rightarrow> 'a io" where
  "ts_query js root f = io_bind (ts_load js root) (\<lambda>doc. io_lift (f doc))"

section \<open>Lemmas\<close>

text \<open>The keys are filed under their fingerprints.\<close>

definition td_wf :: "crypto \<Rightarrow> TrustDocument \<Rightarrow> bool" where
  "td_wf cr doc \<longleftrightarrow> bt_wf (td_keys doc) \<and>
     (\<forall>i k. bt_get (td_keys doc) i = Some k \<longrightarrow> tk_id k = i \<and> pk_key_id cr (tk_public_key k) = i)"

lemma trusted_key_Some: "trusted_key doc i = Some k \<longleftrightarrow> bt_get (td_keys doc) i = Some k \<and> \<not> tk_revoked k"
  by (auto simp: trusted_key_def split: option.splits if_splits)

lemma trust_get_Inr: "trust_get i doc = Inr k \<longleftrightarrow> trusted_key doc i = Some k"
  by (auto simp: trust_get_def trusted_key_Some split: if_splits)

lemma trust_authorize_Inr:
  "trust_authorize expected actual provider revision doc = Inr k \<longleftrightarrow>
     trusted_key doc actual = Some k \<and>
     (actual = expected \<or> (\<exists>s \<in> set (td_transitions doc). tr_provider_id s = provider \<and>
        tr_from_key_id s = expected \<and> tr_to_key_id s = actual \<and> tr_valid_from_revision s \<le> revision))"
  by (auto simp: trust_authorize_def list_ex_iff split: if_splits)

lemma verify_signature_Inr:
  "verify_signature cr k msg encoded = Inr u \<longleftrightarrow>
     (\<exists>bytes. cr_base64_decode cr encoded = Some bytes \<and> cr_valid_signature cr bytes \<and>
        cr_valid_point cr (pk_bytes k) \<and> cr_verify cr (pk_bytes k) msg bytes)"
  by (auto simp: verify_signature_def)

lemma validate_envelope_Inr:
  "validate_envelope e = Inr u \<longleftrightarrow> se_version e = SIGNATURE_VERSION \<and> se_algorithm e = ''ed25519''"
  by (auto simp: validate_envelope_def)

lemma kf_validate_Inr:
  "kf_validate cr f = Inr () \<longleftrightarrow> kf_version f = KEY_FILE_FORMAT_VERSION \<and> kf_key_id f = pk_key_id cr (kf_public_key f)"
  by (auto simp: kf_validate_def)

lemma validate_transition_Inr:
  "validate_transition cr doc t = Inr () \<longleftrightarrow>
     tp_version (kt_payload t) = KEY_TRANSITION_VERSION \<and> tp_provider_id (kt_payload t) \<noteq> [] \<and>
     tp_valid_from_revision (kt_payload t) \<noteq> 0 \<and> kf_validate cr (tp_to_key (kt_payload t)) = Inr () \<and>
     tp_from_key_id (kt_payload t) \<noteq> kf_key_id (tp_to_key (kt_payload t)) \<and>
     (\<exists>old msg. trusted_key doc (tp_from_key_id (kt_payload t)) = Some old \<and>
        transition_signing_payload cr (kt_payload t) = Inr msg \<and>
        verify_signature cr (tk_public_key old) msg (kt_signature t) = Inr ())"
  by (auto simp: validate_transition_def Let_def split: if_splits)

lemma trust_apply_transition_Inr:
  assumes "trust_apply_transition cr now t doc = Inr (key, doc')"
  shows "validate_transition cr doc t = Inr ()"
    "tk_id key = kf_key_id (tp_to_key (kt_payload t))" "tk_public_key key = kf_public_key (tp_to_key (kt_payload t))"
    "\<not> tk_revoked key"
    "td_keys doc' = bt_insert (tk_id key) key (td_keys doc)"
    "set (td_transitions doc') = insert (stored_transition (kt_payload t)) (set (td_transitions doc))"
  using assms by (auto simp: trust_apply_transition_def Let_def list_ex_iff split: if_splits)

lemma td_wf_default: "td_wf cr trust_document_default"
  by (simp add: td_wf_def trust_document_default_def)

lemma td_wf_add_key: "td_wf cr doc \<Longrightarrow> trust_add_key cr now k label doc = (key, doc') \<Longrightarrow> td_wf cr doc'"
  by (auto simp: td_wf_def trust_add_key_def Let_def bt_get_insert split: if_splits)

lemma td_wf_remove: "td_wf cr doc \<Longrightarrow> trust_remove i doc = Inr (key, doc') \<Longrightarrow> td_wf cr doc'"
  by (auto simp: td_wf_def trust_remove_def Let_def bt_get_update split: if_splits)

lemma td_wf_apply_transition:
  assumes "td_wf cr doc" "trust_apply_transition cr now t doc = Inr (key, doc')"
  shows "td_wf cr doc'"
  using assms(1) trust_apply_transition_Inr [OF assms(2)]
  by (auto simp: td_wf_def validate_transition_Inr kf_validate_Inr bt_get_insert split: if_splits)

text \<open>Signing payloads of different domains differ.\<close>

lemma domains_differ: "PROVIDER_DOMAIN @ a \<noteq> TRANSITION_DOMAIN @ b"
  by (simp add: PROVIDER_DOMAIN_def TRANSITION_DOMAIN_def)

section \<open>A sample store\<close>

text \<open>A trivial signature scheme: the signature of a message is the key followed by the message.\<close>

definition sample_crypto :: crypto where
  "sample_crypto =
     \<lparr>cr_base64_decode = Some, cr_base64_encode = (\<lambda>s. s), cr_sha256 = take 1,
      cr_valid_point = (\<lambda>_. True), cr_valid_signature = (\<lambda>_. True),
      cr_verify = (\<lambda>k m s. s = k @ m), cr_canonical = Inr, cr_canonical_payload = (\<lambda>p. Inr (tp_provider_id p))\<rparr>"

definition sample_key :: "char \<Rightarrow> PublicKey" where
  "sample_key c = PublicKey (replicate 32 c)"

definition sample_doc :: TrustDocument where
  "sample_doc = snd (trust_add_key sample_crypto 1 (sample_key CHR ''a'') None trust_document_default)"

definition sample_transition :: KeyTransition where
  "sample_transition =
     \<lparr>kt_payload = \<lparr>tp_version = 1, tp_provider_id = ''demo'', tp_from_key_id = pk_key_id sample_crypto (sample_key CHR ''a''),
        tp_to_key = kf_new sample_crypto (sample_key CHR ''b'') None, tp_valid_from_revision = 5\<rparr>,
      kt_signature = replicate 32 CHR ''a'' @ TRANSITION_DOMAIN @ ''demo''\<rparr>"

definition sample_envelope :: SignatureEnvelope where
  "sample_envelope = se_ed25519 sample_crypto (pk_key_id sample_crypto (sample_key CHR ''a''))
     (replicate 32 CHR ''a'' @ PROVIDER_DOMAIN @ ''doc'')"

definition sample_rotated :: "TrustedKey \<times> TrustDocument" where
  "sample_rotated = projr (trust_apply_transition sample_crypto 2 sample_transition sample_doc)"

lemma sample_rotated:
  "trust_apply_transition sample_crypto 2 sample_transition sample_doc = Inr (fst sample_rotated, snd sample_rotated)"
proof -
  have "is_ok (trust_apply_transition sample_crypto 2 sample_transition sample_doc)" by code_simp
  then show ?thesis by (auto simp: sample_rotated_def is_ok_iff)
qed

section \<open>Properties\<close>

text \<open>C1: a provider document is accepted exactly when the envelope has the supported version and
  algorithm, its key is in the store and not revoked, that key is the expected one or the target
  of a recorded rotation from the expected one for this provider whose starting revision has
  been reached, and the signature verifies over the domain-separated canonical document.\<close>

theorem verify_provider_iff:
  "verify_provider cr doc document e expected provider revision = Inr () \<longleftrightarrow>
     se_version e = SIGNATURE_VERSION \<and> se_algorithm e = ''ed25519'' \<and>
     (\<exists>k c sig. bt_get (td_keys doc) (se_key_id e) = Some k \<and> \<not> tk_revoked k \<and>
        (se_key_id e = expected \<or> (\<exists>s \<in> set (td_transitions doc). tr_provider_id s = provider \<and>
           tr_from_key_id s = expected \<and> tr_to_key_id s = se_key_id e \<and> tr_valid_from_revision s \<le> revision)) \<and>
        cr_canonical cr document = Inr c \<and> cr_base64_decode cr (se_signature e) = Some sig \<and>
        cr_valid_signature cr sig \<and> cr_valid_point cr (pk_bytes (tk_public_key k)) \<and>
        cr_verify cr (pk_bytes (tk_public_key k)) (PROVIDER_DOMAIN @ c) sig)"
  unfolding verify_provider_def res_bind_eq_Inr validate_envelope_Inr trust_authorize_Inr verify_signature_Inr
  by (auto simp: trusted_key_Some provider_signing_payload_def canonicalize_json_def validate_envelope_Inr)

theorem verify_provider_iff_witness:
  "verify_provider sample_crypto sample_doc ''doc'' sample_envelope
     (pk_key_id sample_crypto (sample_key CHR ''a'')) ''demo'' 1 = Inr () \<and>
   (\<exists>k. bt_get (td_keys sample_doc) (se_key_id sample_envelope) = Some k \<and> \<not> tk_revoked k)"
proof -
  have "verify_provider sample_crypto sample_doc ''doc'' sample_envelope
     (pk_key_id sample_crypto (sample_key CHR ''a'')) ''demo'' 1 = Inr ()" by code_simp
  then show ?thesis unfolding verify_provider_iff by blast
qed

text \<open>C8: a rotation is accepted only when the current key is trusted, not revoked and has signed
  the payload, and the new key's id is the fingerprint of its bytes; afterwards the new key
  is authorised in place of the old one exactly for that provider's revisions from the declared one on
  (unless an earlier rotation allowed it already), and no other key has changed.\<close>

theorem apply_transition_effect:
  assumes "td_wf cr doc" "trust_apply_transition cr now t doc = Inr (key, doc')"
  shows "(\<exists>old msg. bt_get (td_keys doc) (tp_from_key_id (kt_payload t)) = Some old \<and> \<not> tk_revoked old \<and>
       transition_signing_payload cr (kt_payload t) = Inr msg \<and>
       verify_signature cr (tk_public_key old) msg (kt_signature t) = Inr ()) \<and>
    td_wf cr doc' \<and> tk_id key = pk_key_id cr (tk_public_key key) \<and>
    (\<forall>i. i \<noteq> tk_id key \<longrightarrow> bt_get (td_keys doc') i = bt_get (td_keys doc) i) \<and>
    (\<forall>revision. trust_authorize (tp_from_key_id (kt_payload t)) (tk_id key) (tp_provider_id (kt_payload t)) revision doc' = Inr key
       \<longleftrightarrow> tp_valid_from_revision (kt_payload t) \<le> revision \<or>
         (\<exists>s \<in> set (td_transitions doc). tr_provider_id s = tp_provider_id (kt_payload t) \<and>
           tr_from_key_id s = tp_from_key_id (kt_payload t) \<and> tr_to_key_id s = tk_id key \<and>
           tr_valid_from_revision s \<le> revision))"
proof -
  note s = trust_apply_transition_Inr [OF assms(2)]
  have wf: "bt_wf (td_keys doc)" using assms(1) by (simp add: td_wf_def)
  have get: "trusted_key doc' (tk_id key) = Some key"
    using s(4) by (simp add: trusted_key_Some s(5) bt_get_insert [OF wf])
  have ne: "tk_id key \<noteq> tp_from_key_id (kt_payload t)" using s(1,2) by (auto simp: validate_transition_Inr)
  have auth: "trust_authorize (tp_from_key_id (kt_payload t)) (tk_id key) (tp_provider_id (kt_payload t)) revision doc' = Inr key
       \<longleftrightarrow> tp_valid_from_revision (kt_payload t) \<le> revision \<or>
         (\<exists>s \<in> set (td_transitions doc). tr_provider_id s = tp_provider_id (kt_payload t) \<and>
           tr_from_key_id s = tp_from_key_id (kt_payload t) \<and> tr_to_key_id s = tk_id key \<and>
           tr_valid_from_revision s \<le> revision)" for revision
    unfolding trust_authorize_Inr using get ne s(2) by (simp add: s(6) stored_transition_def)
  have "\<exists>old msg. bt_get (td_keys doc) (tp_from_key_id (kt_payload t)) = Some old \<and> \<not> tk_revoked old \<and>
       transition_signing_payload cr (kt_payload t) = Inr msg \<and>
       verify_signature cr (tk_public_key old) msg (kt_signature t) = Inr ()"
    using s(1) unfolding validate_transition_Inr trusted_key_Some by blast
  moreover have "tk_id key = pk_key_id cr (tk_public_key key)"
    using s(1-3) unfolding validate_transition_Inr kf_validate_Inr by simp
  moreover have "\<forall>i. i \<noteq> tk_id key \<longrightarrow> bt_get (td_keys doc') i = bt_get (td_keys doc) i"
    by (simp add: s(5) bt_get_insert [OF wf])
  ultimately show ?thesis using auth td_wf_apply_transition [OF assms] by blast
qed

theorem apply_transition_effect_witness:
  "trust_authorize (pk_key_id sample_crypto (sample_key CHR ''a'')) (tk_id (fst sample_rotated)) ''demo'' 5
     (snd sample_rotated) = Inr (fst sample_rotated)"
proof -
  have "td_wf sample_crypto sample_doc"
    unfolding sample_doc_def by (rule td_wf_add_key [OF td_wf_default]) (rule surjective_pairing)
  from apply_transition_effect [OF this sample_rotated]
  have "\<forall>revision. tp_valid_from_revision (kt_payload sample_transition) \<le> revision \<longrightarrow>
      trust_authorize (tp_from_key_id (kt_payload sample_transition)) (tk_id (fst sample_rotated))
        (tp_provider_id (kt_payload sample_transition)) revision (snd sample_rotated) = Inr (fst sample_rotated)"
    by blast
  then show ?thesis by (simp add: sample_transition_def)
qed

text \<open>No byte string is both a provider signing payload and a key-transition signing payload, so a
  signature for one purpose is never one for the other.\<close>

theorem signing_domains_disjoint:
  assumes "provider_signing_payload cr document = Inr m" "transition_signing_payload cr payload = Inr m'"
  shows "m \<noteq> m'"
  using assms domains_differ by (auto simp: provider_signing_payload_def transition_signing_payload_def)

text \<open>Removing a key revokes it for good as far as lookups go: the key stays recorded, but it is
  no longer returned, authorised, or able to sign a rotation.\<close>

theorem trust_remove_revokes:
  assumes "trust_remove i doc = Inr (key, doc')"
  shows "tk_revoked key \<and> trust_show i doc' = Inr key \<and>
    trust_get i doc' = Inl (Trust (UntrustedSigningKey i)) \<and>
    trust_authorize expected i provider revision doc' = Inl (Trust (UntrustedSigningKey i)) \<and>
    (tp_from_key_id (kt_payload t) = i \<longrightarrow> validate_transition cr doc' t \<noteq> Inr ())"
proof -
  have g: "bt_get (td_keys doc') i = Some key" and r: "tk_revoked key"
    using assms by (auto simp: trust_remove_def Let_def bt_get_update)
  then have n: "trusted_key doc' i = None" by (simp add: trusted_key_def)
  show ?thesis
    using g r n by (auto simp: trust_show_def trust_get_def trust_authorize_def validate_transition_Inr)
qed


definition sample_entry :: "string \<Rightarrow> char \<Rightarrow> bool \<Rightarrow> KeyId \<times> TrustedKey" where
  "sample_entry i c r = (KeyId i, \<lparr>tk_id = KeyId i, tk_algorithm = Ed25519, tk_public_key = sample_key c,
     tk_label = None, tk_revoked = r, tk_added = 1\<rparr>)"

definition sample_revoked :: TrustDocument where
  "sample_revoked = \<lparr>td_format_version = 1,
     td_keys = [sample_entry ''sha256:61'' CHR ''a'' False, sample_entry ''sha256:62'' CHR ''b'' True],
     td_transitions = []\<rparr>"

lemma sample_key_ids:
  "pk_key_id sample_crypto (sample_key CHR ''a'') = KeyId ''sha256:61''"
  "pk_key_id sample_crypto (sample_key CHR ''b'') = KeyId ''sha256:62''"
  by code_simp+

lemma td_wf_sample_revoked: "td_wf sample_crypto sample_revoked"
proof -
  have "bt_wf (td_keys sample_revoked)" by code_simp
  then show ?thesis
    by (auto simp: td_wf_def sample_revoked_def sample_entry_def bt_get_def sample_key_ids split: if_splits)
qed


text \<open>C9: saving the trust store is not crash safe: the run passes through a tree without
  \<open>trust.json\<close>, and a process that restarts from it loads the empty default document, in which
  neither trusted keys nor revocations are recorded.\<close>

theorem trust_save_crash_window:
  assumes "encode_json js doc = Inr new" "w_faults w = []"
    and "root \<noteq> []" "\<forall>q \<in> set (ancestors root). w_tree w q = Some DirNode"
    and "w_tree w (root @ [''trust.json'']) = Some (FileNode old)" "w_tree w (root @ [''trust.json.tmp'']) = None"
  shows "\<exists>w'. ts_save js root doc w = (Inr (), w') \<and>
    (\<exists>t \<in> set (w_crash w'). \<forall>v. w_tree v = t \<longrightarrow> w_faults v = [] \<longrightarrow>
       ts_load js root v = (Inr trust_document_default, v))"
proof -
  let ?d = "root @ [''trust.json'']" and ?m = "root @ [''trust.json.tmp'']"
  have dirs: "\<And>q. q \<in> set (ancestors root) \<Longrightarrow> w_tree w q = Some DirNode" using assms(4) by blast
  have mk: "fs_create_dir_all root w = (Inr (), set_tree (w_tree w) w)"
    using assms(2) create_dir_all_existing [OF assms(4)] by (simp add: fs_create_dir_all_def io_step_run)
  let ?w = "set_tree (w_tree w) w"
  have "root \<in> set (ancestors root)" using assms(3)
    by (auto simp: ancestors_def Suc_le_eq intro!: image_eqI [of _ _ "length root"])
  then have r: "is_dir (w_tree w) root" using dirs by (simp add: is_dir_def)
  have "\<exists>w'. write_remove_rename ?m ?d (Inr new) ?w = (Inr (), w') \<and> w_tree w' ?d = Some (FileNode new) \<and>
     (w_tree ?w)(?m \<mapsto> FileNode new, ?d := None) \<in> set (w_crash w')"
    using assms r by (intro write_remove_rename_run) (auto simp: set_tree_def is_dir_def is_root_def)
  then obtain w' where w': "write_remove_rename ?m ?d (Inr new) ?w = (Inr (), w')"
    "(w_tree w)(?m \<mapsto> FileNode new, ?d := None) \<in> set (w_crash w')" by (auto simp: set_tree_def)
  have "ts_save js root doc w = (Inr (), w')"
    using mk w'(1) assms(1) by (simp add: ts_save_def io_bind_def io_map_err_def)
  moreover have "ts_load js root v = (Inr trust_document_default, v)"
    if "w_tree v = (w_tree w)(?m \<mapsto> FileNode new, ?d := None)" "w_faults v = []" for v
  proof -
    have "w_tree v ?d = None" using that by simp
    then show ?thesis
      by (simp add: ts_load_def io_bind_def io_catch_def fs_read_def io_query_run that(2) is_not_found_def)
  qed
  ultimately show ?thesis using w'(2) by blast
qed

definition sample_codec :: "TrustDocument codec" where
  "sample_codec = \<lparr>decode_json = (\<lambda>s. if s = ''a'' then Inr sample_doc else Inr sample_revoked),
     encode_json = (\<lambda>d. if d = sample_doc then Inr ''a'' else Inr ''r'')\<rparr>"

definition sample_trust_world :: world where
  "sample_trust_world = \<lparr>w_tree = [[''trust''] \<mapsto> DirNode, [''trust'', ''trust.json''] \<mapsto> FileNode ''r''],
     w_faults = [], w_crash = [], w_locks = {}, w_events = [],
     w_net = [], w_sent = [], w_cancel = None\<rparr>"

theorem trust_save_crash_window_witness:
  "\<exists>w'. ts_save sample_codec [''trust''] sample_doc sample_trust_world = (Inr (), w') \<and>
    (\<exists>t \<in> set (w_crash w'). \<forall>v. w_tree v = t \<longrightarrow> w_faults v = [] \<longrightarrow>
       ts_load sample_codec [''trust''] v = (Inr trust_document_default, v))"
  by (rule trust_save_crash_window [where new = "''a''" and old = "''r''"])
    (simp_all add: sample_codec_def sample_trust_world_def ancestors_def)

end
