(* ===== verification/Instances.thy ===== *)
theory Instances
  imports Identifiers
begin

text \<open>
  The instance specification of \<^verbatim>\<open>instance/mod.rs\<close> with the Java settings of \<^verbatim>\<open>java/mod.rs\<close> and the
  mod declarations of \<^verbatim>\<open>mods/mod.rs\<close>: its builders and its validation.
\<close>

section \<open>Data\<close>

record ServerConfig =
  sc_host :: string
  sc_port :: u16

record InstanceAuthPolicy =
  ap_required :: bool
  ap_providers :: "string list"

record JavaInstanceConfig =
  ji_executable :: "path option"
  ji_minimum_memory_mib :: u32
  ji_maximum_memory_mib :: u32

definition java_instance_default :: JavaInstanceConfig where
  "java_instance_default =
     \<lparr>ji_executable = None, ji_minimum_memory_mib = 512, ji_maximum_memory_mib = 2048\<rparr>"

definition auth_policy_default :: InstanceAuthPolicy where
  "auth_policy_default = \<lparr>ap_required = False, ap_providers = []\<rparr>"

datatype ModSelection = ModRequired | ModOptional | ModDisabled

record ModConfig =
  mod_id :: string
  mod_name :: string
  mod_version :: string
  mod_url :: Url
  mod_hash :: "FileHash option"
  mod_selection :: ModSelection
  mod_description :: "string option"

definition mod_is_enabled :: "ModConfig \<Rightarrow> bool \<Rightarrow> bool" where
  "mod_is_enabled m optional_selected =
     (case mod_selection m of ModRequired \<Rightarrow> True | ModOptional \<Rightarrow> optional_selected | ModDisabled \<Rightarrow> False)"

record InstanceSpec =
  is_id :: InstanceId
  is_name :: string
  is_minecraft :: MinecraftConfig
  is_java :: JavaInstanceConfig
  is_loader :: "LoaderConfig option"
  is_mods :: "ModConfig list"
  is_server :: "ServerConfig option"
  is_authentication :: InstanceAuthPolicy
  is_metadata :: "(string, string) btree"

section \<open>Authentication policy\<close>

definition auth_provider_id_ok :: "string \<Rightarrow> bool" where
  "auth_provider_id_ok i =
     (i \<noteq> [] \<and> length i \<le> 64 \<and> is_ascii_alphanumeric (hd i)
      \<and> list_all (\<lambda>b. is_ascii_alphanumeric b \<or> b \<in> {CHR ''-'', CHR ''_'', CHR ''.'', CHR '':''}) i)"

fun validate_auth_ids :: "string set \<Rightarrow> string list \<Rightarrow> unit result" where
  "validate_auth_ids seen [] = Inr ()"
| "validate_auth_ids seen (i # is) =
     (if \<not> auth_provider_id_ok i \<or> i \<in> seen
      then Inl (InvalidConfig ''instance authentication policy contains an invalid provider id'')
      else validate_auth_ids (insert i seen) is)"

definition ap_validate :: "InstanceAuthPolicy \<Rightarrow> unit result" where
  "ap_validate p =
     (if ap_required p \<and> ap_providers p = []
      then Inl (InvalidConfig ''required instance authentication must list at least one provider'')
      else if length (ap_providers p) > 32
      then Inl (InvalidConfig ''instance authentication policy contains too many providers'')
      else validate_auth_ids {} (ap_providers p))"

definition ap_allows :: "InstanceAuthPolicy \<Rightarrow> string \<Rightarrow> bool" where
  "ap_allows p provider_id = (ap_providers p = [] \<or> list_ex (\<lambda>i. i = provider_id) (ap_providers p))"

section \<open>Specifications\<close>

definition is_validate :: "InstanceSpec \<Rightarrow> unit result" where
  "is_validate s =
     (if is_blank (is_name s) \<or> length (is_name s) > 128
      then Inl (InvalidConfig ''instance name must contain 1-128 characters'')
      else res_bind (mc_validate (is_minecraft s)) (\<lambda>_.
        if ji_minimum_memory_mib (is_java s) = 0
           \<or> ji_maximum_memory_mib (is_java s) < ji_minimum_memory_mib (is_java s)
        then Inl (InvalidConfig ''Java memory limits are inconsistent'')
        else res_bind (case is_loader s of None \<Rightarrow> Inr () | Some l \<Rightarrow> lc_validate l) (\<lambda>_.
             ap_validate (is_authentication s))))"

definition is_vanilla :: "string \<Rightarrow> string \<Rightarrow> string \<Rightarrow> InstanceSpec result" where
  "is_vanilla i name version =
     res_bind (iid_new i) (\<lambda>iid.
     res_bind (mc_new version) (\<lambda>mc.
       let spec = \<lparr>is_id = iid, is_name = name, is_minecraft = mc, is_java = java_instance_default,
                   is_loader = None, is_mods = [], is_server = None,
                   is_authentication = auth_policy_default, is_metadata = []\<rparr>
       in res_bind (is_validate spec) (\<lambda>_. Inr spec)))"

definition is_with_java :: "InstanceSpec \<Rightarrow> JavaInstanceConfig \<Rightarrow> InstanceSpec result" where
  "is_with_java s java =
     (let s' = s\<lparr>is_java := java\<rparr> in res_bind (is_validate s') (\<lambda>_. Inr s'))"

definition is_with_loader :: "InstanceSpec \<Rightarrow> LoaderConfig \<Rightarrow> InstanceSpec result" where
  "is_with_loader s l =
     (let s' = s\<lparr>is_loader := Some l\<rparr> in res_bind (is_validate s') (\<lambda>_. Inr s'))"

definition is_with_mods :: "InstanceSpec \<Rightarrow> ModConfig list \<Rightarrow> InstanceSpec" where
  "is_with_mods s ms = s\<lparr>is_mods := ms\<rparr>"

definition is_with_server :: "InstanceSpec \<Rightarrow> ServerConfig \<Rightarrow> InstanceSpec" where
  "is_with_server s server = s\<lparr>is_server := Some server\<rparr>"

definition is_with_authentication ::
    "InstanceSpec \<Rightarrow> InstanceAuthPolicy \<Rightarrow> InstanceSpec result" where
  "is_with_authentication s policy =
     res_bind (ap_validate policy) (\<lambda>_. Inr (s\<lparr>is_authentication := policy\<rparr>))"

definition is_insert_metadata :: "string \<Rightarrow> string \<Rightarrow> InstanceSpec \<Rightarrow> InstanceSpec" where
  "is_insert_metadata k v s = s\<lparr>is_metadata := bt_insert k v (is_metadata s)\<rparr>"

section \<open>Lemmas\<close>

text \<open>The specification invariant: the identifier is valid and \<open>validate\<close> succeeds.\<close>

definition is_wf :: "InstanceSpec \<Rightarrow> bool" where
  "is_wf s = (iid_valid (iid_str (is_id s)) \<and> is_validate s = Inr () \<and> bt_wf (is_metadata s))"

lemma validate_auth_ids_Inr:
  "validate_auth_ids S is = Inr u \<longleftrightarrow>
     (\<forall>i \<in> set is. auth_provider_id_ok i) \<and> distinct is \<and> S \<inter> set is = {}"
  by (induction S "is" rule: validate_auth_ids.induct) auto

lemma ap_validate_ok_iff:
  "ap_validate p = Inr () \<longleftrightarrow>
     (ap_required p \<longrightarrow> ap_providers p \<noteq> []) \<and> length (ap_providers p) \<le> 32
     \<and> (\<forall>i \<in> set (ap_providers p). auth_provider_id_ok i) \<and> distinct (ap_providers p)"
  by (auto simp: ap_validate_def validate_auth_ids_Inr)

lemma ap_allows_validated:
  "ap_validate p = Inr () \<Longrightarrow> ap_required p \<Longrightarrow> ap_allows p i \<longleftrightarrow> i \<in> set (ap_providers p)"
  by (auto simp: ap_allows_def list_ex_iff ap_validate_ok_iff)

lemma is_vanilla_wf: "is_vanilla i n v = Inr s \<Longrightarrow> is_wf s"
  using iid.new_Inr_valid by (auto simp: is_vanilla_def is_wf_def Let_def)

lemma is_builders_wf:
  assumes "is_wf s"
  shows "is_with_java s j = Inr s' \<Longrightarrow> is_wf s'"
    and "is_with_loader s l = Inr s' \<Longrightarrow> is_wf s'"
    and "is_wf (is_with_mods s ms)"
    and "is_wf (is_with_server s srv)"
    and "is_with_authentication s p = Inr s' \<Longrightarrow> is_wf s'"
    and "is_wf (is_insert_metadata k v s)"
  using assms
  by (auto simp: is_wf_def is_with_java_def is_with_loader_def is_with_mods_def is_with_server_def
      is_with_authentication_def is_insert_metadata_def is_validate_def Let_def split: if_splits)

end
