(* ===== verification/ProviderTypes.thy ===== *)
theory ProviderTypes
  imports Instances
begin

text \<open>
  The validated static-provider domain types of \<^verbatim>\<open>providers/manifest.rs\<close>, the local
  specification a declaration gives rise to, and the revision it records.
\<close>

datatype ProviderSource = LocalSource path | RemoteSource Url

datatype ProviderResource = LocalResource path path | RemoteResource Url

record ProviderFile =
  pf_id :: string
  pf_path :: SafeRelativePath
  pf_source :: ProviderResource
  pf_size :: u64
  pf_sha256 :: FileHash
  pf_required :: bool

datatype ComponentRequirement = Required | Optional

record ProviderComponent =
  pc_id :: ComponentId
  pc_name :: string
  pc_description :: "string option"
  pc_requirement :: ComponentRequirement
  pc_default_enabled :: bool
  pc_requires :: "ComponentId list"
  pc_conflicts :: "ComponentId list"
  pc_files :: "ProviderFile list"

record ProviderJavaMemory =
  jm_minimum_mb :: u32
  jm_recommended_mb :: u32
  jm_maximum_mb :: "u32 option"

record ProviderInstanceDefinition =
  pd_id :: InstanceId
  pd_name :: string
  pd_description :: "string option"
  pd_revision :: u64
  pd_minecraft_version :: string
  pd_loader :: "LoaderConfig option"
  pd_java_memory :: "ProviderJavaMemory option"
  pd_server :: "ServerConfig option"
  pd_authentication :: InstanceAuthPolicy
  pd_files :: "ProviderFile list"
  pd_components :: "ProviderComponent list"

text \<open>\<open>ProviderInstanceDefinition::local_spec\<close>.\<close>

definition local_spec ::
    "ProviderInstanceDefinition \<Rightarrow> string \<Rightarrow> ProviderInstanceId \<Rightarrow> InstanceSpec result" where
  "local_spec d local_id key =
     res_bind (is_vanilla local_id (pd_name d) (pd_minecraft_version d)) (\<lambda>spec.
     res_bind (case pd_loader d of None \<Rightarrow> Inr spec | Some l \<Rightarrow> is_with_loader spec l) (\<lambda>spec.
     res_bind (case pd_java_memory d of None \<Rightarrow> Inr spec
               | Some m \<Rightarrow> is_with_java spec \<lparr>ji_executable = None,
                     ji_minimum_memory_mib = jm_minimum_mb m,
                     ji_maximum_memory_mib = jm_recommended_mb m\<rparr>) (\<lambda>spec.
     let spec = (case pd_server d of None \<Rightarrow> spec | Some srv \<Rightarrow> is_with_server spec srv) in
     res_bind (is_with_authentication spec (pd_authentication d)) (\<lambda>spec.
     Inr (is_insert_metadata ''centralcore.provider_revision'' (show_nat (unat (pd_revision d)))
         (is_insert_metadata ''centralcore.provider_instance_id'' (iid_str (pi_instance_id key))
         (is_insert_metadata ''centralcore.provider_id'' (pid_str (pi_provider_id key)) spec)))))))"

lemma local_spec_steps:
  assumes "local_spec d i k = Inr s"
  obtains s1 s2 s3 s4 where "is_vanilla i (pd_name d) (pd_minecraft_version d) = Inr s1"
    and "(case pd_loader d of None \<Rightarrow> Inr s1 | Some l \<Rightarrow> is_with_loader s1 l) = Inr s2"
    and "(case pd_java_memory d of None \<Rightarrow> Inr s2
               | Some m \<Rightarrow> is_with_java s2 \<lparr>ji_executable = None,
                     ji_minimum_memory_mib = jm_minimum_mb m,
                     ji_maximum_memory_mib = jm_recommended_mb m\<rparr>) = Inr s3"
    and "is_with_authentication
           (case pd_server d of None \<Rightarrow> s3 | Some srv \<Rightarrow> is_with_server s3 srv)
           (pd_authentication d) = Inr s4"
    and "s = is_insert_metadata ''centralcore.provider_revision'' (show_nat (unat (pd_revision d)))
         (is_insert_metadata ''centralcore.provider_instance_id'' (iid_str (pi_instance_id k))
         (is_insert_metadata ''centralcore.provider_id'' (pid_str (pi_provider_id k)) s4))"
  using assms unfolding local_spec_def Let_def res_bind_eq_Inr by blast

lemma local_spec_final:
  assumes "local_spec d i k = Inr s"
  shows "\<exists>s4. is_wf s4 \<and>
    s = is_insert_metadata ''centralcore.provider_revision'' (show_nat (unat (pd_revision d)))
         (is_insert_metadata ''centralcore.provider_instance_id'' (iid_str (pi_instance_id k))
         (is_insert_metadata ''centralcore.provider_id'' (pid_str (pi_provider_id k)) s4))"
proof -
  from assms show ?thesis
  proof (rule local_spec_steps)
    fix s1 s2 s3 s4
    assume s1: "is_vanilla i (pd_name d) (pd_minecraft_version d) = Inr s1"
      and s2: "(case pd_loader d of None \<Rightarrow> Inr s1 | Some l \<Rightarrow> is_with_loader s1 l) = Inr s2"
      and s3: "(case pd_java_memory d of None \<Rightarrow> Inr s2
               | Some m \<Rightarrow> is_with_java s2 \<lparr>ji_executable = None,
                     ji_minimum_memory_mib = jm_minimum_mb m,
                     ji_maximum_memory_mib = jm_recommended_mb m\<rparr>) = Inr s3"
      and s4: "is_with_authentication
           (case pd_server d of None \<Rightarrow> s3 | Some srv \<Rightarrow> is_with_server s3 srv)
           (pd_authentication d) = Inr s4"
      and s: "s = is_insert_metadata ''centralcore.provider_revision'' (show_nat (unat (pd_revision d)))
         (is_insert_metadata ''centralcore.provider_instance_id'' (iid_str (pi_instance_id k))
         (is_insert_metadata ''centralcore.provider_id'' (pid_str (pi_provider_id k)) s4))"
    have "is_wf s1" using s1 by (rule is_vanilla_wf)
    then have "is_wf s2" using s2 by (auto split: option.splits intro: is_builders_wf(2))
    then have "is_wf s3" using s3 by (auto split: option.splits intro: is_builders_wf(1))
    then have "is_wf (case pd_server d of None \<Rightarrow> s3 | Some srv \<Rightarrow> is_with_server s3 srv)"
      by (auto split: option.splits intro: is_builders_wf(4))
    then have "is_wf s4" using s4 by (rule is_builders_wf(5))
    then show ?thesis using s by blast
  qed
qed

lemma local_spec_wf: "local_spec d i k = Inr s \<Longrightarrow> is_wf s"
  by (auto dest!: local_spec_final intro!: is_builders_wf(6))

text \<open>\<open>installed_revision\<close> of \<^verbatim>\<open>providers/service.rs\<close>, on the specification of an instance.\<close>

definition installed_revision :: "InstanceSpec \<Rightarrow> u64" where
  "installed_revision s =
     (case bt_get (is_metadata s) ''centralcore.provider_revision'' of
        None \<Rightarrow> 0
      | Some r \<Rightarrow> (case parse_unsigned 64 r of None \<Rightarrow> 0 | Some n \<Rightarrow> of_nat n))"

text \<open>The revision written by \<open>local_spec\<close> is the one \<open>installed_revision\<close> reads back.\<close>

lemma installed_revision_local_spec:
  assumes "local_spec d i k = Inr s"
  shows "installed_revision s = pd_revision d"
proof -
  from local_spec_final [OF assms] obtain s4 where wf4: "is_wf s4"
    and s: "s = is_insert_metadata ''centralcore.provider_revision'' (show_nat (unat (pd_revision d)))
         (is_insert_metadata ''centralcore.provider_instance_id'' (iid_str (pi_instance_id k))
         (is_insert_metadata ''centralcore.provider_id'' (pid_str (pi_provider_id k)) s4))"
    by blast
  from wf4 have wf0: "bt_wf (is_metadata s4)" by (simp add: is_wf_def)
  have "unat (pd_revision d) < 2 ^ 64"
    using unsigned_less [of "pd_revision d"] by simp
  then show ?thesis
    by (simp add: installed_revision_def s is_insert_metadata_def bt_get_insert wf0)
qed

end
