(* ===== verification/ComponentGraph.thy ===== *)
theory ComponentGraph
  imports Components
begin

text \<open>
  Correctness of the dependency validation and of the component resolution of
  \<^theory_text>\<open>Components\<close>: the queue algorithm accepts exactly the acyclic graphs without unknown
  references, and the worklist computes the reflexive transitive closure of \<open>requires\<close>.
\<close>

section \<open>The abstract dependency relation\<close>

text \<open>\<open>(x, y)\<close> when component \<open>x\<close> requires component \<open>y\<close>.\<close>

definition requires_rel :: "component_map \<Rightarrow> (ComponentId \<times> ComponentId) set" where
  "requires_rel by_id = {(x, y). \<exists>c. bt_get by_id x = Some c \<and> y \<in> set (pc_requires c)}"

definition refs_known :: "component_map \<Rightarrow> bool" where
  "refs_known by_id = (\<forall>(i, c) \<in> set by_id. \<forall>d \<in> set (pc_requires c). bt_contains by_id d)"

definition reqs :: "component_map \<Rightarrow> ComponentId \<Rightarrow> ComponentId list" where
  "reqs by_id x = (case bt_get by_id x of None \<Rightarrow> [] | Some c \<Rightarrow> pc_requires c)"

abbreviation ids :: "('k, 'v) btree \<Rightarrow> 'k set" where
  "ids m \<equiv> fst ` set m"

lemma requires_rel_reqs: "(x, y) \<in> requires_rel by_id \<longleftrightarrow> y \<in> set (reqs by_id x)"
  by (cases "bt_get by_id x") (simp_all add: requires_rel_def reqs_def)

lemma bt_get_ids: "(\<exists>v. bt_get m k = Some v) \<longleftrightarrow> k \<in> ids m"
  by (metis bt_contains_def bt_contains_iff not_None_eq)

lemma bt_get_Cons: "bt_get ((a, b) # m) k = (if k = a then Some b else bt_get m k)"
  by (simp add: bt_get_def)

lemma bt_get_not_ids: "k \<notin> ids m \<Longrightarrow> bt_get m k = None"
  by (metis bt_get_ids not_None_eq)

lemma requires_rel_closed:
  assumes "bt_wf by_id" "refs_known by_id"
  shows "requires_rel by_id \<subseteq> ids by_id \<times> ids by_id"
proof
  fix e assume "e \<in> requires_rel by_id"
  then obtain x y c where e: "e = (x, y)" "bt_get by_id x = Some c" "y \<in> set (pc_requires c)"
    by (auto simp: requires_rel_def)
  then have "(x, c) \<in> set by_id" by (simp add: bt_get_in_set)
  moreover from this e assms(2) have "bt_contains by_id y" by (auto simp: refs_known_def)
  ultimately show "e \<in> ids by_id \<times> ids by_id" using e by (force simp: bt_contains_iff)
qed

lemma finite_requires_rel: "bt_wf by_id \<Longrightarrow> refs_known by_id \<Longrightarrow> finite (requires_rel by_id)"
  using requires_rel_closed finite_subset by blast

section \<open>Building the graph\<close>

definition deps_of :: "dependents_map \<Rightarrow> ComponentId \<Rightarrow> ComponentId list" where
  "deps_of dependents d = (case bt_get dependents d of None \<Rightarrow> [] | Some l \<Rightarrow> l)"

lemma add_dependencies_ok:
  "bt_wf dependents \<Longrightarrow> \<forall>d \<in> set ds. bt_contains by_id d \<Longrightarrow>
   \<exists>dependents'. add_dependencies by_id i ds dependents = Inr dependents' \<and> bt_wf dependents' \<and>
     (\<forall>d. deps_of dependents' d = deps_of dependents d @ replicate (count_list ds d) i)"
proof (induction by_id i ds dependents rule: add_dependencies.induct)
  case (2 by_id i d ds dependents)
  let ?dep = "bt_insert d (deps_of dependents d @ [i]) dependents"
  have get: "deps_of ?dep x = (if x = d then deps_of dependents d @ [i] else deps_of dependents x)" for x
    using 2(2) by (simp add: deps_of_def bt_get_insert)
  have eq: "add_dependencies by_id i (d # ds) dependents = add_dependencies by_id i ds ?dep"
    using 2(3) by (simp add: Let_def deps_of_def)
  have "\<exists>dependents'. add_dependencies by_id i ds ?dep = Inr dependents' \<and> bt_wf dependents' \<and>
     (\<forall>x. deps_of dependents' x = deps_of ?dep x @ replicate (count_list ds x) i)"
    using 2 by (simp add: deps_of_def)
  then show ?case unfolding eq get by auto
qed simp

lemma add_dependencies_err:
  "\<exists>d \<in> set ds. \<not> bt_contains by_id d \<Longrightarrow>
   \<exists>d \<in> set ds. \<not> bt_contains by_id d \<and>
     add_dependencies by_id i ds dependents = Inl (StaticProvider (InvalidComponentReference (cid_str i) (cid_str d)))"
  by (induction by_id i ds dependents rule: add_dependencies.induct) (auto simp: Let_def)

lemma build_graph_ok:
  assumes "bt_wf counts" "bt_wf dependents" "distinct (map fst todo)"
    and "\<forall>(i, c) \<in> set todo. \<forall>d \<in> set (pc_requires c). bt_contains by_id d"
  shows "\<exists>counts' dependents'. build_graph by_id todo counts dependents = Inr (counts', dependents') \<and>
     bt_wf counts' \<and>
     (\<forall>x. bt_get counts' x = (case bt_get todo x of Some c \<Rightarrow> Some (length (pc_requires c)) | None \<Rightarrow> bt_get counts x)) \<and>
     (\<forall>d. deps_of dependents' d =
        deps_of dependents d @ concat (map (\<lambda>(i, c). replicate (count_list (pc_requires c) d) i) todo))"
  using assms
proof (induction by_id todo counts dependents rule: build_graph.induct)
  case (2 by_id i c rest counts dependents)
  from add_dependencies_ok [OF 2(3), of "pc_requires c" by_id i] 2(5)
  obtain dep where dep: "add_dependencies by_id i (pc_requires c) dependents = Inr dep" "bt_wf dep"
    "\<forall>d. deps_of dep d = deps_of dependents d @ replicate (count_list (pc_requires c) d) i" by auto
  define cnt where "cnt = bt_insert i (length (pc_requires c)) counts"
  have "bt_wf cnt" using 2(2) by (simp add: cnt_def)
  from 2(1) [folded cnt_def, OF this dep(2)] 2(4,5)
  obtain counts' dependents' where *: "build_graph by_id rest cnt dep = Inr (counts', dependents')" "bt_wf counts'"
     "\<forall>x. bt_get counts' x = (case bt_get rest x of Some c \<Rightarrow> Some (length (pc_requires c)) | None \<Rightarrow> bt_get cnt x)"
     "\<forall>d. deps_of dependents' d =
        deps_of dep d @ concat (map (\<lambda>(i, c). replicate (count_list (pc_requires c) d) i) rest)"
    by auto
  have "bt_get rest i = None" using 2(4) by (simp add: bt_get_not_ids)
  then have "bt_get counts' x = (case bt_get ((i, c) # rest) x of Some c \<Rightarrow> Some (length (pc_requires c)) | None \<Rightarrow> bt_get counts x)" for x
    using *(3) bt_get_insert [OF 2(2)] by (cases "x = i") (simp_all add: cnt_def bt_get_Cons split: option.split)
  with * dep show ?case by (simp add: cnt_def)
qed simp

lemma build_graph_err:
  "\<exists>(i, c) \<in> set todo. \<exists>d \<in> set (pc_requires c). \<not> bt_contains by_id d \<Longrightarrow>
   bt_wf dependents \<Longrightarrow>
   \<exists>(i, c) \<in> set todo. \<exists>d \<in> set (pc_requires c). \<not> bt_contains by_id d \<and>
     build_graph by_id todo counts dependents
       = Inl (StaticProvider (InvalidComponentReference (cid_str i) (cid_str d)))"
proof (induction by_id todo counts dependents rule: build_graph.induct)
  case (2 by_id i c rest counts dependents)
  show ?case
  proof (cases "\<exists>d \<in> set (pc_requires c). \<not> bt_contains by_id d")
    case True
    from add_dependencies_err [OF this, of i dependents] show ?thesis by auto
  next
    case False
    with add_dependencies_ok [OF 2(3), of "pc_requires c" by_id i]
    obtain dep where "add_dependencies by_id i (pc_requires c) dependents = Inr dep" "bt_wf dep" by auto
    with 2(1) [of dep] 2(2) False show ?thesis by auto
  qed
qed simp

lemma count_list_replicate: "count_list (replicate n x) y = (if x = y then n else 0)"
  by (induction n) auto

lemma count_list_concat: "count_list (concat xss) y = sum_list (map (\<lambda>xs. count_list xs y) xss)"
  by (induction xss) auto

lemma count_dependents:
  "distinct (map fst m) \<Longrightarrow>
   count_list (concat (map (\<lambda>(i, c). replicate (count_list (pc_requires c) d) i) m)) x =
   count_list (reqs m x) d"
proof (induction m)
  case (Cons e m)
  obtain i c where e: "e = (i, c)" by (cases e)
  have "x = i \<Longrightarrow> reqs m x = []" using Cons.prems by (simp add: reqs_def e bt_get_not_ids)
  moreover have "reqs (e # m) x = (if x = i then pc_requires c else reqs m x)"
    by (simp add: e reqs_def bt_get_Cons)
  ultimately show ?case using Cons by (simp add: e count_list_replicate)
qed (simp add: reqs_def)

section \<open>The queue\<close>

text \<open>Dependencies of \<open>x\<close> outside \<open>P\<close>, with multiplicity: what the count of \<open>x\<close> stands for.\<close>

definition open_reqs :: "component_map \<Rightarrow> ComponentId set \<Rightarrow> ComponentId \<Rightarrow> nat" where
  "open_reqs by_id P x = length (filter (\<lambda>d. d \<notin> P) (reqs by_id x))"

lemma open_reqs_insert:
  "i \<notin> P \<Longrightarrow> open_reqs by_id P x = open_reqs by_id (insert i P) x + count_list (reqs by_id x) i"
proof -
  assume "i \<notin> P"
  then have "length (filter (\<lambda>d. d \<notin> P) l) = length (filter (\<lambda>d. d \<notin> insert i P) l) + count_list l i" for l
    by (induction l) auto
  then show ?thesis by (simp add: open_reqs_def)
qed

lemma open_reqs_0: "open_reqs by_id P x = 0 \<longleftrightarrow> set (reqs by_id x) \<subseteq> P"
  by (auto simp: open_reqs_def filter_empty_conv)

text \<open>
  The state of the queue while the dependents \<open>ds\<close> of the component being processed are
  still to be released: \<open>P\<close> are the processed components, this one included.
\<close>

definition queue_inv ::
    "component_map \<Rightarrow> ComponentId set \<Rightarrow> ComponentId list \<Rightarrow> count_map \<Rightarrow> ComponentId list \<Rightarrow> bool" where
  "queue_inv by_id P ds counts ready \<longleftrightarrow>
     (\<forall>x. bt_get counts x = (if x \<in> ids by_id then Some (open_reqs by_id P x + count_list ds x) else None)) \<and>
     distinct ready \<and> P \<inter> set ready = {} \<and>
     (\<forall>x. x \<in> P \<union> set ready \<longleftrightarrow> x \<in> ids by_id \<and> open_reqs by_id P x + count_list ds x = 0)"

lemma release_dependents_ok:
  "queue_inv by_id P ds counts ready \<Longrightarrow> set ds \<subseteq> ids by_id \<Longrightarrow>
   \<exists>counts' ready'. release_dependents i ds counts ready = Inr (counts', ready') \<and>
     queue_inv by_id P [] counts' ready'"
proof (induction i ds counts ready rule: release_dependents.induct)
  case (2 i d ds counts ready)
  let ?n = "open_reqs by_id P d + count_list ds d"
  let ?counts = "bt_update d (\<lambda>n. n - 1) counts"
  let ?ready = "if ?n = 0 then ready @ [d] else ready"
  from 2(2,3) have get: "bt_get counts d = Some (Suc ?n)" by (simp add: queue_inv_def)
  have inv: "queue_inv by_id P ds ?counts ?ready"
    unfolding queue_inv_def
  proof (intro conjI allI)
    fix x
    show "bt_get ?counts x = (if x \<in> ids by_id then Some (open_reqs by_id P x + count_list ds x) else None)"
      using 2(2) get by (auto simp: queue_inv_def bt_get_update)
    have "d \<notin> P \<union> set ready" using 2(2) by (auto simp: queue_inv_def)
    then show "distinct ?ready" "P \<inter> set ?ready = {}" using 2(2) by (auto simp: queue_inv_def)
    show "x \<in> P \<union> set ?ready \<longleftrightarrow> x \<in> ids by_id \<and> open_reqs by_id P x + count_list ds x = 0"
      using 2(2,3) by (cases "x = d") (auto simp: queue_inv_def)
  qed
  have "set ds \<subseteq> ids by_id" using 2(3) by simp
  from 2(1) [OF get _ _ this] inv get show ?case by (simp split del: if_split)
qed auto

text \<open>The processed components in order: each one after the components it requires.\<close>

definition topological :: "component_map \<Rightarrow> ComponentId list \<Rightarrow> bool" where
  "topological by_id ps \<longleftrightarrow> distinct ps \<and> set ps \<subseteq> ids by_id \<and>
     (\<forall>n < length ps. set (reqs by_id (ps ! n)) \<subseteq> set (take n ps))"

lemma topological_snoc:
  assumes "topological by_id ps" "i \<notin> set ps" "i \<in> ids by_id" "set (reqs by_id i) \<subseteq> set ps"
  shows "topological by_id (ps @ [i])"
  using assms by (auto simp: topological_def nth_append less_Suc_eq)

lemma kahn_ok:
  assumes "queue_inv by_id (set ps) [] counts ready" "topological by_id ps"
    and "\<forall>d x. count_list (deps_of dependents d) x = count_list (reqs by_id x) d"
  shows "\<exists>ps' counts'. kahn dependents ready counts (length ps) = Inr (counts', length ps') \<and>
     topological by_id ps' \<and> queue_inv by_id (set ps') [] counts' []"
  using assms
proof (induction dependents ready counts "length ps" arbitrary: ps rule: kahn.induct)
  case (2 dependents i ready counts)
  have i: "i \<in> ids by_id" "i \<notin> set ps" "set (reqs by_id i) \<subseteq> set ps" "distinct (i # ready)"
    using 2(2) by (auto simp: queue_inv_def open_reqs_0)
  have cnt: "open_reqs by_id (set ps) x = open_reqs by_id (set (ps @ [i])) x + count_list (deps_of dependents i) x" for x
    using open_reqs_insert [OF i(2), of by_id x] 2(4) by simp
  have q: "queue_inv by_id (set (ps @ [i])) (deps_of dependents i) counts ready"
    using 2(2) i unfolding queue_inv_def by (auto simp: cnt [simplified])
  have "set (deps_of dependents i) \<subseteq> ids by_id"
  proof
    fix x assume "x \<in> set (deps_of dependents i)"
    then have "count_list (reqs by_id x) i \<noteq> 0" using 2(4) by (metis count_list_0_iff)
    then show "x \<in> ids by_id" by (metis bt_get_not_ids count_list.simps(1) option.simps(4) reqs_def)
  qed
  from release_dependents_ok [OF q this, of i] obtain counts' ready'
    where r: "release_dependents i (deps_of dependents i) counts ready = Inr (counts', ready')"
      and q': "queue_inv by_id (set (ps @ [i])) [] counts' ready'" by blast
  from 2(1) [OF r [unfolded deps_of_def] refl _ q' topological_snoc [OF 2(3) i(2,1,3)] 2(4)] r
  show ?case by (simp add: deps_of_def)
qed auto

lemma release_dependents_keys:
  "release_dependents i ds counts ready = Inr (counts', ready') \<Longrightarrow> map fst counts' = map fst counts"
  by (induction i ds counts ready rule: release_dependents.induct) (auto split: option.splits if_splits)

lemma kahn_keys: "kahn dependents ready counts n = Inr (counts', n') \<Longrightarrow> map fst counts' = map fst counts"
  by (induction dependents ready counts n rule: kahn.induct)
    (auto split: sum.splits dest: release_dependents_keys)

text \<open>What the validation does when no reference is unknown.\<close>

lemma validate_run:
  assumes wf: "bt_wf by_id" and known: "refs_known by_id"
  shows "\<exists>ps counts'. topological by_id ps \<and> queue_inv by_id (set ps) [] counts' [] \<and> bt_wf counts' \<and>
    validate_dependency_graph by_id =
      (if length ps \<noteq> length by_id
       then Inl (StaticProvider (ComponentDependencyCycle
              (map (\<lambda>e. cid_str (fst e)) (filter (\<lambda>e. snd e > 0) counts'))))
       else Inr ())"
proof -
  have dist: "distinct (map fst by_id)" using wf by (simp add: bt_wf_def strict_sorted_iff)
  from build_graph_ok [of "[]" "[]" by_id by_id] known dist
  obtain counts dependents where g: "build_graph by_id by_id [] [] = Inr (counts, dependents)"
    "bt_wf counts"
    "\<And>x. bt_get counts x = (case bt_get by_id x of Some c \<Rightarrow> Some (length (pc_requires c)) | None \<Rightarrow> bt_get [] x)"
    "\<And>d. deps_of dependents d = concat (map (\<lambda>(i, c). replicate (count_list (pc_requires c) d) i) by_id)"
    by (auto simp: refs_known_def deps_of_def)
  let ?ready = "map fst (filter (\<lambda>e. snd e = 0) counts)"
  have sym: "count_list (deps_of dependents d) x = count_list (reqs by_id x) d" for d x
    unfolding g(4) by (rule count_dependents [OF dist])
  have get: "bt_get counts x = (if x \<in> ids by_id then Some (open_reqs by_id {} x) else None)" for x
    using bt_get_ids [of by_id x] bt_get_not_ids [of x by_id]
    by (auto simp: g(3) open_reqs_def reqs_def)
  have mem: "(x, n) \<in> set counts \<longleftrightarrow> bt_get counts x = Some n" for x n
    using bt.get_entries [OF g(2)] by blast
  have "distinct (map fst counts)" using g(2) by (simp add: bt_wf_def strict_sorted_iff)
  then have "distinct ?ready" by (rule distinct_map_filter)
  moreover have "x \<in> set ?ready \<longleftrightarrow> x \<in> ids by_id \<and> open_reqs by_id {} x = 0" for x
    using mem [of x 0] by (force simp: get split: if_splits)
  ultimately have "queue_inv by_id (set []) [] counts ?ready"
    unfolding queue_inv_def by (simp add: get)
  from kahn_ok [OF this _ allI [OF allI [OF sym]]]
  obtain ps counts' where k: "kahn dependents ?ready counts 0 = Inr (counts', length ps)"
    "topological by_id ps" "queue_inv by_id (set ps) [] counts' []" by (auto simp: topological_def)
  moreover have "bt_wf counts'" using kahn_keys [OF k(1)] g(2) by (simp add: bt_wf_def)
  ultimately show ?thesis by (auto simp: validate_dependency_graph_def g(1))
qed

section \<open>Acyclicity\<close>

lemma topological_rank:
  assumes "topological by_id ps"
  shows "\<exists>f :: ComponentId \<Rightarrow> nat. \<forall>x \<in> set ps. \<forall>y \<in> set (reqs by_id x). y \<in> set ps \<and> f y < f x"
proof -
  have pos: "\<forall>x \<in> set ps. \<exists>n < length ps. ps ! n = x" by (auto simp: in_set_conv_nth)
  then obtain f where f: "\<And>x. x \<in> set ps \<Longrightarrow> f x < length ps \<and> ps ! f x = x" by metis
  have "y \<in> set ps \<and> f y < f x" if xy: "x \<in> set ps" "y \<in> set (reqs by_id x)" for x y
  proof -
    have "y \<in> set (take (f x) ps)" using assms f [OF xy(1)] xy(2) by (force simp: topological_def)
    then obtain m where m: "m < f x" "m < length ps" "ps ! m = y" by (auto simp: in_set_conv_nth)
    then have "y \<in> set ps" by auto
    moreover from this have "f y = m"
      using f m assms nth_eq_iff_index_eq unfolding topological_def by blast
    ultimately show ?thesis using m by simp
  qed
  then show ?thesis by blast
qed

text \<open>No component of a topological order reaches a cycle.\<close>

lemma topological_no_cycle:
  assumes "topological by_id ps" "x \<in> set ps" "(x, y) \<in> (requires_rel by_id)\<^sup>*"
  shows "y \<in> set ps \<and> (y, y) \<notin> (requires_rel by_id)\<^sup>+"
proof -
  from topological_rank [OF assms(1)] obtain f :: "ComponentId \<Rightarrow> nat"
    where f: "\<And>x y. x \<in> set ps \<Longrightarrow> (x, y) \<in> requires_rel by_id \<Longrightarrow> y \<in> set ps \<and> f y < f x"
    by (auto simp: requires_rel_reqs)
  have y: "y \<in> set ps" using assms(3,2) by (induction rule: rtrancl_induct) (auto dest: f)
  have "y \<in> set ps \<Longrightarrow> (y, z) \<in> (requires_rel by_id)\<^sup>+ \<Longrightarrow> z \<in> set ps \<and> f z < f y" for z
    by (erule trancl_induct) (auto dest: f)
  with y show ?thesis by blast
qed

text \<open>A finite set in which every element has a successor leads from each element to a cycle.\<close>

lemma finite_successors_cycle:
  assumes fin: "finite N" and succ: "\<And>x. x \<in> N \<Longrightarrow> \<exists>y \<in> N. (x, y) \<in> r" and x: "x \<in> N"
  shows "\<exists>y. (x, y) \<in> r\<^sup>* \<and> (y, y) \<in> r\<^sup>+"
proof (rule ccontr)
  assume no: "\<not> ?thesis"
  define M where "M = {y \<in> N. (x, y) \<in> r\<^sup>*}"
  have "acyclic (r \<inter> M \<times> M)"
  proof (rule acyclicI, rule allI, rule notI)
    fix z assume z: "(z, z) \<in> (r \<inter> M \<times> M)\<^sup>+"
    then have "(z, z) \<in> r\<^sup>+" by (rule trancl_mono_subset [THEN subsetD, rotated]) auto
    moreover from z have "z \<in> M" by (meson IntD2 SigmaD1 tranclD)
    ultimately show False using no by (auto simp: M_def)
  qed
  moreover have "finite (r \<inter> M \<times> M)" using fin by (auto simp: M_def intro: finite_subset [of _ "N \<times> N"])
  ultimately have wf: "wf ((r \<inter> M \<times> M)\<inverse>)" by (rule finite_acyclic_wf_converse [rotated])
  have "x \<in> M" using x by (simp add: M_def)
  from wfE_min [OF wf this] obtain z where z: "z \<in> M" "\<And>y. (y, z) \<in> (r \<inter> M \<times> M)\<inverse> \<Longrightarrow> y \<notin> M" by metis
  then obtain y where "y \<in> N" "(z, y) \<in> r" using succ unfolding M_def by blast
  moreover from this z(1) have "y \<in> M" by (auto simp: M_def intro: rtrancl_into_rtrancl)
  ultimately show False using z by blast
qed

text \<open>The components that were not processed each require another one that was not.\<close>

lemma queue_rest:
  assumes wf: "bt_wf by_id" and known: "refs_known by_id" and q: "queue_inv by_id P [] counts []"
  shows "P \<subseteq> ids by_id" "finite (ids by_id - P)"
    "x \<in> ids by_id - P \<Longrightarrow> \<exists>y \<in> ids by_id - P. (x, y) \<in> requires_rel by_id"
proof -
  show "P \<subseteq> ids by_id" "finite (ids by_id - P)" using q by (auto simp: queue_inv_def)
  assume x: "x \<in> ids by_id - P"
  with q have "open_reqs by_id P x \<noteq> 0" by (auto simp: queue_inv_def)
  then obtain y where "(x, y) \<in> requires_rel by_id" "y \<notin> P"
    by (auto simp: open_reqs_0 requires_rel_reqs)
  then show "\<exists>y \<in> ids by_id - P. (x, y) \<in> requires_rel by_id"
    using requires_rel_closed [OF wf known] by blast
qed

definition on_cycle_path :: "component_map \<Rightarrow> ComponentId \<Rightarrow> bool" where
  "on_cycle_path by_id x \<longleftrightarrow>
     (\<exists>y. (x, y) \<in> (requires_rel by_id)\<^sup>* \<and> (y, y) \<in> (requires_rel by_id)\<^sup>+)"

lemma rest_on_cycle_path:
  assumes wf: "bt_wf by_id" and known: "refs_known by_id"
    and t: "topological by_id ps" and q: "queue_inv by_id (set ps) [] counts []"
  shows "x \<in> ids by_id - set ps \<longleftrightarrow> on_cycle_path by_id x"
proof
  assume x: "x \<in> ids by_id - set ps"
  show "on_cycle_path by_id x"
    unfolding on_cycle_path_def
    using finite_successors_cycle [OF queue_rest(2) [OF wf known q] queue_rest(3) [OF wf known q] x] by blast
next
  assume cyc: "on_cycle_path by_id x"
  then obtain y where y: "(x, y) \<in> (requires_rel by_id)\<^sup>*" "(y, y) \<in> (requires_rel by_id)\<^sup>+"
    by (auto simp: on_cycle_path_def)
  then have "x \<notin> set ps" using topological_no_cycle [OF t] by blast
  moreover have "x \<in> Domain (requires_rel by_id)"
    using y by (metis Domain.DomainI converse_rtranclE tranclD)
  ultimately show "x \<in> ids by_id - set ps" using requires_rel_closed [OF wf known] by blast
qed

lemma no_cycle_path_iff: "(\<forall>x. \<not> on_cycle_path by_id x) \<longleftrightarrow> acyclic (requires_rel by_id)"
  by (auto simp: on_cycle_path_def acyclic_def)

lemma topological_all_iff:
  assumes wf: "bt_wf by_id" and t: "topological by_id ps"
  shows "length ps = length by_id \<longleftrightarrow> ids by_id \<subseteq> set ps"
proof -
  have "length by_id = card (ids by_id)"
    using wf distinct_card [of "map fst by_id"] by (simp add: bt_wf_def strict_sorted_iff)
  moreover have "length ps = card (set ps)" "set ps \<subseteq> ids by_id"
    using t distinct_card [of ps] by (auto simp: topological_def)
  ultimately show ?thesis by (metis List.finite_set card_subset_eq finite_imageI order.refl subset_antisym)
qed

text \<open>The three outcomes of the validation.\<close>

lemma validate_ok_iff:
  assumes wf: "bt_wf by_id" and known: "refs_known by_id"
  shows "validate_dependency_graph by_id = Inr () \<longleftrightarrow> acyclic (requires_rel by_id)"
proof -
  from validate_run [OF wf known] obtain ps counts' where t: "topological by_id ps"
    and q: "queue_inv by_id (set ps) [] counts' []"
    and v: "validate_dependency_graph by_id =
      (if length ps \<noteq> length by_id
       then Inl (StaticProvider (ComponentDependencyCycle
              (map (\<lambda>e. cid_str (fst e)) (filter (\<lambda>e. snd e > 0) counts'))))
       else Inr ())" by blast
  have "validate_dependency_graph by_id = Inr () \<longleftrightarrow> ids by_id \<subseteq> set ps"
    using topological_all_iff [OF wf t] by (simp add: v)
  also have "\<dots> \<longleftrightarrow> (\<forall>x. \<not> on_cycle_path by_id x)"
    using rest_on_cycle_path [OF wf known t q] by blast
  finally show ?thesis by (simp add: no_cycle_path_iff)
qed

lemma validate_cycle:
  assumes wf: "bt_wf by_id" and known: "refs_known by_id" and cyc: "\<not> acyclic (requires_rel by_id)"
  shows "\<exists>xs. validate_dependency_graph by_id = Inl (StaticProvider (ComponentDependencyCycle (map cid_str xs))) \<and>
    (\<forall>x. x \<in> set xs \<longleftrightarrow> on_cycle_path by_id x)"
proof -
  from validate_run [OF wf known] obtain ps counts' where t: "topological by_id ps"
    and q: "queue_inv by_id (set ps) [] counts' []" and wfc: "bt_wf counts'"
    and v: "validate_dependency_graph by_id =
      (if length ps \<noteq> length by_id
       then Inl (StaticProvider (ComponentDependencyCycle
              (map (\<lambda>e. cid_str (fst e)) (filter (\<lambda>e. snd e > 0) counts'))))
       else Inr ())" by blast
  let ?xs = "map fst (filter (\<lambda>e. snd e > 0) counts')"
  have "x \<in> set ?xs \<longleftrightarrow> on_cycle_path by_id x" for x
  proof -
    have "x \<in> set ?xs \<longleftrightarrow> (\<exists>n. (x, n) \<in> set counts' \<and> n > 0)" by force
    also have "\<dots> \<longleftrightarrow> (\<exists>n. bt_get counts' x = Some n \<and> n > 0)"
      by (simp only: bt.get_entries [OF wfc])
    also have "\<dots> \<longleftrightarrow> x \<in> ids by_id - set ps"
      using q unfolding queue_inv_def by simp
    finally show ?thesis using rest_on_cycle_path [OF wf known t q] by blast
  qed
  moreover have "validate_dependency_graph by_id = Inl (StaticProvider (ComponentDependencyCycle (map cid_str ?xs)))"
    using v cyc validate_ok_iff [OF wf known] by (simp add: comp_def split: if_splits)
  ultimately show ?thesis by blast
qed

lemma validate_unknown_ref:
  assumes "\<not> refs_known by_id"
  shows "\<exists>(i, c) \<in> set by_id. \<exists>d \<in> set (pc_requires c). \<not> bt_contains by_id d \<and>
    validate_dependency_graph by_id
      = Inl (StaticProvider (InvalidComponentReference (cid_str i) (cid_str d)))"
proof -
  from assms have "\<exists>(i, c) \<in> set by_id. \<exists>d \<in> set (pc_requires c). \<not> bt_contains by_id d"
    unfolding refs_known_def by blast
  from build_graph_err [OF this bt_wf_Nil, of "[]"] obtain i c d where
    *: "(i, c) \<in> set by_id" "d \<in> set (pc_requires c)" "\<not> bt_contains by_id d"
      "build_graph by_id by_id [] [] = Inl (StaticProvider (InvalidComponentReference (cid_str i) (cid_str d)))"
    by blast
  then have "validate_dependency_graph by_id
      = Inl (StaticProvider (InvalidComponentReference (cid_str i) (cid_str d)))"
    by (simp add: validate_dependency_graph_def)
  with * show ?thesis by blast
qed

section \<open>The worklist\<close>

definition enablers :: "enabled_by_map \<Rightarrow> ComponentId \<Rightarrow> ComponentId list" where
  "enablers eb d = (case bt_get eb d of None \<Rightarrow> [] | Some s \<Rightarrow> s)"

lemma enable_dependencies_spec:
  assumes "enable_dependencies i ds enabled eb pending = (enabled', eb', pending')"
    and "bs_wf enabled" "bt_wf eb" "\<forall>d. bs_wf (enablers eb d)"
  shows "set enabled' = set enabled \<union> set ds \<and>
    set pending' = set pending \<union> (set ds - set enabled) \<and> bs_wf enabled' \<and> bt_wf eb' \<and>
    (\<forall>d. bs_wf (enablers eb' d) \<and>
       set (enablers eb' d) = set (enablers eb d) \<union> (if d \<in> set ds then {i} else {}))"
  using assms
proof (induction i ds enabled eb pending rule: enable_dependencies.induct)
  case (2 i d ds enabled eb pending)
  let ?eb = "bt_insert d (bs_insert i (enablers eb d)) eb"
  have get: "enablers ?eb x = (if x = d then bs_insert i (enablers eb d) else enablers eb x)" for x
    using 2(5) by (simp add: enablers_def bt_get_insert)
  then have wf: "bt_wf ?eb" "\<forall>x. bs_wf (enablers ?eb x)" using 2(5,6) by auto
  show ?case
  proof (cases "d \<in> set enabled")
    case True
    with 2(1) [OF enablers_def refl] 2(3,4) wf show ?thesis by (auto simp: get enablers_def [symmetric] Let_def)
  next
    case False
    with 2(2) [OF enablers_def refl] 2(3,4) wf show ?thesis by (auto simp: get enablers_def [symmetric] Let_def)
  qed
qed simp

text \<open>The state of the worklist; \<open>S\<close> are the selected components and \<open>Q\<close> the ones already expanded.\<close>

definition closure_inv ::
    "component_map \<Rightarrow> ComponentId set \<Rightarrow> ComponentId set \<Rightarrow> ComponentId list \<Rightarrow> ComponentId list \<Rightarrow> enabled_by_map \<Rightarrow> bool" where
  "closure_inv by_id S Q pending enabled eb \<longleftrightarrow>
     set enabled = Q \<union> set pending \<and> S \<subseteq> set enabled \<and> set enabled \<subseteq> (requires_rel by_id)\<^sup>* `` S \<and>
     requires_rel by_id `` Q \<subseteq> set enabled \<and> bs_wf enabled \<and> bt_wf eb \<and>
     (\<forall>d. bs_wf (enablers eb d) \<and> set (enablers eb d) = {x \<in> Q. (x, d) \<in> requires_rel by_id})"

lemma closure_inv_done:
  assumes "closure_inv by_id S Q [] enabled eb"
  shows "set enabled = (requires_rel by_id)\<^sup>* `` S"
proof
  show "set enabled \<subseteq> (requires_rel by_id)\<^sup>* `` S" using assms unfolding closure_inv_def by blast
  have "y \<in> set enabled" if "(x, y) \<in> (requires_rel by_id)\<^sup>*" "x \<in> S" for x y
    using that
  proof (induction rule: rtrancl_induct)
    case base
    then show ?case using assms by (auto simp: closure_inv_def)
  next
    case (step y z)
    then show ?case using assms unfolding closure_inv_def by auto
  qed
  then show "(requires_rel by_id)\<^sup>* `` S \<subseteq> set enabled" by blast
qed

lemma enable_closure_ok:
  assumes "closure_inv by_id S Q pending enabled eb"
    and "(requires_rel by_id)\<^sup>* `` S \<subseteq> ids by_id"
  shows "\<exists>enabled' eb'. enable_closure by_id pending enabled eb = Inr (enabled', eb') \<and>
     closure_inv by_id S (set enabled') [] enabled' eb'"
  using assms
proof (induction by_id pending enabled eb arbitrary: Q rule: enable_closure.induct)
  case (1 by_id enabled eb)
  then have "Q = set enabled" by (simp add: closure_inv_def)
  with 1 show ?case by auto
next
  case (2 by_id i pending enabled eb)
  have "i \<in> ids by_id" using 2(2,3) by (auto simp: closure_inv_def)
  then obtain c where c: "bt_get by_id i = Some c" using bt_get_ids [of by_id i] by blast
  have rel: "(i, d) \<in> requires_rel by_id \<longleftrightarrow> d \<in> set (pc_requires c)" for d
    by (simp add: requires_rel_reqs reqs_def c)
  obtain enabled' eb' pending' where e:
    "enable_dependencies i (pc_requires c) enabled eb pending = (enabled', eb', pending')"
    by (metis prod_cases3)
  from enable_dependencies_spec [OF e] 2(2) have spec:
    "set enabled' = set enabled \<union> set (pc_requires c)"
    "set pending' = set pending \<union> (set (pc_requires c) - set enabled)" "bs_wf enabled'" "bt_wf eb'"
    "\<And>d. bs_wf (enablers eb' d)"
    "\<And>d. set (enablers eb' d) = set (enablers eb d) \<union> (if d \<in> set (pc_requires c) then {i} else {})"
    by (auto simp: closure_inv_def)
  have "i \<in> (requires_rel by_id)\<^sup>* `` S" using 2(2) by (auto simp: closure_inv_def)
  then have "set (pc_requires c) \<subseteq> (requires_rel by_id)\<^sup>* `` S"
    by (auto simp: rel [symmetric]) (meson ImageI rtrancl.rtrancl_into_rtrancl)
  then have "closure_inv by_id S (insert i Q) pending' enabled' eb'"
    using 2(2) unfolding closure_inv_def by (auto simp: spec rel)
  from 2(1) [OF c e [symmetric] refl this 2(3)] show ?case by (simp add: c e)
qed

lemma check_conflicts_iff:
  "set todo \<subseteq> ids by_id \<Longrightarrow>
   check_conflicts by_id enabled todo = Inr () \<longleftrightarrow>
   (\<forall>i \<in> set todo. \<forall>c. bt_get by_id i = Some c \<longrightarrow> set (pc_conflicts c) \<inter> set enabled = {})"
proof (induction by_id enabled todo rule: check_conflicts.induct)
  case (2 by_id enabled i rest)
  then obtain c where c: "bt_get by_id i = Some c" using bt_get_ids [of by_id i] by auto
  have rest: "set rest \<subseteq> ids by_id" using 2(2) by simp
  show ?case
  proof (cases "find (\<lambda>k. k \<in> set enabled) (pc_conflicts c)")
    case None
    then have "set (pc_conflicts c) \<inter> set enabled = {}" by (auto simp: find_None_iff)
    with 2(1) [OF c None rest] None c show ?thesis by simp
  next
    case (Some k)
    then have "k \<in> set (pc_conflicts c) \<inter> set enabled" by (auto simp: find_Some_iff)
    with Some c show ?thesis by auto
  qed
qed simp

lemma check_conflicts_err:
  "set todo \<subseteq> ids by_id \<Longrightarrow> check_conflicts by_id enabled todo = Inl e \<Longrightarrow>
   \<exists>i c k. i \<in> set todo \<and> bt_get by_id i = Some c \<and> k \<in> set (pc_conflicts c) \<and> k \<in> set enabled \<and>
     e = StaticProvider (ComponentConflict (cid_str i) (cid_str k))"
proof (induction by_id enabled todo rule: check_conflicts.induct)
  case (2 by_id enabled i rest)
  then obtain c where c: "bt_get by_id i = Some c" using bt_get_ids [of by_id i] by auto
  show ?case
  proof (cases "find (\<lambda>k. k \<in> set enabled) (pc_conflicts c)")
    case None
    with 2 c show ?thesis by auto
  next
    case (Some k)
    then have "k \<in> set (pc_conflicts c)" "k \<in> set enabled" by (auto simp: find_Some_iff)
    with 2(3) c Some show ?thesis by auto
  qed
qed simp

section \<open>Resolution\<close>

lemma bt_wf_by_id_of [simp]: "bt_wf (by_id_of components)"
  by (simp add: by_id_of_def)

lemma ids_by_id_of: "ids (by_id_of components) = pc_id ` set components"
proof -
  have "k \<in> ids (by_id_of components) \<longleftrightarrow> map_of (rev (map (\<lambda>c. (pc_id c, c)) components)) k \<noteq> None" for k
    using bt_get_ids [of "by_id_of components" k] by (auto simp: by_id_of_def bt_get_collect)
  then show ?thesis by (force simp: map_of_eq_None_iff)
qed

definition selected_ids :: "ProviderComponent list \<Rightarrow> ComponentSelections \<Rightarrow> ComponentId set" where
  "selected_ids components selections = {pc_id c |c. c \<in> set components \<and> is_selected selections c}"

text \<open>What the resolution promises to enable: the closure of the selected components.\<close>

definition required_closure :: "ProviderComponent list \<Rightarrow> ComponentSelections \<Rightarrow> ComponentId set" where
  "required_closure components selections =
     (requires_rel (by_id_of components))\<^sup>* `` selected_ids components selections"

definition conflict_free :: "component_map \<Rightarrow> ComponentId set \<Rightarrow> bool" where
  "conflict_free by_id E \<longleftrightarrow>
     (\<forall>i \<in> E. \<forall>c. bt_get by_id i = Some c \<longrightarrow> set (pc_conflicts c) \<inter> E = {})"

lemma required_closure_known:
  assumes "refs_known (by_id_of components)"
  shows "required_closure components selections \<subseteq> ids (by_id_of components)"
proof -
  have "y \<in> ids (by_id_of components)"
    if "(x, y) \<in> (requires_rel (by_id_of components))\<^sup>*" "x \<in> selected_ids components selections" for x y
    using that requires_rel_closed [OF _ assms]
    by (induction rule: rtrancl_induct) (auto simp: selected_ids_def ids_by_id_of)
  then show ?thesis by (auto simp: required_closure_def)
qed

lemma resolve_closure:
  fixes components :: "ProviderComponent list" and selections
  defines "enabled \<equiv> bs_collect (map pc_id (filter (is_selected selections) components))"
  assumes known: "refs_known (by_id_of components)"
  obtains enabled' eb where
    "enable_closure (by_id_of components) enabled enabled [] = Inr (enabled', eb)"
    "set enabled' = required_closure components selections" "bs_wf enabled'"
    "\<And>d. bs_wf (enablers eb d)"
    "\<And>d. set (enablers eb d) = {x \<in> required_closure components selections. (x, d) \<in> requires_rel (by_id_of components)}"
proof -
  let ?S = "selected_ids components selections"
  have "set enabled = ?S" by (auto simp: enabled_def selected_ids_def)
  then have "closure_inv (by_id_of components) ?S {} enabled enabled []"
    by (auto simp: closure_inv_def enablers_def enabled_def)
  from enable_closure_ok [OF this] required_closure_known [OF known, of selections]
  obtain enabled' eb where e: "enable_closure (by_id_of components) enabled enabled [] = Inr (enabled', eb)"
    and inv: "closure_inv (by_id_of components) ?S (set enabled') [] enabled' eb"
    by (auto simp: required_closure_def)
  show thesis
    using inv closure_inv_done [OF inv]
    by (intro that [OF e]) (simp_all add: required_closure_def closure_inv_def)
qed

text \<open>Every outcome of the resolution.\<close>

lemma resolve_unknown:
  "\<not> refs_known (by_id_of components) \<Longrightarrow> \<exists>i d. \<not> bt_contains (by_id_of components) d \<and>
     (i, d) \<in> requires_rel (by_id_of components) \<and>
     resolve_components components selections
       = Inl (StaticProvider (InvalidComponentReference (cid_str i) (cid_str d)))"
proof -
  assume "\<not> refs_known (by_id_of components)"
  from validate_unknown_ref [OF this] obtain i c d where
    *: "(i, c) \<in> set (by_id_of components)" "d \<in> set (pc_requires c)" "\<not> bt_contains (by_id_of components) d"
    "validate_dependency_graph (by_id_of components)
      = Inl (StaticProvider (InvalidComponentReference (cid_str i) (cid_str d)))" by blast
  then have "(i, d) \<in> requires_rel (by_id_of components)"
    using bt.get_entries [of "by_id_of components" i c] by (auto simp: requires_rel_def)
  with * show ?thesis by (auto simp: resolve_components_def)
qed

lemma resolve_cycle:
  "refs_known (by_id_of components) \<Longrightarrow> \<not> acyclic (requires_rel (by_id_of components)) \<Longrightarrow>
   \<exists>xs. resolve_components components selections
       = Inl (StaticProvider (ComponentDependencyCycle (map cid_str xs))) \<and>
     (\<forall>x. x \<in> set xs \<longleftrightarrow> on_cycle_path (by_id_of components) x)"
  using validate_cycle [of "by_id_of components"] by (fastforce simp: resolve_components_def)

lemma resolve_conflict:
  assumes known: "refs_known (by_id_of components)" and acyc: "acyclic (requires_rel (by_id_of components))"
    and conf: "\<not> conflict_free (by_id_of components) (required_closure components selections)"
  shows "\<exists>i c k. i \<in> required_closure components selections \<and> k \<in> required_closure components selections \<and>
    bt_get (by_id_of components) i = Some c \<and> k \<in> set (pc_conflicts c) \<and>
    resolve_components components selections
      = Inl (StaticProvider (ComponentConflict (cid_str i) (cid_str k)))"
proof -
  have v: "validate_dependency_graph (by_id_of components) = Inr ()"
    using validate_ok_iff [OF _ known] acyc by simp
  from known obtain enabled eb where
    e: "enable_closure (by_id_of components) (bs_collect (map pc_id (filter (is_selected selections) components)))
          (bs_collect (map pc_id (filter (is_selected selections) components))) [] = Inr (enabled, eb)"
      "set enabled = required_closure components selections"
    by (rule resolve_closure)
  have sub: "set enabled \<subseteq> ids (by_id_of components)" using required_closure_known [OF known] e(2) by simp
  have "check_conflicts (by_id_of components) enabled enabled \<noteq> Inr ()"
    using conf check_conflicts_iff [OF sub] by (simp add: conflict_free_def e(2))
  then obtain err where err: "check_conflicts (by_id_of components) enabled enabled = Inl err"
    by (metis (full_types) old.unit.exhaust sum.exhaust)
  have "resolve_components components selections = Inl err"
    by (simp add: resolve_components_def v e(1) err)
  with check_conflicts_err [OF sub err] show ?thesis by (auto simp: e(2))
qed

lemma resolve_ok:
  assumes known: "refs_known (by_id_of components)" and acyc: "acyclic (requires_rel (by_id_of components))"
    and conf: "conflict_free (by_id_of components) (required_closure components selections)"
  shows "\<exists>enabled eb. resolve_components components selections = Inr \<lparr>rs_enabled = enabled,
      rs_statuses = component_statuses selections enabled eb components\<rparr> \<and>
    set enabled = required_closure components selections \<and> bs_wf enabled \<and>
    (\<forall>d. bs_wf (enablers eb d) \<and> set (enablers eb d) =
       {x \<in> required_closure components selections. (x, d) \<in> requires_rel (by_id_of components)})"
proof -
  have v: "validate_dependency_graph (by_id_of components) = Inr ()"
    using validate_ok_iff [OF _ known] acyc by simp
  from known obtain enabled eb where
    e: "enable_closure (by_id_of components) (bs_collect (map pc_id (filter (is_selected selections) components)))
          (bs_collect (map pc_id (filter (is_selected selections) components))) [] = Inr (enabled, eb)"
      "set enabled = required_closure components selections" "bs_wf enabled"
      "\<And>d. bs_wf (enablers eb d)"
    "\<And>d. set (enablers eb d) = {x \<in> required_closure components selections. (x, d) \<in> requires_rel (by_id_of components)}"
    by (rule resolve_closure) blast
  have sub: "set enabled \<subseteq> ids (by_id_of components)" using required_closure_known [OF known] e(2) by simp
  have "check_conflicts (by_id_of components) enabled enabled = Inr ()"
    using conf check_conflicts_iff [OF sub] by (simp add: conflict_free_def e(2))
  then have "resolve_components components selections = Inr \<lparr>rs_enabled = enabled,
      rs_statuses = component_statuses selections enabled eb components\<rparr>"
    by (simp add: resolve_components_def v e(1))
  with e show ?thesis by blast
qed

lemma statuses_nth:
  assumes "distinct (map pc_id components)" "n < length components"
  shows "component_statuses selections enabled eb components ! n =
    \<lparr>st_id = pc_id (components ! n), st_name = pc_name (components ! n),
     st_description = pc_description (components ! n), st_requirement = pc_requirement (components ! n),
     st_selected = is_selected selections (components ! n),
     st_enabled = (pc_id (components ! n) \<in> set enabled),
     st_enabled_by = enablers eb (pc_id (components ! n))\<rparr>"
  using assms
proof (induction components arbitrary: n eb)
  case (Cons c cs)
  show ?case
  proof (cases n)
    case (Suc m)
    then have "cs ! m \<in> set cs" using Cons.prems by simp
    moreover have "pc_id c \<notin> pc_id ` set cs" using Cons.prems by simp
    ultimately have "pc_id (cs ! m) \<noteq> pc_id c" by (metis imageI)
    then show ?thesis using Cons.IH [of m "bt_remove (pc_id c) eb"] Cons.prems Suc
      by (simp add: enablers_def bt_get_remove)
  qed (simp add: enablers_def)
qed simp

lemma statuses_length: "length (component_statuses selections enabled eb components) = length components"
  by (induction selections enabled eb components rule: component_statuses.induct) auto

section \<open>Selections\<close>

lemma initialize_selections_wf:
  "bt_wf (cs_components selections) \<Longrightarrow> bt_wf (cs_components (initialize_selections components selections))"
  unfolding initialize_selections_def by (induction components arbitrary: selections) auto

lemma initialize_selections_get:
  assumes "bt_wf (cs_components selections)"
  shows "bt_get (cs_components (initialize_selections components selections)) k =
    (case bt_get (cs_components selections) k of
       Some b \<Rightarrow> Some b
     | None \<Rightarrow> map_option pc_default_enabled
          (find (\<lambda>c. pc_id c = k \<and> pc_requirement c = Optional) components))"
  using assms
proof (induction components arbitrary: selections)
  case (Cons c cs)
  show ?case
  proof (cases "pc_requirement c")
    case Optional
    let ?s = "selections\<lparr>cs_components := bt_or_insert (pc_id c) (pc_default_enabled c) (cs_components selections)\<rparr>"
    have "initialize_selections (c # cs) selections = initialize_selections cs ?s"
      by (simp add: initialize_selections_def Optional)
    then show ?thesis using Cons.IH [of ?s] Cons.prems
      by (simp add: bt_get_or_insert Optional split: option.splits)
  next
    case Required
    then have "initialize_selections (c # cs) selections = initialize_selections cs selections"
      by (simp add: initialize_selections_def)
    then show ?thesis using Cons Required by (simp split: option.split)
  qed
qed (simp add: initialize_selections_def split: option.split)

section \<open>Sample declarations\<close>

text \<open>Small declarations on which the properties are exercised.\<close>

definition sample_component :: "string \<Rightarrow> bool \<Rightarrow> string list \<Rightarrow> string list \<Rightarrow> ProviderComponent" where
  "sample_component i dflt requires conflicts =
     \<lparr>pc_id = ComponentId i, pc_name = i, pc_description = None, pc_requirement = Optional,
      pc_default_enabled = dflt, pc_requires = map ComponentId requires,
      pc_conflicts = map ComponentId conflicts, pc_files = []\<rparr>"

definition sample_chain :: "ProviderComponent list" where
  "sample_chain = [sample_component ''sodium'' False [] [], sample_component ''iris'' True [''sodium''] []]"

lemma sample_chain_resolves:
  "resolve_components sample_chain component_selections_default = Inr
     \<lparr>rs_enabled = [ComponentId ''iris'', ComponentId ''sodium''],
      rs_statuses =
        [\<lparr>st_id = ComponentId ''sodium'', st_name = ''sodium'', st_description = None, st_requirement = Optional,
          st_selected = False, st_enabled = True, st_enabled_by = [ComponentId ''iris'']\<rparr>,
         \<lparr>st_id = ComponentId ''iris'', st_name = ''iris'', st_description = None, st_requirement = Optional,
          st_selected = True, st_enabled = True, st_enabled_by = []\<rparr>]\<rparr>"
  by code_simp

section \<open>Properties\<close>

text \<open>C3: the graph validation succeeds exactly when every required component is declared and
  the dependency relation is acyclic; so the queue algorithm of \<open>validate_dependency_graph\<close>
  decides acyclicity.\<close>

theorem validate_dependency_graph_decides:
  assumes "bt_wf by_id"
  shows "validate_dependency_graph by_id = Inr () \<longleftrightarrow>
    refs_known by_id \<and> acyclic (requires_rel by_id)"
proof (cases "refs_known by_id")
  case True
  then show ?thesis using validate_ok_iff [OF assms] by simp
next
  case False
  then show ?thesis using validate_unknown_ref [OF False] by auto
qed

theorem validate_dependency_graph_decides_witness:
  "bt_wf (by_id_of sample_chain) \<and> acyclic (requires_rel (by_id_of sample_chain))"
proof -
  have "validate_dependency_graph (by_id_of sample_chain) = Inr ()" by code_simp
  then show ?thesis using validate_dependency_graph_decides [of "by_id_of sample_chain"] by simp
qed

text \<open>With known references and a cyclic graph, the error is the structured cycle error and
  lists exactly the components from which a dependency cycle can be reached.\<close>

theorem validate_dependency_graph_cycle_report:
  assumes "bt_wf by_id" "refs_known by_id" "\<not> acyclic (requires_rel by_id)"
  shows "\<exists>xs. validate_dependency_graph by_id
      = Inl (StaticProvider (ComponentDependencyCycle (map cid_str xs))) \<and>
    (\<forall>x. x \<in> set xs \<longleftrightarrow> (\<exists>y. (x, y) \<in> (requires_rel by_id)\<^sup>* \<and> (y, y) \<in> (requires_rel by_id)\<^sup>+))"
  using validate_cycle [OF assms] by (simp add: on_cycle_path_def)

text \<open>C7: resolution succeeds exactly when the references are known, the graph is acyclic and no
  two components of the closure of the selection conflict.\<close>

theorem resolve_components_ok_iff:
  "is_ok (resolve_components components selections) \<longleftrightarrow>
     refs_known (by_id_of components) \<and> acyclic (requires_rel (by_id_of components)) \<and>
     conflict_free (by_id_of components) (required_closure components selections)"
  using resolve_unknown [of components selections] resolve_cycle [of components selections]
    resolve_conflict [of components selections] resolve_ok [of components selections]
  by (metis is_ok_simps)

text \<open>C4: the enabled set of a successful resolution is the set of components reachable from the
  selected ones through \<open>requires\<close>, in increasing order; it is closed under \<open>requires\<close>, and no
  two of its components conflict.\<close>

theorem resolve_components_enabled:
  assumes "resolve_components components selections = Inr r"
  shows "set (rs_enabled r) = required_closure components selections \<and> bs_wf (rs_enabled r) \<and>
    (\<forall>i d. rs_is_enabled r i \<longrightarrow> (i, d) \<in> requires_rel (by_id_of components) \<longrightarrow> rs_is_enabled r d) \<and>
    conflict_free (by_id_of components) (set (rs_enabled r))"
proof -
  have ok: "refs_known (by_id_of components)" "acyclic (requires_rel (by_id_of components))"
    "conflict_free (by_id_of components) (required_closure components selections)"
    using assms resolve_unknown [of components selections] resolve_cycle [of components selections]
      resolve_conflict [of components selections] by (metis Inl_Inr_False)+
  from resolve_ok [OF this] assms ok(3) show ?thesis
    by (auto simp: rs_is_enabled_def required_closure_def) (meson ImageI rtrancl.rtrancl_into_rtrancl)
qed

theorem resolve_components_enabled_witness:
  "required_closure sample_chain component_selections_default = {ComponentId ''iris'', ComponentId ''sodium''}"
  using resolve_components_enabled [OF sample_chain_resolves] by simp

text \<open>For components with distinct ids, the status of each says whether it is enabled, and
  its \<open>enabled_by\<close> list holds exactly the enabled components that require it.\<close>

theorem resolve_components_statuses:
  assumes "resolve_components components selections = Inr r"
    and "distinct (map pc_id components)" and "n < length components"
  shows "length (rs_statuses r) = length components \<and>
    st_id (rs_statuses r ! n) = pc_id (components ! n) \<and>
    (st_enabled (rs_statuses r ! n) \<longleftrightarrow> pc_id (components ! n) \<in> required_closure components selections) \<and>
    set (st_enabled_by (rs_statuses r ! n)) =
      {x \<in> required_closure components selections. (x, pc_id (components ! n)) \<in> requires_rel (by_id_of components)}"
proof -
  have "refs_known (by_id_of components)" "acyclic (requires_rel (by_id_of components))"
    "conflict_free (by_id_of components) (required_closure components selections)"
    using assms(1) resolve_unknown [of components selections] resolve_cycle [of components selections]
      resolve_conflict [of components selections] by (metis Inl_Inr_False)+
  from resolve_ok [OF this] assms show ?thesis
    by (auto simp: statuses_nth statuses_length)
qed

text \<open>Resolution never panics: neither the indexing \<open>by_id[&id]\<close> nor the decrement of a
  dependency count can fail, whatever the declared components.\<close>

lemma resolve_components_no_panic:
  "resolve_components components selections \<noteq> Inl (Panic msg)"
  using resolve_unknown [of components selections] resolve_cycle [of components selections]
    resolve_conflict [of components selections] resolve_ok [of components selections]
  by (metis Error.distinct Inl_Inr_False Inl_inject)

text \<open>\<open>initialize_selections\<close> keeps every existing choice, gives each optional component
  without one its declared default, and running it again changes nothing.\<close>

theorem initialize_selections_spec:
  assumes "bt_wf (cs_components selections)"
  shows "bt_get (cs_components (initialize_selections components selections)) k =
      (case bt_get (cs_components selections) k of
         Some b \<Rightarrow> Some b
       | None \<Rightarrow> map_option pc_default_enabled
            (find (\<lambda>c. pc_id c = k \<and> pc_requirement c = Optional) components)) \<and>
    cs_components (initialize_selections components (initialize_selections components selections))
      = cs_components (initialize_selections components selections)"
proof -
  let ?i = "initialize_selections components"
  have wf: "bt_wf (cs_components s) \<Longrightarrow> bt_wf (cs_components (?i s))" for s
    by (simp add: initialize_selections_wf)
  have "bt_get (cs_components (?i (?i selections))) x = bt_get (cs_components (?i selections)) x" for x
    by (auto simp: initialize_selections_get wf assms split: option.split)
  then have "cs_components (?i (?i selections)) = cs_components (?i selections)"
    by (intro bt_ext) (simp_all add: wf assms)
  then show ?thesis by (simp add: initialize_selections_get assms)
qed

end
