(* ===== verification/Manifest.thy ===== *)
theory Manifest
  imports ComponentGraph
begin

text \<open>
  Raw static-provider documents and their validation (\<^verbatim>\<open>providers/manifest.rs\<close>): the raw records
  are what deserialisation produces, and \<open>im_validate\<close> turns one into a
  \<^typ>\<open>ProviderInstanceDefinition\<close> or the first error.  Resolving the URL of a file is a parameter, as
  it is in the source; so is the URL parser of \<open>ProviderSource::parse\<close>.

  The validated definition is characterised by \<open>pd_wf\<close>, which in particular gives the component
  resolver what it needs: distinct cids and no unknown reference.
\<close>

section \<open>Raw documents\<close>

record RawProviderIdentity =
  ri_id :: string
  ri_name :: string
  ri_description :: "string option"

record RawProviderInstanceReference =
  rr_id :: string
  rr_manifest :: string
  rr_sha256 :: "string option"

record RawProviderManifest =
  rp_format_version :: u32
  rp_revision :: "u64 option"
  rp_provider :: RawProviderIdentity
  rp_instances :: "RawProviderInstanceReference list"

record RawLoader =
  rl_kind :: string
  rl_version :: "string option"

record RawMinecraft =
  rm_version :: string
  rm_loader :: RawLoader

record RawJava =
  rj_memory :: "ProviderJavaMemory option"

record RawServer =
  rs_address :: string
  rs_port :: u16

record RawProviderFile =
  rf_id :: "string option"
  rf_path :: string
  rf_url :: string
  rf_size :: u64
  rf_sha256 :: string
  rf_required :: bool

record RawProviderComponent =
  rc_id :: string
  rc_name :: string
  rc_description :: "string option"
  rc_required :: bool
  rc_default_enabled :: bool
  rc_requires :: "string list"
  rc_conflicts :: "string list"
  rc_files :: "RawProviderFile list"

record RawInstanceManifest =
  im_format_version :: u32
  im_id :: string
  im_name :: string
  im_description :: "string option"
  im_revision :: u64
  im_minecraft :: RawMinecraft
  im_java :: "RawJava option"
  im_server :: "RawServer option"
  im_authentication :: "InstanceAuthPolicy option"
  im_files :: "RawProviderFile list"
  im_components :: "RawProviderComponent list"

definition PROVIDER_FORMAT_VERSION :: u32 where
  "PROVIDER_FORMAT_VERSION = 1"

definition INSTANCE_MANIFEST_FORMAT_VERSION :: u32 where
  "INSTANCE_MANIFEST_FORMAT_VERSION = 1"

abbreviation invalid_manifest :: "string \<Rightarrow> Error" where
  "invalid_manifest m \<equiv> StaticProvider (ProviderError.InvalidManifest m)"

section \<open>Provider sources\<close>

text \<open>\<open>ProviderSource::parse\<close>; the URL parser and \<open>Url::to_file_path\<close> are parameters.\<close>

definition ps_parse ::
    "(string \<Rightarrow> string + Url) \<Rightarrow> (Url \<Rightarrow> path option) \<Rightarrow> string \<Rightarrow> ProviderSource result" where
  "ps_parse url_parse to_file_path value =
     (let parse = map_err (\<lambda>reason. StaticProvider (UrlPolicy value reason)) (url_parse value) in
      if starts_with value ''https://'' \<or> starts_with value ''http://''
      then res_bind parse (\<lambda>u. Inr (RemoteSource u))
      else if starts_with value ''file://''
      then res_bind parse (\<lambda>u.
             case to_file_path u of
               None \<Rightarrow> Inl (StaticProvider (UrlPolicy value ''file URL cannot be converted to a local path''))
             | Some p \<Rightarrow> Inr (LocalSource p))
      else if contains_str value ''://''
      then Inl (StaticProvider (UrlPolicy value ''only file, HTTP, and HTTPS sources are supported''))
      else Inr (LocalSource (path_components value)))"

section \<open>Validation\<close>

definition validate_file_id :: "string \<Rightarrow> SafeRelativePath \<Rightarrow> unit result" where
  "validate_file_id i p =
     (if i = [] \<or> length i > 128 \<or> has_control i
      then Inl (invalid_manifest (''file id for `'' @ srp_str p @ ''` is invalid''))
      else Inr ())"

definition validate_server_address :: "string \<Rightarrow> unit result" where
  "validate_server_address a =
     (if trim a \<noteq> a \<or> a = [] \<or> length a > 255
         \<or> list_ex (\<lambda>c. is_control c \<or> is_whitespace c
              \<or> c \<in> set [''/'', [char_of (92 :: nat)], ''@'', ''#'', ''?'']) (chars a)
      then Inl (invalid_manifest ''server address is invalid'')
      else Inr ())"

text \<open>
  One declared file.  The loops over the base files and over the files of a component differ in
  two places: base files must be required (\<open>base\<close>), and a component file takes the flag of its
  component (\<open>required\<close>).
\<close>

definition validate_provider_file ::
    "(string \<Rightarrow> ProviderResource result) \<Rightarrow> u64 \<Rightarrow> bool \<Rightarrow> bool \<Rightarrow> nat \<Rightarrow> RawProviderFile
      \<Rightarrow> SafeRelativePath set \<Rightarrow> string set \<Rightarrow> ProviderFile result" where
  "validate_provider_file resolve max_file_size base required index raw paths file_ids =
     res_bind (srp_new (rf_path raw)) (\<lambda>path.
     res_bind (guard_err (path \<in> paths) (StaticProvider (DuplicateFile (srp_str path)))) (\<lambda>_.
     res_bind (guard_err (rf_size raw = 0 \<or> rf_size raw > max_file_size)
         (StaticProvider (InvalidFileSize (srp_str path) (rf_size raw)))) (\<lambda>_.
     res_bind (guard_err (base \<and> \<not> rf_required raw)
         (StaticProvider (OptionalFilesUnsupported (srp_str path)))) (\<lambda>_.
     let i = (case rf_id raw of Some i \<Rightarrow> i | None \<Rightarrow> ''file-'' @ show_nat index) in
     res_bind (validate_file_id i path) (\<lambda>_.
     res_bind (guard_err (i \<in> file_ids) (StaticProvider (DuplicateFileId i))) (\<lambda>_.
     res_bind (resolve (rf_url raw)) (\<lambda>source.
     res_bind (fh_new Sha256 (rf_sha256 raw)) (\<lambda>sha.
     Inr \<lparr>pf_id = i, pf_path = path, pf_source = source, pf_size = rf_size raw, pf_sha256 = sha,
          pf_required = (base \<or> required)\<rparr>))))))))"

fun validate_provider_files ::
    "(string \<Rightarrow> ProviderResource result) \<Rightarrow> u64 \<Rightarrow> bool \<Rightarrow> bool \<Rightarrow> nat \<Rightarrow> RawProviderFile list
      \<Rightarrow> SafeRelativePath set \<Rightarrow> string set \<Rightarrow> (ProviderFile list \<times> SafeRelativePath set) result" where
  "validate_provider_files resolve mx base required index [] paths file_ids = Inr ([], paths)"
| "validate_provider_files resolve mx base required index (raw # raws) paths file_ids =
     res_bind (validate_provider_file resolve mx base required index raw paths file_ids) (\<lambda>f.
     res_bind (validate_provider_files resolve mx base required (Suc index) raws
                 (insert (pf_path f) paths) (insert (pf_id f) file_ids)) (\<lambda>(fs, paths').
     Inr (f # fs, paths')))"

definition validate_component_decl ::
    "(string \<Rightarrow> ProviderResource result) \<Rightarrow> u64 \<Rightarrow> RawProviderComponent \<Rightarrow> SafeRelativePath set
      \<Rightarrow> ComponentId set \<Rightarrow> (ProviderComponent \<times> SafeRelativePath set) result" where
  "validate_component_decl resolve mx raw paths component_ids =
     res_bind (cid_new (rc_id raw)) (\<lambda>i.
     res_bind (guard_err (i \<in> component_ids) (StaticProvider (DuplicateComponent (cid_str i)))) (\<lambda>_.
     res_bind (guard_err (is_blank (rc_name raw) \<or> length (rc_name raw) > 128)
         (invalid_manifest (''component `'' @ cid_str i @ ''` name must contain 1-128 characters''))) (\<lambda>_.
     res_bind (guard_err (rc_files raw = [])
         (invalid_manifest (''component `'' @ cid_str i @ ''` must contain at least one file''))) (\<lambda>_.
     res_bind (traverse cid_new (rc_requires raw)) (\<lambda>requires.
     res_bind (traverse cid_new (rc_conflicts raw)) (\<lambda>conflicts.
     res_bind (validate_provider_files resolve mx False (rc_required raw) 0 (rc_files raw) paths {}) (\<lambda>(files, paths').
     Inr (\<lparr>pc_id = i, pc_name = rc_name raw, pc_description = rc_description raw,
           pc_requirement = (if rc_required raw then Required else Optional),
           pc_default_enabled = (rc_required raw \<or> rc_default_enabled raw),
           pc_requires = requires, pc_conflicts = conflicts, pc_files = files\<rparr>, paths'))))))))"

fun validate_component_decls ::
    "(string \<Rightarrow> ProviderResource result) \<Rightarrow> u64 \<Rightarrow> RawProviderComponent list \<Rightarrow> SafeRelativePath set
      \<Rightarrow> ComponentId set \<Rightarrow> (ProviderComponent list \<times> ComponentId set) result" where
  "validate_component_decls resolve mx [] paths component_ids = Inr ([], component_ids)"
| "validate_component_decls resolve mx (raw # raws) paths component_ids =
     res_bind (validate_component_decl resolve mx raw paths component_ids) (\<lambda>(c, paths').
     res_bind (validate_component_decls resolve mx raws paths' (insert (pc_id c) component_ids)) (\<lambda>(cs, cids').
     Inr (c # cs, cids')))"

text \<open>The final pass over \<open>requires\<close> and \<open>conflicts\<close>.\<close>

fun check_reference_list :: "ComponentId \<Rightarrow> ComponentId set \<Rightarrow> ComponentId list \<Rightarrow> unit result" where
  "check_reference_list i component_ids [] = Inr ()"
| "check_reference_list i component_ids (d # ds) =
     (if d = i \<or> d \<notin> component_ids
      then Inl (StaticProvider (InvalidComponentReference (cid_str i) (cid_str d)))
      else check_reference_list i component_ids ds)"

fun check_references :: "ComponentId set \<Rightarrow> ProviderComponent list \<Rightarrow> unit result" where
  "check_references component_ids [] = Inr ()"
| "check_references component_ids (c # cs) =
     res_bind (check_reference_list (pc_id c) component_ids (pc_requires c @ pc_conflicts c)) (\<lambda>_.
     check_references component_ids cs)"

definition validate_loader :: "RawLoader \<Rightarrow> LoaderConfig option result" where
  "validate_loader l =
     (if rl_kind l = ''vanilla''
      then (if rl_version l \<noteq> None
            then Inl (invalid_manifest ''Vanilla loader must not declare a loader version'')
            else Inr None)
      else res_bind (map_err (\<lambda>_. StaticProvider (UnsupportedLoader (rl_kind l))) (loader_kind_from_str (rl_kind l))) (\<lambda>kind.
           res_bind (ok_or (rl_version l)
               (invalid_manifest (''loader `'' @ loader_kind_str kind @ ''` requires an exact version''))) (\<lambda>version.
           res_bind (lc_new kind version) (\<lambda>c. Inr (Some c)))))"

definition java_memory_ok :: "ProviderJavaMemory \<Rightarrow> bool" where
  "java_memory_ok m =
     (\<not> (jm_minimum_mb m < 256 \<or> jm_recommended_mb m < jm_minimum_mb m
        \<or> (case jm_maximum_mb m of None \<Rightarrow> False | Some x \<Rightarrow> x < jm_recommended_mb m)))"

definition validate_server :: "RawServer \<Rightarrow> ServerConfig result" where
  "validate_server s =
     res_bind (validate_server_address (rs_address s)) (\<lambda>_.
     Inr \<lparr>sc_host = rs_address s, sc_port = rs_port s\<rparr>)"

definition im_validate ::
    "(string \<Rightarrow> ProviderResource result) \<Rightarrow> u64 \<Rightarrow> InstanceId \<Rightarrow> RawInstanceManifest
      \<Rightarrow> ProviderInstanceDefinition result" where
  "im_validate resolve max_file_size expected_id raw =
     res_bind (guard_err (im_format_version raw \<noteq> INSTANCE_MANIFEST_FORMAT_VERSION)
         (StaticProvider (UnsupportedInstanceFormat (im_format_version raw)))) (\<lambda>_.
     res_bind (iid_new (im_id raw)) (\<lambda>i.
     res_bind (guard_err (i \<noteq> expected_id)
         (StaticProvider (InstanceIdentity (iid_str expected_id) (iid_str i)))) (\<lambda>_.
     res_bind (guard_err (is_blank (im_name raw) \<or> length (im_name raw) > 128)
         (invalid_manifest ''instance name must contain 1-128 characters'')) (\<lambda>_.
     res_bind (guard_err (im_revision raw = 0)
         (invalid_manifest ''instance revision must be greater than zero'')) (\<lambda>_.
     res_bind (validate_loader (rm_loader (im_minecraft raw))) (\<lambda>loader.
     res_bind (guard_err (rm_version (im_minecraft raw) = [] \<or> length (rm_version (im_minecraft raw)) > 128)
         (invalid_manifest ''Minecraft version is invalid'')) (\<lambda>_.
     let java_memory = (case im_java raw of None \<Rightarrow> None | Some j \<Rightarrow> rj_memory j) in
     res_bind (guard_err (\<not> (case java_memory of None \<Rightarrow> True | Some m \<Rightarrow> java_memory_ok m))
         (invalid_manifest ''Java memory recommendations are inconsistent'')) (\<lambda>_.
     res_bind (opt_traverse validate_server (im_server raw)) (\<lambda>server.
     let authentication = (case im_authentication raw of None \<Rightarrow> auth_policy_default | Some a \<Rightarrow> a) in
     res_bind (ap_validate authentication) (\<lambda>_.
     res_bind (validate_provider_files resolve max_file_size True True 0 (im_files raw) {} {}) (\<lambda>(files, paths).
     res_bind (validate_component_decls resolve max_file_size (im_components raw) paths {}) (\<lambda>(components, component_ids).
     res_bind (check_references component_ids components) (\<lambda>_.
     Inr \<lparr>pd_id = i, pd_name = im_name raw, pd_description = im_description raw,
          pd_revision = im_revision raw, pd_minecraft_version = rm_version (im_minecraft raw),
          pd_loader = loader, pd_java_memory = java_memory, pd_server = server,
          pd_authentication = authentication, pd_files = files, pd_components = components\<rparr>)))))))))))))"

section \<open>What a validated definition satisfies\<close>

definition pf_wf :: "u64 \<Rightarrow> ProviderFile \<Rightarrow> bool" where
  "pf_wf mx f \<longleftrightarrow> valid_relative_path (srp_str (pf_path f)) \<and> 0 < pf_size f \<and> pf_size f \<le> mx \<and>
     fh_wf (pf_sha256 f) \<and> fh_algorithm (pf_sha256 f) = Sha256"

definition pd_all_files :: "ProviderInstanceDefinition \<Rightarrow> ProviderFile list" where
  "pd_all_files d = pd_files d @ concat (map pc_files (pd_components d))"

definition pd_wf :: "u64 \<Rightarrow> ProviderInstanceDefinition \<Rightarrow> bool" where
  "pd_wf mx d \<longleftrightarrow>
     iid_valid (iid_str (pd_id d)) \<and> \<not> is_blank (pd_name d) \<and> length (pd_name d) \<le> 128 \<and>
     pd_revision d > 0 \<and> (\<forall>l. pd_loader d = Some l \<longrightarrow> lc_validate l = Inr ()) \<and>
     (\<forall>m. pd_java_memory d = Some m \<longrightarrow> java_memory_ok m) \<and>
     ap_validate (pd_authentication d) = Inr () \<and>
     (\<forall>f \<in> set (pd_all_files d). pf_wf mx f) \<and> distinct (map pf_path (pd_all_files d)) \<and>
     (\<forall>f \<in> set (pd_files d). pf_required f) \<and>
     distinct (map pf_id (pd_files d)) \<and> (\<forall>c \<in> set (pd_components d). distinct (map pf_id (pc_files c))) \<and>
     distinct (map pc_id (pd_components d)) \<and>
     (\<forall>c \<in> set (pd_components d). pc_files c \<noteq> [] \<and> (pc_requirement c = Required \<longrightarrow> pc_default_enabled c) \<and>
        (\<forall>f \<in> set (pc_files c). pf_required f = (pc_requirement c = Required)) \<and>
        (\<forall>k \<in> set (pc_requires c) \<union> set (pc_conflicts c). k \<noteq> pc_id c \<and> k \<in> pc_id ` set (pd_components d)))"

lemma validate_provider_file_Inr:
  assumes "validate_provider_file resolve mx base required index raw paths file_ids = Inr f"
  shows "pf_wf mx f \<and> pf_path f \<notin> paths \<and> pf_id f \<notin> file_ids \<and>
    pf_required f = (base \<or> required) \<and> resolve (rf_url raw) = Inr (pf_source f) \<and>
    srp_str (pf_path f) = rf_path raw \<and> pf_size f = rf_size raw"
  using assms srp.new_Inr_valid fh_new_wf
  by (auto simp: validate_provider_file_def Let_def pf_wf_def srp_new_Inr word_gt_0 not_less split: if_splits)

lemma validate_provider_files_Inr:
  "validate_provider_files resolve mx base required index raws paths file_ids = Inr (fs, paths') \<Longrightarrow>
     (\<forall>f \<in> set fs. pf_wf mx f \<and> pf_required f = (base \<or> required)) \<and>
     distinct (map pf_path fs) \<and> paths \<inter> pf_path ` set fs = {} \<and> paths' = paths \<union> pf_path ` set fs \<and>
     distinct (map pf_id fs) \<and> file_ids \<inter> pf_id ` set fs = {} \<and> length fs = length raws"
proof (induction resolve mx base required index raws paths file_ids arbitrary: fs
    rule: validate_provider_files.induct)
  case (2 resolve mx base required index raw raws paths file_ids)
  from 2(2) obtain f gs where f: "validate_provider_file resolve mx base required index raw paths file_ids = Inr f"
    and gs: "validate_provider_files resolve mx base required (Suc index) raws
                 (insert (pf_path f) paths) (insert (pf_id f) file_ids) = Inr (gs, paths')"
    and fs: "fs = f # gs" by auto
  from 2(1) [OF gs] validate_provider_file_Inr [OF f] show ?case
    by (auto simp: fs)
qed simp

lemma validate_component_decl_Inr:
  assumes "validate_component_decl resolve mx raw paths cids = Inr (c, paths')"
  shows "pc_id c \<notin> cids \<and> pc_files c \<noteq> [] \<and> (pc_requirement c = Required \<longrightarrow> pc_default_enabled c) \<and>
    (\<forall>f \<in> set (pc_files c). pf_wf mx f \<and> pf_required f = (pc_requirement c = Required)) \<and>
    distinct (map pf_path (pc_files c)) \<and> paths \<inter> pf_path ` set (pc_files c) = {} \<and>
    paths' = paths \<union> pf_path ` set (pc_files c) \<and> distinct (map pf_id (pc_files c))"
proof -
  from assms obtain fs where fs: "validate_provider_files resolve mx False (rc_required raw) 0 (rc_files raw) paths {}
      = Inr (fs, paths')" and c: "pc_files c = fs" "pc_id c \<notin> cids"
      "pc_requirement c = (if rc_required raw then Required else Optional)"
      "pc_default_enabled c = (rc_required raw \<or> rc_default_enabled raw)" "rc_files raw \<noteq> []"
    by (auto simp: validate_component_decl_def)
  from validate_provider_files_Inr [OF fs] c show ?thesis by auto
qed

lemma validate_component_decls_Inr:
  "validate_component_decls resolve mx raws paths cids = Inr (cs, cids') \<Longrightarrow>
     cids' = cids \<union> pc_id ` set cs \<and> distinct (map pc_id cs) \<and> cids \<inter> pc_id ` set cs = {} \<and>
     (\<forall>c \<in> set cs. pc_files c \<noteq> [] \<and> (pc_requirement c = Required \<longrightarrow> pc_default_enabled c) \<and>
        (\<forall>f \<in> set (pc_files c). pf_wf mx f \<and> pf_required f = (pc_requirement c = Required)) \<and>
        distinct (map pf_id (pc_files c))) \<and>
     distinct (map pf_path (concat (map pc_files cs))) \<and>
     paths \<inter> pf_path ` set (concat (map pc_files cs)) = {}"
proof (induction resolve mx raws paths cids arbitrary: cs rule: validate_component_decls.induct)
  case (2 resolve mx raw raws paths cids)
  from 2(2) obtain c paths' ds where c: "validate_component_decl resolve mx raw paths cids = Inr (c, paths')"
    and ds: "validate_component_decls resolve mx raws paths' (insert (pc_id c) cids) = Inr (ds, cids')"
    and cs: "cs = c # ds" by auto
  have d: "pc_id c \<notin> cids" "paths' = paths \<union> pf_path ` set (pc_files c)"
    "distinct (map pf_path (pc_files c))" "paths \<inter> pf_path ` set (pc_files c) = {}"
    using validate_component_decl_Inr [OF c] by auto
  have e: "cids' = insert (pc_id c) cids \<union> pc_id ` set ds" "distinct (map pc_id ds)"
    "insert (pc_id c) cids \<inter> pc_id ` set ds = {}" "distinct (map pf_path (concat (map pc_files ds)))"
    "paths' \<inter> pf_path ` set (concat (map pc_files ds)) = {}"
    using 2(1) [OF ds] by auto
  have "distinct (map pc_id cs)" "cids \<inter> pc_id ` set cs = {}" "cids' = cids \<union> pc_id ` set cs"
    using d e by (auto simp: cs)
  moreover have "distinct (map pf_path (concat (map pc_files cs)))"
    using d e by (auto simp: cs)
  moreover have "paths \<inter> pf_path ` set (concat (map pc_files cs)) = {}"
    using d(2,4) e(5) by (simp add: cs image_Un) blast
  ultimately show ?case
    using 2(1) [OF ds] validate_component_decl_Inr [OF c] by (simp add: cs)
qed simp

lemma check_reference_list_Inr:
  "check_reference_list i cids ds = Inr u \<longleftrightarrow> (\<forall>d \<in> set ds. d \<noteq> i \<and> d \<in> cids)"
  by (induction i cids ds rule: check_reference_list.induct) auto

lemma check_references_Inr:
  "check_references cids cs = Inr u \<longleftrightarrow>
     (\<forall>c \<in> set cs. \<forall>k \<in> set (pc_requires c) \<union> set (pc_conflicts c). k \<noteq> pc_id c \<and> k \<in> cids)"
proof (induction cids cs rule: check_references.induct)
  case (2 cids c cs)
  then show ?case
    using check_reference_list_Inr [of "pc_id c" cids "pc_requires c @ pc_conflicts c"]
    by (cases "check_reference_list (pc_id c) cids (pc_requires c @ pc_conflicts c)") auto
qed simp

lemma validate_loader_Inr: "validate_loader r = Inr (Some l) \<Longrightarrow> lc_validate l = Inr ()"
  by (auto simp: validate_loader_def lc_new_Inr split: if_splits)

lemma im_validate_steps:
  assumes "im_validate resolve mx expected raw = Inr d"
  obtains paths component_ids where "iid_new (im_id raw) = Inr (pd_id d)" "pd_id d = expected"
    and "\<not> is_blank (pd_name d)" "length (pd_name d) \<le> 128" "pd_revision d \<noteq> 0"
    and "validate_loader (rm_loader (im_minecraft raw)) = Inr (pd_loader d)"
    and "case pd_java_memory d of None \<Rightarrow> True | Some m \<Rightarrow> java_memory_ok m"
    and "ap_validate (pd_authentication d) = Inr ()"
    and "validate_provider_files resolve mx True True 0 (im_files raw) {} {} = Inr (pd_files d, paths)"
    and "validate_component_decls resolve mx (im_components raw) paths {} = Inr (pd_components d, component_ids)"
    and "check_references component_ids (pd_components d) = Inr ()"
    and "pd_revision d = im_revision raw" "pd_name d = im_name raw"
    and "pd_minecraft_version d = rm_version (im_minecraft raw)"
    and "length (pd_minecraft_version d) \<le> 128" "pd_minecraft_version d \<noteq> []"
  using assms unfolding im_validate_def Let_def res_bind_eq_Inr guard_err_eq_Inr
  by (clarsimp simp: not_less not_le) 

lemma im_validate_wf:
  assumes "im_validate resolve mx expected raw = Inr d"
  shows "pd_wf mx d"
proof -
  from assms show ?thesis
  proof (rule im_validate_steps)
    fix paths component_ids
    assume i: "iid_new (im_id raw) = Inr (pd_id d)" and name: "\<not> is_blank (pd_name d)" "length (pd_name d) \<le> 128"
      and rev: "pd_revision d \<noteq> 0"
      and loader: "validate_loader (rm_loader (im_minecraft raw)) = Inr (pd_loader d)"
      and mem: "case pd_java_memory d of None \<Rightarrow> True | Some m \<Rightarrow> java_memory_ok m"
      and auth: "ap_validate (pd_authentication d) = Inr ()"
      and files: "validate_provider_files resolve mx True True 0 (im_files raw) {} {} = Inr (pd_files d, paths)"
      and comps: "validate_component_decls resolve mx (im_components raw) paths {} = Inr (pd_components d, component_ids)"
      and refs: "check_references component_ids (pd_components d) = Inr ()"
    have f: "\<forall>f \<in> set (pd_files d). pf_wf mx f \<and> pf_required f" "distinct (map pf_path (pd_files d))"
      "paths = pf_path ` set (pd_files d)" "distinct (map pf_id (pd_files d))"
      using validate_provider_files_Inr [OF files] by auto
    have c: "component_ids = pc_id ` set (pd_components d)" "distinct (map pc_id (pd_components d))"
      "\<forall>c \<in> set (pd_components d). pc_files c \<noteq> [] \<and> (pc_requirement c = Required \<longrightarrow> pc_default_enabled c) \<and>
         (\<forall>f \<in> set (pc_files c). pf_wf mx f \<and> pf_required f = (pc_requirement c = Required)) \<and>
         distinct (map pf_id (pc_files c))"
      "distinct (map pf_path (concat (map pc_files (pd_components d))))"
      "paths \<inter> pf_path ` set (concat (map pc_files (pd_components d))) = {}"
      using validate_component_decls_Inr [OF comps] by auto
    have "\<forall>f \<in> set (pd_all_files d). pf_wf mx f" using f(1) c(3) by (auto simp: pd_all_files_def)
    moreover have "distinct (map pf_path (pd_all_files d))"
      using f(2,3) c(4,5) by (simp add: pd_all_files_def)
    moreover have "iid_valid (iid_str (pd_id d))" using iid.new_Inr_valid [OF i] by simp
    moreover have "\<forall>m. pd_java_memory d = Some m \<longrightarrow> java_memory_ok m" using mem by auto
    moreover have "\<forall>l. pd_loader d = Some l \<longrightarrow> lc_validate l = Inr ()"
      using loader validate_loader_Inr by auto
    moreover have "\<forall>c \<in> set (pd_components d). \<forall>k \<in> set (pc_requires c) \<union> set (pc_conflicts c).
        k \<noteq> pc_id c \<and> k \<in> pc_id ` set (pd_components d)"
      using refs check_references_Inr c(1) by metis
    ultimately show ?thesis
      unfolding pd_wf_def using name rev auth f(1,4) c(2,3) by (simp add: word_gt_0)
  qed
qed

lemma im_validate_identity:
  assumes "im_validate resolve mx expected raw = Inr d"
  shows "pd_id d = expected \<and> iid_str (pd_id d) = im_id raw \<and> pd_revision d = im_revision raw"
  using assms by (rule im_validate_steps) (use iid.new_as_str in auto)

lemma pd_wf_refs_known:
  assumes "pd_wf mx d"
  shows "refs_known (by_id_of (pd_components d))"
  unfolding refs_known_def
proof clarify
  fix i c k assume c: "(i, c) \<in> set (by_id_of (pd_components d))" and k: "k \<in> set (pc_requires c)"
  have "bt_get (by_id_of (pd_components d)) i = Some c"
    using c bt.get_entries [OF bt_wf_by_id_of] by blast
  then have "c \<in> set (pd_components d)"
    by (auto simp: by_id_of_def bt_get_collect dest!: map_of_SomeD)
  with k assms have "k \<in> pc_id ` set (pd_components d)" by (auto simp: pd_wf_def)
  then show "bt_contains (by_id_of (pd_components d)) k" by (simp add: bt_contains_iff ids_by_id_of)
qed

lemma java_memory_ok_limits:
  "java_memory_ok m \<Longrightarrow> jm_minimum_mb m \<noteq> 0 \<and> jm_minimum_mb m \<le> jm_recommended_mb m"
  by (auto simp: java_memory_ok_def not_less)

lemma is_vanilla_Inr:
  "is_vanilla i n v = Inr s \<longleftrightarrow> (\<exists>iid. iid_new i = Inr iid \<and> mc_new v = Inr (MinecraftConfig v) \<and>
     s = \<lparr>is_id = iid, is_name = n, is_minecraft = MinecraftConfig v, is_java = java_instance_default,
          is_loader = None, is_mods = [], is_server = None,
          is_authentication = auth_policy_default, is_metadata = []\<rparr> \<and>
     \<not> is_blank n \<and> length n \<le> 128)"
  by (auto simp: is_vanilla_def Let_def is_validate_def mc_new_def java_instance_default_def
      auth_policy_default_def ap_validate_def split: if_splits)

lemma is_validate_ok_iff:
  "is_validate s = Inr () \<longleftrightarrow> \<not> is_blank (is_name s) \<and> length (is_name s) \<le> 128 \<and>
     mc_validate (is_minecraft s) = Inr () \<and> ji_minimum_memory_mib (is_java s) \<noteq> 0 \<and>
     ji_minimum_memory_mib (is_java s) \<le> ji_maximum_memory_mib (is_java s) \<and>
     (\<forall>l. is_loader s = Some l \<longrightarrow> lc_validate l = Inr ()) \<and> ap_validate (is_authentication s) = Inr ()"
  by (auto simp: is_validate_def not_less split: option.splits)

text \<open>On a validated definition, only the local id and the Minecraft version can still be refused.\<close>

lemma local_spec_validated:
  assumes wf: "pd_wf mx d"
  shows "is_ok (local_spec d i key) \<longleftrightarrow> iid_valid i \<and> is_ok (mc_new (pd_minecraft_version d))"
proof (cases "is_vanilla i (pd_name d) (pd_minecraft_version d)")
  case (Inl e)
  have n: "\<not> is_blank (pd_name d)" "length (pd_name d) \<le> 128" using wf by (simp_all add: pd_wf_def)
  have "\<not> (iid_valid i \<and> is_ok (mc_new (pd_minecraft_version d)))"
  proof
    assume "iid_valid i \<and> is_ok (mc_new (pd_minecraft_version d))"
    then obtain j where "iid_new i = Inr j" "mc_new (pd_minecraft_version d) = Inr (MinecraftConfig (pd_minecraft_version d))"
      using iid.new_ok_iff by (auto simp: is_ok_iff mc_new_def)
    with n have "is_ok (is_vanilla i (pd_name d) (pd_minecraft_version d))"
      unfolding is_ok_iff is_vanilla_Inr by blast
    with Inl show False by simp
  qed
  with Inl show ?thesis by (simp add: local_spec_def)
next
  case (Inr s1)
  have v: "iid_valid i" "is_ok (mc_new (pd_minecraft_version d))" "is_validate s1 = Inr ()"
    "is_authentication s1 = auth_policy_default"
    using Inr is_vanilla_wf [OF Inr] iid.new_ok_iff [of i]
    by (auto simp: is_vanilla_Inr is_ok_iff is_wf_def)
  let ?s2 = "case pd_loader d of None \<Rightarrow> s1 | Some l \<Rightarrow> s1\<lparr>is_loader := Some l\<rparr>"
  have s2: "(case pd_loader d of None \<Rightarrow> Inr s1 | Some l \<Rightarrow> is_with_loader s1 l) = Inr ?s2" "is_validate ?s2 = Inr ()"
    using v(3) wf by (auto simp: is_with_loader_def Let_def pd_wf_def is_validate_ok_iff split: option.splits)
  have s3: "\<exists>s3. (case pd_java_memory d of None \<Rightarrow> Inr ?s2
               | Some m \<Rightarrow> is_with_java ?s2 \<lparr>ji_executable = None,
                     ji_minimum_memory_mib = jm_minimum_mb m,
                     ji_maximum_memory_mib = jm_recommended_mb m\<rparr>) = Inr s3"
  proof (cases "pd_java_memory d")
    case (Some m)
    then have "jm_minimum_mb m \<noteq> 0 \<and> jm_minimum_mb m \<le> jm_recommended_mb m"
      using wf by (auto simp: pd_wf_def dest: java_memory_ok_limits)
    with s2(2) Some show ?thesis by (simp add: is_with_java_def Let_def is_validate_ok_iff)
  qed simp
  have "ap_validate (pd_authentication d) = Inr ()" using wf by (simp add: pd_wf_def)
  with Inr s2(1) s3 v show ?thesis
    by (auto simp: local_spec_def Let_def is_with_authentication_def)
qed

section \<open>A sample manifest\<close>

definition sample_url :: "string \<Rightarrow> Url" where
  "sample_url t = \<lparr>url_text = t, url_scheme = ''https'', url_username = [], url_password = None,
     url_host = Some ''example.org'', url_path = ''/'', url_query = None, url_fragment = None\<rparr>"

definition sample_resolve :: "string \<Rightarrow> ProviderResource result" where
  "sample_resolve u = Inr (RemoteResource (sample_url u))"

definition sample_raw_file :: "string \<Rightarrow> RawProviderFile" where
  "sample_raw_file p = \<lparr>rf_id = None, rf_path = p, rf_url = p, rf_size = 3,
     rf_sha256 = replicate 64 CHR ''A'', rf_required = True\<rparr>"

definition sample_raw_component :: "string \<Rightarrow> string list \<Rightarrow> RawProviderComponent" where
  "sample_raw_component i requires = \<lparr>rc_id = i, rc_name = i, rc_description = None, rc_required = False,
     rc_default_enabled = True, rc_requires = requires, rc_conflicts = [],
     rc_files = [sample_raw_file (''mods/'' @ i @ ''.jar'')]\<rparr>"

definition sample_raw_manifest :: RawInstanceManifest where
  "sample_raw_manifest = \<lparr>im_format_version = 1, im_id = ''survival'', im_name = ''Survival'',
     im_description = None, im_revision = 7,
     im_minecraft = \<lparr>rm_version = ''1.20.4'', rm_loader = \<lparr>rl_kind = ''fabric'', rl_version = Some ''0.15.7''\<rparr>\<rparr>,
     im_java = Some \<lparr>rj_memory = Some \<lparr>jm_minimum_mb = 512, jm_recommended_mb = 2048, jm_maximum_mb = None\<rparr>\<rparr>,
     im_server = Some \<lparr>rs_address = ''play.example.org'', rs_port = 25565\<rparr>, im_authentication = None,
     im_files = [sample_raw_file ''config/a.toml''],
     im_components = [sample_raw_component ''sodium'' [], sample_raw_component ''iris'' [''sodium'']]\<rparr>"

definition sample_definition :: ProviderInstanceDefinition where
  "sample_definition = projr (im_validate sample_resolve 100 (InstanceId ''survival'') sample_raw_manifest)"

lemma sample_definition:
  "im_validate sample_resolve 100 (InstanceId ''survival'') sample_raw_manifest = Inr sample_definition"
proof -
  have "is_ok (im_validate sample_resolve 100 (InstanceId ''survival'') sample_raw_manifest)" by code_simp
  then show ?thesis by (auto simp: sample_definition_def is_ok_iff)
qed

section \<open>Properties\<close>

text \<open>C6: an accepted instance manifest has the expected identity and the declared revision, and its
  definition is well formed: safe and pairwise distinct file paths over the base files and all
  components, sizes within the limit, SHA-256 digests, distinct component ids, and references
  only to other declared components.\<close>

theorem im_validate_sound:
  assumes "im_validate resolve mx expected raw = Inr d"
  shows "pd_wf mx d \<and> pd_id d = expected \<and> iid_str (pd_id d) = im_id raw \<and> pd_revision d = im_revision raw"
  using im_validate_wf [OF assms] im_validate_identity [OF assms] by blast

theorem im_validate_sound_witness:
  "pd_wf 100 sample_definition \<and> pd_revision sample_definition = 7"
  using im_validate_sound [OF sample_definition] by (simp add: sample_raw_manifest_def)

text \<open>On the components of an accepted manifest, resolution either succeeds or reports a
  dependency cycle or a conflict; it never meets an unknown reference.\<close>

theorem validated_components_resolve:
  assumes "im_validate resolve mx expected raw = Inr d"
  shows "(\<exists>r. resolve_components (pd_components d) selections = Inr r) \<or>
    (\<exists>xs. resolve_components (pd_components d) selections = Inl (StaticProvider (ComponentDependencyCycle xs))) \<or>
    (\<exists>l r. resolve_components (pd_components d) selections = Inl (StaticProvider (ComponentConflict l r)))"
  using pd_wf_refs_known [OF im_validate_wf [OF assms]] resolve_cycle [of "pd_components d" selections]
    resolve_conflict [of "pd_components d" selections] resolve_ok [of "pd_components d" selections]
  by metis

text \<open>For an accepted manifest, building the local specification fails only when the local id
  is not a valid instance id or the Minecraft version is not a valid identifier: everything else
  \<open>InstanceSpec\<close> checks has been established by the manifest validation.\<close>

theorem local_spec_of_validated:
  assumes "im_validate resolve mx expected raw = Inr d"
  shows "is_ok (local_spec d local_id key) \<longleftrightarrow>
    iid_valid local_id \<and> is_ok (mc_new (pd_minecraft_version d))"
  using local_spec_validated [OF im_validate_wf [OF assms]] .

end
