(* ===== verification/ProviderUrls.thy ===== *)
theory ProviderUrls
  imports AtomicJson Manifest
begin

text \<open>
  Where provider resources may live (\<^verbatim>\<open>providers/service.rs\<close>): the URL policy for remote
  providers, the resolution of references inside a local provider, and the checks on local
  files.  Parsing and joining URLs (the \<open>url\<close> crate) and the DNS lookup are parameters; parsing of
  IP addresses is the standard library's and is modelled.
\<close>

section \<open>IP addresses\<close>

datatype IpAddr = V4 nat nat nat nat | V6 "nat list"

text \<open>
  \<open>Ipv4Addr::from_str\<close>: four decimal octets of at most three digits without a leading zero.
\<close>

definition parse_octet :: "string \<Rightarrow> nat option" where
  "parse_octet s =
     (if s = [] \<or> length s > 3 \<or> \<not> list_all is_ascii_digit s \<or> (length s > 1 \<and> hd s = CHR ''0'') then None
      else if digits_val s < 256 then Some (digits_val s) else None)"

definition parse_ipv4 :: "string \<Rightarrow> (nat \<times> nat \<times> nat \<times> nat) option" where
  "parse_ipv4 s =
     (case map parse_octet (split_on CHR ''.'' s) of
        [Some a, Some b, Some c, Some d] \<Rightarrow> Some (a, b, c, d)
      | _ \<Rightarrow> None)"

text \<open>
  \<open>Ipv6Addr::from_str\<close>: eight groups of one to four hexadecimal digits, the last two possibly an
  IPv4 address, and at most one \<open>::\<close> for at least one group of zeros.
\<close>

definition hex_val :: "char \<Rightarrow> nat" where
  "hex_val c = (if is_ascii_digit c then byte c - 48 else byte (lower_byte c) - 87)"

definition parse_group :: "string \<Rightarrow> nat option" where
  "parse_group s =
     (if s = [] \<or> length s > 4 \<or> \<not> list_all is_ascii_hexdigit s then None
      else Some (foldl (\<lambda>n c. 16 * n + hex_val c) 0 s))"

fun parse_groups :: "string list \<Rightarrow> nat list option" where
  "parse_groups [] = Some []"
| "parse_groups [g] =
     (case parse_group g of
        Some n \<Rightarrow> Some [n]
      | None \<Rightarrow> map_option (\<lambda>(a, b, c, d). [256 * a + b, 256 * c + d]) (parse_ipv4 g))"
| "parse_groups (g # gs) =
     (case parse_group g of None \<Rightarrow> None | Some n \<Rightarrow> map_option (\<lambda>ns. n # ns) (parse_groups gs))"

fun split_double_colon :: "string \<Rightarrow> (string \<times> string) option" where
  "split_double_colon (a # b # s) =
     (if a = CHR '':'' \<and> b = CHR '':'' then Some ([], s)
      else map_option (\<lambda>(x, y). (a # x, y)) (split_double_colon (b # s)))"
| "split_double_colon _ = None"

definition groups_of :: "string \<Rightarrow> nat list option" where
  "groups_of s = (if s = [] then Some [] else parse_groups (split_on CHR '':'' s))"

definition parse_ipv6 :: "string \<Rightarrow> nat list option" where
  "parse_ipv6 s =
     (case split_double_colon s of
        None \<Rightarrow> (case groups_of s of Some gs \<Rightarrow> if length gs = 8 then Some gs else None | None \<Rightarrow> None)
      | Some (a, b) \<Rightarrow>
          (case (groups_of a, groups_of b) of
             (Some ga, Some gb) \<Rightarrow>
               if length ga + length gb \<le> 7
               then Some (ga @ replicate (8 - length ga - length gb) 0 @ gb) else None
           | _ \<Rightarrow> None))"

definition parse_ip :: "string \<Rightarrow> IpAddr option" where
  "parse_ip s =
     (case parse_ipv4 s of
        Some (a, b, c, d) \<Rightarrow> Some (V4 a b c d)
      | None \<Rightarrow> map_option V6 (parse_ipv6 s))"

text \<open>\<open>Ipv4Addr::is_private\<close>, \<open>is_loopback\<close> and \<open>is_link_local\<close> are the ranges of RFC 1918, 127/8, 169.254/16.\<close>

fun is_private_v4 :: "nat \<times> nat \<times> nat \<times> nat \<Rightarrow> bool" where
  "is_private_v4 (a, b, c, d) =
     ((a = 10 \<or> (a = 172 \<and> 16 \<le> b \<and> b \<le> 31) \<or> (a = 192 \<and> b = 168))
      \<or> a = 127
      \<or> (a = 169 \<and> b = 254)
      \<or> (a = 0 \<and> b = 0 \<and> c = 0 \<and> d = 0)
      \<or> a = 0
      \<or> a \<ge> 224)"

definition is_private_v6 :: "nat list \<Rightarrow> bool" where
  "is_private_v6 segments =
     (segments = [0, 0, 0, 0, 0, 0, 0, 1] \<or> segments = [0, 0, 0, 0, 0, 0, 0, 0]
      \<or> and (of_nat (hd segments) :: u16) 0xfe00 = 0xfc00
      \<or> and (of_nat (hd segments) :: u16) 0xffc0 = 0xfe80)"

definition is_private_address :: "IpAddr \<Rightarrow> bool" where
  "is_private_address a = (case a of V4 a b c d \<Rightarrow> is_private_v4 (a, b, c, d) | V6 s \<Rightarrow> is_private_v6 s)"

section \<open>URL policy\<close>

text \<open>The settings the policy reads: \<open>ProviderSettings\<close> and two fields of \<open>DownloadConfig\<close>.\<close>

record UrlSettings =
  us_allow_insecure_http :: bool
  us_allowed_hosts :: "string list"
  us_allow_private_networks :: bool

definition safe_url :: "Url \<Rightarrow> string" where
  "safe_url u = url_scheme u @ ''://'' @ (case url_host u of None \<Rightarrow> ''<missing-host>'' | Some h \<Rightarrow> h) @ url_path u"

abbreviation url_policy :: "Url \<Rightarrow> string \<Rightarrow> Error" where
  "url_policy u reason \<equiv> StaticProvider (UrlPolicy (safe_url u) reason)"

definition url_host_or_empty :: "Url \<Rightarrow> string" where
  "url_host_or_empty u = (case url_host u of None \<Rightarrow> [] | Some h \<Rightarrow> h)"

definition forbidden_host :: "string \<Rightarrow> bool" where
  "forbidden_host host =
     (eq_ignore_ascii_case host ''localhost'' \<or> ends_with host ''.localhost''
      \<or> (case parse_ip host of None \<Rightarrow> False | Some a \<Rightarrow> is_private_address a))"

definition validate_remote_url_syntax :: "UrlSettings \<Rightarrow> Url \<Rightarrow> unit result" where
  "validate_remote_url_syntax s u =
     (let host = url_host_or_empty u in
      if \<not> (url_scheme u = ''https'' \<or> (url_scheme u = ''http'' \<and> us_allow_insecure_http s))
      then Inl (url_policy u ''HTTPS is required (HTTP is development-only)'')
      else if url_username u \<noteq> [] \<or> url_password u \<noteq> None \<or> url_host u = None
      then Inl (url_policy u ''userinfo is forbidden and a host is required'')
      else if url_query u \<noteq> None \<or> url_fragment u \<noteq> None
      then Inl (url_policy u ''query strings and fragments are forbidden in static provider URLs'')
      else if us_allowed_hosts s \<noteq> [] \<and> \<not> list_ex (\<lambda>a. eq_ignore_ascii_case a host) (us_allowed_hosts s)
      then Inl (url_policy u (''host `'' @ host @ ''` is not allowlisted''))
      else if \<not> us_allow_private_networks s \<and> forbidden_host host
      then Inl (url_policy u ''loopback, link-local, and private destinations are forbidden'')
      else Inr ())"

text \<open>\<open>validate_remote_access\<close>; the lookup of the host is a parameter.\<close>

definition validate_remote_access ::
    "(string \<Rightarrow> string + IpAddr list) \<Rightarrow> UrlSettings \<Rightarrow> Url \<Rightarrow> unit result" where
  "validate_remote_access lookup_host s u =
     res_bind (validate_remote_url_syntax s u) (\<lambda>_.
     if us_allow_private_networks s then Inr ()
     else res_bind (map_err (\<lambda>e. url_policy u (''host resolution failed: '' @ e)) (lookup_host (url_host_or_empty u))) (\<lambda>addresses.
     if list_ex is_private_address addresses
     then Inl (url_policy u ''DNS resolved to a loopback, link-local, or private address'')
     else Inr ()))"

section \<open>References\<close>

definition path_parent :: "path \<Rightarrow> path option" where
  "path_parent p = (if is_root p then None else Some (butlast p))"

definition path_strip_prefix :: "path \<Rightarrow> path \<Rightarrow> path option" where
  "path_strip_prefix root p = (if below root p then Some (drop (length root) p) else None)"

text \<open>The loop over the components of a reference.\<close>

fun resolve_components_of :: "string \<Rightarrow> string list \<Rightarrow> path \<Rightarrow> path result" where
  "resolve_components_of reference [] components = Inr components"
| "resolve_components_of reference (c # cs) components =
     (if c = [] \<or> c = ''.'' then resolve_components_of reference cs components
      else if c = ''..''
      then (if components = [] then Inl (StaticProvider (LocalPathEscape (path_components reference)))
            else resolve_components_of reference cs (butlast components))
      else res_bind (srp_new c) (\<lambda>_. resolve_components_of reference cs (components @ [c])))"

definition resolve_local :: "(string \<Rightarrow> string + Url) \<Rightarrow> path \<Rightarrow> path \<Rightarrow> string \<Rightarrow> ProviderResource result" where
  "resolve_local url_parse base_document root reference =
     (case url_parse reference of
        Inr u \<Rightarrow>
          if url_scheme u = ''http'' \<or> url_scheme u = ''https'' then Inr (RemoteResource u)
          else Inl (StaticProvider (UrlPolicy (url_text u)
                 ''local manifests may only reference local paths or HTTP(S) URLs''))
      | Inl _ \<Rightarrow>
          if starts_with reference ''/'' \<or> starts_with reference [CHR 0x5C]
             \<or> CHR 0x5C \<in> set reference \<or> CHR 0x00 \<in> set reference
          then Inl (invalid_manifest ''local resource references must use forward slashes'')
          else
          res_bind (ok_or (path_parent base_document)
             (invalid_manifest ''local provider document has no parent directory'')) (\<lambda>parent.
          res_bind (ok_or (path_strip_prefix root parent)
             (StaticProvider (LocalPathEscape base_document))) (\<lambda>base_relative.
          res_bind (resolve_components_of reference (split_on CHR ''/'' reference) base_relative) (\<lambda>components.
          if components = [] then Inl (StaticProvider (LocalPathEscape (path_components reference)))
          else Inr (LocalResource (foldl path_join root components) root)))))"

definition resolve_remote ::
    "(Url \<Rightarrow> string \<Rightarrow> string + Url) \<Rightarrow> UrlSettings \<Rightarrow> Url \<Rightarrow> string \<Rightarrow> ProviderResource result" where
  "resolve_remote url_join s base reference =
     res_bind (map_err (\<lambda>e. StaticProvider (UrlPolicy reference e)) (url_join base reference)) (\<lambda>u.
     res_bind (validate_remote_url_syntax s u) (\<lambda>_. Inr (RemoteResource u)))"

definition resolve_from_source ::
    "(string \<Rightarrow> string + Url) \<Rightarrow> (Url \<Rightarrow> string \<Rightarrow> string + Url) \<Rightarrow> UrlSettings \<Rightarrow> ProviderSource \<Rightarrow> string
      \<Rightarrow> ProviderResource result" where
  "resolve_from_source url_parse url_join s base reference =
     (case base of
        LocalSource p \<Rightarrow>
          res_bind (ok_or (path_parent p) (invalid_manifest ''local provider document has no parent directory'')) (\<lambda>root.
          resolve_local url_parse p root reference)
      | RemoteSource u \<Rightarrow> resolve_remote url_join s u reference)"

definition resolve_from_resource ::
    "(string \<Rightarrow> string + Url) \<Rightarrow> (Url \<Rightarrow> string \<Rightarrow> string + Url) \<Rightarrow> UrlSettings \<Rightarrow> ProviderResource \<Rightarrow> string
      \<Rightarrow> ProviderResource result" where
  "resolve_from_resource url_parse url_join s base reference =
     (case base of
        LocalResource p root \<Rightarrow> resolve_local url_parse p root reference
      | RemoteResource u \<Rightarrow> resolve_remote url_join s u reference)"

section \<open>Local documents\<close>

definition read_bounded_real_file :: "path \<Rightarrow> u64 \<Rightarrow> string io" where
  "read_bounded_real_file p limit =
     io_bind (fs_symlink_metadata p) (\<lambda>n. case n of
         FileNode c \<Rightarrow>
           if length c > unat limit then io_fail (StaticProvider (DocumentTooLarge limit))
           else io_bind (fs_read p) (\<lambda>bytes.
             let taken = take (Suc (unat limit)) bytes in
             if length taken > unat limit then io_fail (StaticProvider (DocumentTooLarge limit))
             else io_return taken)
       | _ \<Rightarrow> io_fail (UnsafeFilesystemEntry p ''provider document must be a real file''))"

fun validate_local_components :: "path \<Rightarrow> string list \<Rightarrow> unit io" where
  "validate_local_components current [] = io_return ()"
| "validate_local_components current (c # cs) =
     (let here = current @ [c] in
      io_bind (fs_symlink_metadata here) (\<lambda>n.
      if (cs = [] \<and> \<not> is_file_node n) \<or> (cs \<noteq> [] \<and> n \<noteq> DirNode)
      then io_fail (UnsafeFilesystemEntry here ''local provider resources cannot traverse symbolic links'')
      else validate_local_components here cs))"

definition validate_local_resource :: "path \<Rightarrow> path \<Rightarrow> unit io" where
  "validate_local_resource root p =
     io_bind (io_lift (ok_or (path_strip_prefix root p) (StaticProvider (LocalPathEscape p)))) (\<lambda>relative.
     io_bind (fs_symlink_metadata root) (\<lambda>n.
     if n \<noteq> DirNode
     then io_fail (UnsafeFilesystemEntry root ''local provider root must be a real directory'')
     else validate_local_components root relative))"

section \<open>Lemmas\<close>

text \<open>Path components as a safe relative path has them.\<close>

definition plain_component :: "string \<Rightarrow> bool" where
  "plain_component c \<longleftrightarrow> c \<noteq> [] \<and> c \<noteq> ''.'' \<and> c \<noteq> ''..'' \<and> CHR ''/'' \<notin> set c"

definition plain_below :: "path \<Rightarrow> path \<Rightarrow> bool" where
  "plain_below root p \<longleftrightarrow> (\<exists>rel. rel \<noteq> [] \<and> p = root @ rel \<and> list_all plain_component rel)"

lemma plain_below_resolves:
  "plain_below root p \<Longrightarrow> \<exists>rel. rel \<noteq> [] \<and> resolve_dots p = resolve_dots root @ rel"
  by (auto simp: plain_below_def plain_component_def list_all_iff resolve_dots_append_plain)

lemma srp_new_component:
  assumes "srp_new c = Inr p" "CHR ''/'' \<notin> set c"
  shows "plain_component c"
proof -
  have "c \<in> set (split_on CHR ''/'' c)" using assms(2) by (simp add: split_on_no_occurrence)
  then show ?thesis
    using assms validate_relative_path_components [of c "()" c] by (auto simp: srp_new_Inr plain_component_def)
qed

lemma resolve_components_plain:
  "resolve_components_of reference cs components = Inr components' \<Longrightarrow>
   list_all (\<lambda>c. CHR ''/'' \<notin> set c) cs \<Longrightarrow> list_all plain_component components \<Longrightarrow>
   list_all plain_component components'"
proof (induction reference cs components rule: resolve_components_of.induct)
  case (2 reference c cs components)
  show ?case
  proof (cases "c = [] \<or> c = ''.'' \<or> c = ''..''")
    case True
    then show ?thesis using 2 by (auto split: if_splits simp: list_all_iff dest: in_set_butlastD)
  next
    case False
    then obtain p where p: "srp_new c = Inr p" "resolve_components_of reference cs (components @ [c]) = Inr components'"
      using 2(4) by auto
    moreover have "plain_component c" using srp_new_component [OF p(1)] 2(5) by simp
    ultimately show ?thesis using 2(3) [OF _ _ p(2)] False 2(5,6) by simp
  qed
qed simp

lemma resolve_local_plain:
  assumes r: "resolve_local url_parse base root reference = Inr (LocalResource p root')"
    and b: "plain_below root base"
  shows "root' = root \<and> plain_below root p"
proof -
  from b obtain rel where rel: "rel \<noteq> []" "base = root @ rel" "list_all plain_component rel"
    by (auto simp: plain_below_def)
  from r obtain parent base_relative components where *:
    "path_parent base = Some parent" "path_strip_prefix root parent = Some base_relative"
    "resolve_components_of reference (split_on CHR ''/'' reference) base_relative = Inr components"
    "components \<noteq> []" "p = foldl path_join root components" "root' = root"
    by (auto simp: resolve_local_def split: sum.splits if_splits)
  have "parent = root @ butlast rel" using *(1) rel by (auto simp: path_parent_def butlast_append split: if_splits)
  with *(2) have "base_relative = butlast rel" by (auto simp: path_strip_prefix_def below_def)
  then have br: "list_all plain_component base_relative" using rel(3) by (auto simp: list_all_iff dest: in_set_butlastD)
  have "list_all (\<lambda>c. CHR ''/'' \<notin> set c) (split_on CHR ''/'' reference)"
    using split_on_no_sep by (auto simp: list_all_iff)
  from resolve_components_plain [OF *(3) this br] have c: "list_all plain_component components" .
  then have "foldl path_join root components = root @ components"
    by (intro foldl_path_join) (auto simp: list_all_iff plain_component_def)
  with c *(4-6) show ?thesis by (auto simp: plain_below_def)
qed

lemma parse_octet_bracket: "parse_octet (CHR ''['' # s) = None"
  by (simp add: parse_octet_def is_ascii_digit_def byte_def)

lemma parse_group_bracket: "parse_group (CHR ''['' # s) = None"
  by (simp add: parse_group_def is_ascii_hexdigit_def is_ascii_digit_def byte_def)

lemma split_on_Cons_first: "x \<noteq> c \<Longrightarrow> \<exists>p ps. split_on c (x # s) = (x # p) # ps"
  by (cases "split_on c s") auto

lemma parse_ipv4_bracket: "parse_ipv4 (CHR ''['' # s) = None"
proof -
  obtain p ps where "split_on CHR ''.'' (CHR ''['' # s) = (CHR ''['' # p) # ps"
    using split_on_Cons_first [of "CHR ''[''" "CHR ''.''" s] by auto
  then show ?thesis by (simp add: parse_ipv4_def parse_octet_bracket)
qed

lemma groups_of_bracket: "groups_of (CHR ''['' # s) = None"
proof -
  obtain p ps where "split_on CHR '':'' (CHR ''['' # s) = (CHR ''['' # p) # ps"
    using split_on_Cons_first [of "CHR ''[''" "CHR '':''" s] by auto
  then show ?thesis
    by (cases ps) (simp_all add: groups_of_def parse_group_bracket parse_ipv4_bracket)
qed

lemma parse_ip_bracket: "parse_ip (CHR ''['' # s) = None"
proof -
  have "split_double_colon (CHR ''['' # s) = Some (a, b) \<Longrightarrow> \<exists>x. a = CHR ''['' # x" for a b
    by (cases s) auto
  then have "parse_ipv6 (CHR ''['' # s) = None"
    by (cases "split_double_colon (CHR ''['' # s)") (auto simp: parse_ipv6_def groups_of_bracket)
  then show ?thesis by (simp add: parse_ip_def parse_ipv4_bracket)
qed

lemma forbidden_host_bracket: "\<not> forbidden_host (''['' @ s @ '']'')"
proof -
  have last: "ends_with x p \<Longrightarrow> p \<noteq> [] \<Longrightarrow> last x = last p" for x p :: string
    by (metis append_take_drop_id ends_with_def last_appendR)
  have "\<not> ends_with (''['' @ s @ '']'') ''.localhost''"
    using last [of "''['' @ s @ '']''" "''.localhost''"] by auto
  moreover have "\<not> eq_ignore_ascii_case (''['' @ s @ '']'') ''localhost''"
    by (simp add: eq_ignore_ascii_case_def to_ascii_lowercase_def lower_byte_def is_ascii_uppercase_def byte_def)
  ultimately show ?thesis by (simp add: forbidden_host_def parse_ip_bracket)
qed

section \<open>Properties\<close>

text \<open>C5: a local reference never leaves the provider's root: whatever the reference says, the
  resource it resolves to lies strictly below the root, through components that are neither empty
  nor \<open>.\<close> nor \<open>..\<close>, so that it can serve as the base of further references.\<close>

theorem resolve_local_contained:
  assumes "resolve_local url_parse base root reference = Inr (LocalResource p root')" "plain_below root base"
  shows "root' = root \<and> plain_below root p \<and> (\<exists>rel. rel \<noteq> [] \<and> resolve_dots p = resolve_dots root @ rel)"
  using resolve_local_plain [OF assms] plain_below_resolves by blast

theorem resolve_local_contained_witness:
  "resolve_local (\<lambda>_. Inl ''relative'') [''srv'', ''index.json''] [''srv''] ''files/./../a.jar''
     = Inr (LocalResource [''srv'', ''a.jar''] [''srv'']) \<and> plain_below [''srv''] [''srv'', ''a.jar'']"
proof -
  have r: "resolve_local (\<lambda>_. Inl ''relative'') [''srv'', ''index.json''] [''srv''] ''files/./../a.jar''
     = Inr (LocalResource [''srv'', ''a.jar''] [''srv''])" by code_simp
  have "plain_below [''srv''] [''srv'', ''index.json'']"
    unfolding plain_below_def by (rule exI [of _ "[''index.json'']"]) (simp add: plain_component_def)
  from resolve_local_contained [OF r this] r show ?thesis by simp
qed

text \<open>The URL policy accepts exactly the URLs with an allowed scheme, a host and no user
  information, without query and fragment, whose host is on the allow list if there is one, and
  is not local or private unless private networks are allowed.\<close>

theorem validate_remote_url_syntax_iff:
  "validate_remote_url_syntax s u = Inr () \<longleftrightarrow>
     (url_scheme u = ''https'' \<or> url_scheme u = ''http'' \<and> us_allow_insecure_http s) \<and>
     url_username u = [] \<and> url_password u = None \<and> url_query u = None \<and> url_fragment u = None \<and>
     (\<exists>host. url_host u = Some host \<and>
        (us_allowed_hosts s = [] \<or> (\<exists>a \<in> set (us_allowed_hosts s). eq_ignore_ascii_case a host)) \<and>
        \<not> (forbidden_host host \<and> us_allow_private_networks s = False))"
  by (cases "url_host u") (auto simp: validate_remote_url_syntax_def Let_def list_ex_iff url_host_or_empty_def)

text \<open>The policy does not recognise IPv6 addresses: a host in the bracketed form in which a URL
  carries an IPv6 literal is never parsed as an address, so that \<open>https://[::1]/\<close> passes although
  loopback destinations are forbidden.\<close>

theorem ipv6_loopback_passes_policy:
  "forbidden_host (''['' @ s @ '']'') = False \<and>
   validate_remote_url_syntax
     \<lparr>us_allow_insecure_http = False, us_allowed_hosts = [], us_allow_private_networks = False\<rparr>
     \<lparr>url_text = ''https://[::1]/'', url_scheme = ''https'', url_username = [], url_password = None,
      url_host = Some ''[::1]'', url_path = ''/'', url_query = None, url_fragment = None\<rparr> = Inr ()"
  using forbidden_host_bracket [of s] forbidden_host_bracket [of "''::1''"]
  by (simp add: validate_remote_url_syntax_def url_host_or_empty_def)

end
