(* ===== verification/Rollback.thy ===== *)
theory Rollback
  imports Trust ProviderUrls
begin

text \<open>
  The committed state of a provider and the protection against downgrades
  (\<^verbatim>\<open>providers/service.rs\<close>): registrations, snapshots, and the high-water marks of accepted
  revisions in \<^verbatim>\<open>rollback.json\<close>.

  \<open>enforce_revisions\<close> is the decision on a verified snapshot and \<open>record_revisions\<close> the update of the marks;
  \<open>enforce_and_record_revisions\<close> runs them on the stored document.
\<close>

section \<open>Data\<close>

record ProviderRegistration =
  pr_id :: ProviderId
  pr_source :: ProviderSource
  pr_added :: u64
  pr_signature_policy :: SignaturePolicy
  pr_trusted_key_id :: "KeyId option"

record ProviderIdentity =
  id_id :: ProviderId
  id_name :: string
  id_description :: "string option"

record ProviderHttpMetadata =
  hm_url :: Url
  hm_etag :: "string option"
  hm_last_modified :: "string option"
  hm_retrieved :: u64
  hm_content_sha256 :: string

record ProviderVerification =
  pv_signature_status :: SignatureStatus
  pv_algorithm :: "SignatureAlgorithm option"
  pv_key_id :: "KeyId option"
  pv_signature :: "string option"
  pv_content_sha256 :: string
  pv_verified :: "u64 option"
  pv_revision :: "u64 option"
  pv_document_base64 :: string
  pv_envelope :: "SignatureEnvelope option"

record CachedManifestDocument =
  cm_document_base64 :: string
  cm_content_sha256 :: string
  cm_revision :: u64

record ProviderSnapshot =
  sn_format_version :: u32
  sn_registration_id :: ProviderId
  sn_provider :: ProviderIdentity
  sn_source :: ProviderSource
  sn_synced :: u64
  sn_instances :: "(InstanceId, ProviderInstanceDefinition) btree"
  sn_index_http :: "ProviderHttpMetadata option"
  sn_instance_http :: "(InstanceId, ProviderHttpMetadata) btree"
  sn_provider_revision :: "u64 option"
  sn_verification :: ProviderVerification
  sn_manifest_documents :: "(InstanceId, CachedManifestDocument) btree"

record RegistryDocument =
  rd_format_version :: u32
  rd_providers :: "(ProviderId, ProviderRegistration) btree"

record RevisionHighWater =
  rh_revision :: u64
  rh_content_sha256 :: string

record ProviderHighWater =
  ph_revision :: u64
  ph_content_sha256 :: string
  ph_instances :: "(InstanceId, RevisionHighWater) btree"

record RollbackDocument =
  rb_format_version :: u32
  rb_providers :: "(ProviderId, ProviderHighWater) btree"

definition REGISTRY_FORMAT_VERSION :: u32 where "REGISTRY_FORMAT_VERSION = 1"
definition SNAPSHOT_FORMAT_VERSION :: u32 where "SNAPSHOT_FORMAT_VERSION = 1"
definition rollback_format_version :: u32 where "rollback_format_version = 1"

definition registry_default :: RegistryDocument where
  "registry_default = \<lparr>rd_format_version = REGISTRY_FORMAT_VERSION, rd_providers = []\<rparr>"

definition rollback_default :: RollbackDocument where
  "rollback_default = \<lparr>rb_format_version = rollback_format_version, rb_providers = []\<rparr>"

section \<open>The decision\<close>

definition snapshot_content :: "ProviderSnapshot \<Rightarrow> InstanceId \<Rightarrow> string option" where
  "snapshot_content snapshot i = map_option cm_content_sha256 (bt_get (sn_manifest_documents snapshot) i)"

text \<open>The loop over the instances of the snapshot.\<close>

fun check_instance_revisions ::
    "ProviderId \<Rightarrow> ProviderSnapshot \<Rightarrow> bool \<Rightarrow> ProviderHighWater
      \<Rightarrow> (InstanceId \<times> ProviderInstanceDefinition) list \<Rightarrow> unit result" where
  "check_instance_revisions pid snapshot allow highest [] = Inr ()"
| "check_instance_revisions pid snapshot allow highest ((i, d) # rest) =
     (case bt_get (ph_instances highest) i of
        None \<Rightarrow> check_instance_revisions pid snapshot allow highest rest
      | Some h \<Rightarrow>
          if pd_revision d < rh_revision h \<and> \<not> allow
          then Inl (Trust (ManifestRollbackDetected (pid_str pid @ '':'' @ iid_str i) (pd_revision d) (rh_revision h)))
          else
          let content = (case snapshot_content snapshot i of None \<Rightarrow> [] | Some c \<Rightarrow> c) in
          if pd_revision d = rh_revision h \<and> content \<noteq> rh_content_sha256 h \<and> \<not> allow
          then Inl (Trust SignatureInvalid)
          else check_instance_revisions pid snapshot allow highest rest)"

definition enforce_revisions ::
    "ProviderId \<Rightarrow> ProviderSnapshot \<Rightarrow> u64 \<Rightarrow> bool \<Rightarrow> RollbackDocument \<Rightarrow> unit result" where
  "enforce_revisions pid snapshot revision allow doc =
     (case bt_get (rb_providers doc) pid of
        None \<Rightarrow> Inr ()
      | Some highest \<Rightarrow>
          if revision < ph_revision highest \<and> \<not> allow
          then Inl (Trust (ManifestRollbackDetected (pid_str pid) revision (ph_revision highest)))
          else if revision = ph_revision highest
             \<and> pv_content_sha256 (sn_verification snapshot) \<noteq> ph_content_sha256 highest \<and> \<not> allow
          then Inl (Trust SignatureInvalid)
          else check_instance_revisions pid snapshot allow highest (sn_instances snapshot))"

section \<open>The marks\<close>

text \<open>The \<open>match\<close> of the recording loop: a mark is created or raised, never lowered.\<close>

definition raised_marks ::
    "InstanceId \<Rightarrow> RevisionHighWater \<Rightarrow> (InstanceId, RevisionHighWater) btree \<Rightarrow> (InstanceId, RevisionHighWater) btree" where
  "raised_marks i new marks =
     (case bt_get marks i of
        Some h \<Rightarrow> if rh_revision new > rh_revision h then bt_update i (\<lambda>_. new) marks else marks
      | None \<Rightarrow> bt_insert i new marks)"

fun record_instance_revisions ::
    "ProviderSnapshot \<Rightarrow> (InstanceId \<times> ProviderInstanceDefinition) list \<Rightarrow> (InstanceId, RevisionHighWater) btree
      \<Rightarrow> (InstanceId, RevisionHighWater) btree result" where
  "record_instance_revisions snapshot [] marks = Inr marks"
| "record_instance_revisions snapshot ((i, d) # rest) marks =
     res_bind (ok_or (snapshot_content snapshot i)
        (invalid_manifest (''verified manifest bytes missing for `'' @ iid_str i @ ''`''))) (\<lambda>content.
     record_instance_revisions snapshot rest
       (raised_marks i \<lparr>rh_revision = pd_revision d, rh_content_sha256 = content\<rparr> marks))"

definition record_revisions ::
    "ProviderId \<Rightarrow> ProviderSnapshot \<Rightarrow> u64 \<Rightarrow> RollbackDocument \<Rightarrow> RollbackDocument result" where
  "record_revisions pid snapshot revision doc =
     (let entry = (case bt_get (rb_providers doc) pid of
                     Some e \<Rightarrow> e
                   | None \<Rightarrow> \<lparr>ph_revision = revision,
                              ph_content_sha256 = pv_content_sha256 (sn_verification snapshot),
                              ph_instances = []\<rparr>);
          entry = (if revision > ph_revision entry
                   then entry\<lparr>ph_revision := revision,
                              ph_content_sha256 := pv_content_sha256 (sn_verification snapshot)\<rparr>
                   else entry)
      in res_bind (record_instance_revisions snapshot (sn_instances snapshot) (ph_instances entry)) (\<lambda>marks.
         Inr (doc\<lparr>rb_providers := bt_insert pid (entry\<lparr>ph_instances := marks\<rparr>) (rb_providers doc)\<rparr>)))"

definition accept_revisions ::
    "ProviderId \<Rightarrow> ProviderSnapshot \<Rightarrow> bool \<Rightarrow> RollbackDocument \<Rightarrow> RollbackDocument result" where
  "accept_revisions pid snapshot allow doc =
     res_bind (ok_or (sn_provider_revision snapshot)
        (invalid_manifest ''verified snapshot has no provider revision'')) (\<lambda>revision.
     res_bind (enforce_revisions pid snapshot revision allow doc) (\<lambda>_.
     record_revisions pid snapshot revision doc))"

section \<open>On disk\<close>

definition load_with_previous ::
    "'doc codec \<Rightarrow> path \<Rightarrow> ('doc \<Rightarrow> u32) \<Rightarrow> u32 \<Rightarrow> string \<Rightarrow> 'doc \<Rightarrow> 'doc io" where
  "load_with_previous js p version expected kind default_doc =
     io_bind (io_catch (io_bind (read_with_previous p) (\<lambda>bytes. io_return (Some bytes)))
                (\<lambda>e. if is_not_found e then io_return None else io_fail e)) (\<lambda>found.
     case found of
       None \<Rightarrow> io_return default_doc
     | Some bytes \<Rightarrow>
         io_bind (io_lift (map_err Error.Json (decode_json js bytes))) (\<lambda>doc.
         if version doc \<noteq> expected then io_fail (UnsupportedFormat kind (version doc))
         else io_return doc))"

definition load_rollback_state :: "RollbackDocument codec \<Rightarrow> path \<Rightarrow> RollbackDocument io" where
  "load_rollback_state js root =
     load_with_previous js (root @ [''rollback.json'']) rb_format_version rollback_format_version
       ''provider rollback state'' rollback_default"

definition load_registry :: "RegistryDocument codec \<Rightarrow> path \<Rightarrow> RegistryDocument io" where
  "load_registry js root =
     load_with_previous js (root @ [''registry.json'']) rd_format_version REGISTRY_FORMAT_VERSION
       ''provider registry'' registry_default"

definition write_registry :: "RegistryDocument codec \<Rightarrow> path \<Rightarrow> RegistryDocument \<Rightarrow> unit io" where
  "write_registry js root doc =
     service_atomic_json root [''registry.json''] (map_err Error.Json (encode_json js doc))"

definition write_snapshot :: "ProviderSnapshot codec \<Rightarrow> path \<Rightarrow> ProviderId \<Rightarrow> ProviderSnapshot \<Rightarrow> unit io" where
  "write_snapshot js root i snapshot =
     service_atomic_json root [''snapshots'', pid_str i @ ''.json''] (map_err Error.Json (encode_json js snapshot))"

text \<open>The rejection is announced before the error is returned.\<close>

definition announce_rollback :: "ProviderId \<Rightarrow> unit result \<Rightarrow> unit io" where
  "announce_rollback pid r =
     (case r of
        Inl (Trust (ManifestRollbackDetected subject received highest)) \<Rightarrow>
          io_bind (emit ''ProviderRollbackRejected''
              [pid_str pid, show_nat (unat received), show_nat (unat highest)]) (\<lambda>_. io_lift r)
      | _ \<Rightarrow> io_lift r)"

definition enforce_and_record_revisions ::
    "RollbackDocument codec \<Rightarrow> path \<Rightarrow> ProviderId \<Rightarrow> ProviderSnapshot \<Rightarrow> bool \<Rightarrow> unit io" where
  "enforce_and_record_revisions js root pid snapshot allow =
     with_lock ''providers:rollback''
       (io_bind (io_lift (ok_or (sn_provider_revision snapshot)
            (invalid_manifest ''verified snapshot has no provider revision''))) (\<lambda>revision.
        io_bind (load_rollback_state js root) (\<lambda>doc.
        io_bind (announce_rollback pid (enforce_revisions pid snapshot revision allow doc)) (\<lambda>_.
        io_bind (io_lift (record_revisions pid snapshot revision doc)) (\<lambda>doc'.
        service_atomic_json root [''rollback.json''] (map_err Error.Json (encode_json js doc')))))))"

section \<open>Lemmas\<close>

definition rb_wf :: "RollbackDocument \<Rightarrow> bool" where
  "rb_wf doc \<longleftrightarrow> bt_wf (rb_providers doc) \<and>
     (\<forall>pid e. bt_get (rb_providers doc) pid = Some e \<longrightarrow> bt_wf (ph_instances e))"

text \<open>The order of high-water marks: nothing recorded is lost or lowered.\<close>

definition marks_le :: "(InstanceId, RevisionHighWater) btree \<Rightarrow> (InstanceId, RevisionHighWater) btree \<Rightarrow> bool" where
  "marks_le m m' \<longleftrightarrow> (\<forall>i h. bt_get m i = Some h \<longrightarrow> (\<exists>h'. bt_get m' i = Some h' \<and> rh_revision h \<le> rh_revision h'))"

definition high_water_le :: "RollbackDocument \<Rightarrow> RollbackDocument \<Rightarrow> bool" where
  "high_water_le a b \<longleftrightarrow> (\<forall>pid e. bt_get (rb_providers a) pid = Some e \<longrightarrow>
     (\<exists>e'. bt_get (rb_providers b) pid = Some e' \<and> ph_revision e \<le> ph_revision e' \<and>
        marks_le (ph_instances e) (ph_instances e')))"

lemma marks_le_refl [simp]: "marks_le m m"
  by (auto simp: marks_le_def)

lemma marks_le_trans: "marks_le a b \<Longrightarrow> marks_le b c \<Longrightarrow> marks_le a c"
  unfolding marks_le_def by (meson order_trans)

lemma high_water_le_refl [simp]: "high_water_le a a"
  by (auto simp: high_water_le_def)

lemma high_water_le_trans: "high_water_le a b \<Longrightarrow> high_water_le b c \<Longrightarrow> high_water_le a c"
  unfolding high_water_le_def by (meson marks_le_trans order_trans)

lemma check_instance_revisions_Inr:
  "check_instance_revisions pid snapshot False highest ds = Inr u \<longleftrightarrow>
     (\<forall>(i, d) \<in> set ds. \<forall>h. bt_get (ph_instances highest) i = Some h \<longrightarrow>
        rh_revision h \<le> pd_revision d \<and>
        (pd_revision d = rh_revision h \<longrightarrow>
           (case snapshot_content snapshot i of None \<Rightarrow> [] | Some c \<Rightarrow> c) = rh_content_sha256 h))"
proof (induction pid snapshot False highest ds rule: check_instance_revisions.induct)
  case (2 pid snapshot highest i d rest)
  show ?case
  proof (cases "bt_get (ph_instances highest) i")
    case None
    with 2(1) show ?thesis by simp
  next
    case (Some h)
    with 2(2) [OF Some] show ?thesis by (auto simp: Let_def not_less)
  qed
qed simp

lemma raised_marks:
  assumes "bt_wf marks"
  shows "bt_wf (raised_marks i new marks)" "marks_le marks (raised_marks i new marks)"
    "\<exists>h. bt_get (raised_marks i new marks) i = Some h \<and> rh_revision new \<le> rh_revision h"
  using assms
  by (auto simp: raised_marks_def marks_le_def bt_get_insert bt_get_update split: option.splits)

lemma record_instance_revisions_Inr:
  "record_instance_revisions snapshot ds marks = Inr marks' \<Longrightarrow> bt_wf marks \<Longrightarrow>
     bt_wf marks' \<and> marks_le marks marks' \<and>
     (\<forall>(i, d) \<in> set ds. \<exists>h. bt_get marks' i = Some h \<and> pd_revision d \<le> rh_revision h)"
proof (induction snapshot ds marks rule: record_instance_revisions.induct)
  case (2 snapshot i d rest marks)
  from 2(2) obtain content where c: "snapshot_content snapshot i = Some content"
    and r: "record_instance_revisions snapshot rest
      (raised_marks i \<lparr>rh_revision = pd_revision d, rh_content_sha256 = content\<rparr> marks) = Inr marks'"
    by auto
  let ?m = "raised_marks i \<lparr>rh_revision = pd_revision d, rh_content_sha256 = content\<rparr> marks"
  note m = raised_marks [OF 2(3), of i "\<lparr>rh_revision = pd_revision d, rh_content_sha256 = content\<rparr>"]
  have ih: "bt_wf marks'" "marks_le ?m marks'"
    "\<forall>(i, d) \<in> set rest. \<exists>h. bt_get marks' i = Some h \<and> pd_revision d \<le> rh_revision h"
    using 2(1) [OF r m(1)] by blast+
  have "\<exists>h. bt_get marks' i = Some h \<and> pd_revision d \<le> rh_revision h"
  proof -
    obtain h where h: "bt_get ?m i = Some h" "pd_revision d \<le> rh_revision h" using m(3) by auto
    then obtain h' where "bt_get marks' i = Some h'" "rh_revision h \<le> rh_revision h'"
      using ih(2) unfolding marks_le_def by blast
    with h(2) show ?thesis by auto
  qed
  with ih marks_le_trans [OF m(2) ih(2)] show ?case by simp
qed simp

lemma record_revisions_Inr:
  assumes r: "record_revisions pid snapshot revision doc = Inr doc'" and wf: "rb_wf doc"
  shows "rb_wf doc' \<and> high_water_le doc doc' \<and>
    (\<forall>q. q \<noteq> pid \<longrightarrow> bt_get (rb_providers doc') q = bt_get (rb_providers doc) q) \<and>
    (\<exists>e. bt_get (rb_providers doc') pid = Some e \<and> revision \<le> ph_revision e \<and>
       (\<forall>(i, d) \<in> set (sn_instances snapshot). \<exists>h. bt_get (ph_instances e) i = Some h \<and> pd_revision d \<le> rh_revision h))"
proof -
  define e0 where "e0 = (case bt_get (rb_providers doc) pid of Some e \<Rightarrow> e
     | None \<Rightarrow> \<lparr>ph_revision = revision, ph_content_sha256 = pv_content_sha256 (sn_verification snapshot), ph_instances = []\<rparr>)"
  define e1 where "e1 = (if revision > ph_revision e0
     then e0\<lparr>ph_revision := revision, ph_content_sha256 := pv_content_sha256 (sn_verification snapshot)\<rparr> else e0)"
  have wf0: "bt_wf (rb_providers doc)" using wf by (simp add: rb_wf_def)
  from r obtain marks where marks: "record_instance_revisions snapshot (sn_instances snapshot) (ph_instances e1) = Inr marks"
    and doc': "doc' = doc\<lparr>rb_providers := bt_insert pid (e1\<lparr>ph_instances := marks\<rparr>) (rb_providers doc)\<rparr>"
    unfolding record_revisions_def Let_def e0_def [symmetric] e1_def [symmetric] by auto
  have inst: "ph_instances e1 = ph_instances e0" and rev: "revision \<le> ph_revision e1" "ph_revision e0 \<le> ph_revision e1"
    by (auto simp: e1_def not_less)
  have "bt_wf (ph_instances e0)" using wf by (auto simp: rb_wf_def e0_def split: option.split)
  then have m: "bt_wf marks" "marks_le (ph_instances e0) marks"
    "\<forall>(i, d) \<in> set (sn_instances snapshot). \<exists>h. bt_get marks i = Some h \<and> pd_revision d \<le> rh_revision h"
    using record_instance_revisions_Inr [OF marks] unfolding inst by auto
  have get: "bt_get (rb_providers doc') q = (if q = pid then Some (e1\<lparr>ph_instances := marks\<rparr>) else bt_get (rb_providers doc) q)" for q
    by (simp add: doc' bt_get_insert [OF wf0])
  have old: "bt_get (rb_providers doc) pid = Some e \<Longrightarrow> e = e0" for e by (simp add: e0_def)
  have "bt_wf (rb_providers doc')" using wf0 by (simp add: doc')
  then have "rb_wf doc'" using wf m(1) unfolding rb_wf_def get by auto
  moreover have "high_water_le doc doc'"
    unfolding high_water_le_def get
  proof (intro allI impI)
    fix q e assume q: "bt_get (rb_providers doc) q = Some e"
    show "\<exists>e'. (if q = pid then Some (e1\<lparr>ph_instances := marks\<rparr>) else bt_get (rb_providers doc) q) = Some e' \<and>
        ph_revision e \<le> ph_revision e' \<and> marks_le (ph_instances e) (ph_instances e')"
      using q old [of e] m(2) rev(2) by (cases "q = pid") auto
  qed
  moreover have "\<exists>e. bt_get (rb_providers doc') pid = Some e \<and> revision \<le> ph_revision e \<and>
       (\<forall>(i, d) \<in> set (sn_instances snapshot). \<exists>h. bt_get (ph_instances e) i = Some h \<and> pd_revision d \<le> rh_revision h)"
    using m(3) rev(1) by (simp add: get)
  ultimately show ?thesis by (simp add: get)
qed

text \<open>A history of accepted snapshots.\<close>

fun accept_all :: "(ProviderId \<times> ProviderSnapshot \<times> bool) list \<Rightarrow> RollbackDocument \<Rightarrow> RollbackDocument result" where
  "accept_all [] doc = Inr doc"
| "accept_all ((pid, snapshot, allow) # rest) doc =
     res_bind (accept_revisions pid snapshot allow doc) (\<lambda>doc'. accept_all rest doc')"

text \<open>What a mark says of a snapshot it covers.\<close>

definition covered :: "ProviderId \<Rightarrow> ProviderSnapshot \<Rightarrow> RollbackDocument \<Rightarrow> bool" where
  "covered pid snapshot doc \<longleftrightarrow> (\<exists>e. bt_get (rb_providers doc) pid = Some e \<and>
     (\<forall>r. sn_provider_revision snapshot = Some r \<longrightarrow> r \<le> ph_revision e) \<and>
     (\<forall>(i, d) \<in> set (sn_instances snapshot). \<exists>h. bt_get (ph_instances e) i = Some h \<and> pd_revision d \<le> rh_revision h))"

lemma covered_mono:
  assumes "covered pid s a" "high_water_le a b"
  shows "covered pid s b"
proof -
  from assms(1) obtain e where e: "bt_get (rb_providers a) pid = Some e"
    "\<forall>r. sn_provider_revision s = Some r \<longrightarrow> r \<le> ph_revision e"
    "\<forall>(i, d) \<in> set (sn_instances s). \<exists>h. bt_get (ph_instances e) i = Some h \<and> pd_revision d \<le> rh_revision h"
    by (auto simp: covered_def)
  from assms(2) e(1) obtain e' where e': "bt_get (rb_providers b) pid = Some e'" "ph_revision e \<le> ph_revision e'"
    "marks_le (ph_instances e) (ph_instances e')" by (auto simp: high_water_le_def)
  have "\<exists>h. bt_get (ph_instances e') i = Some h \<and> pd_revision d \<le> rh_revision h"
    if id: "(i, d) \<in> set (sn_instances s)" for i d
  proof -
    obtain h where "bt_get (ph_instances e) i = Some h" "pd_revision d \<le> rh_revision h" using e(3) id by blast
    with e'(3) show ?thesis unfolding marks_le_def by (meson order_trans)
  qed
  moreover have "\<forall>r. sn_provider_revision s = Some r \<longrightarrow> r \<le> ph_revision e'" using e(2) e'(2) by auto
  ultimately show ?thesis using e'(1) unfolding covered_def by blast
qed

lemma accept_revisions_Inr:
  assumes "accept_revisions pid snapshot allow doc = Inr doc'" "rb_wf doc"
  shows "rb_wf doc' \<and> high_water_le doc doc' \<and> covered pid snapshot doc'"
proof -
  from assms(1) obtain r where r: "sn_provider_revision snapshot = Some r" "record_revisions pid snapshot r doc = Inr doc'"
    by (auto simp: accept_revisions_def)
  have "covered pid snapshot doc'"
    using record_revisions_Inr [OF r(2) assms(2)] r(1) unfolding covered_def by auto
  with record_revisions_Inr [OF r(2) assms(2)] show ?thesis by blast
qed


lemma accept_all_Inr:
  "accept_all hist doc = Inr doc' \<Longrightarrow> rb_wf doc \<Longrightarrow>
   rb_wf doc' \<and> high_water_le doc doc' \<and> (\<forall>(pid, s, a) \<in> set hist. covered pid s doc')"
proof (induction hist doc rule: accept_all.induct)
  case (2 pid s a rest doc)
  from 2(2) obtain doc1 where d: "accept_revisions pid s a doc = Inr doc1" "accept_all rest doc1 = Inr doc'" by auto
  from accept_revisions_Inr [OF d(1) 2(3)]
  have 1: "rb_wf doc1" "high_water_le doc doc1" "covered pid s doc1" by auto
  from 2(1) [OF d(2) 1(1)] have 2: "rb_wf doc'" "high_water_le doc1 doc'"
    "\<forall>(pid, s, a) \<in> set rest. covered pid s doc'" by auto
  have "covered pid s doc'" by (rule covered_mono [OF 1(3) 2(2)])
  with 2 high_water_le_trans [OF 1(2) 2(2)] show ?case by simp
qed simp

lemma accept_without_rollback:
  assumes acc: "accept_revisions pid s False doc = Inr doc'" and cov: "covered pid old doc"
  shows "(\<forall>r r'. sn_provider_revision old = Some r \<longrightarrow> sn_provider_revision s = Some r' \<longrightarrow> r \<le> r') \<and>
    (\<forall>i d d'. (i, d) \<in> set (sn_instances old) \<longrightarrow> (i, d') \<in> set (sn_instances s) \<longrightarrow> pd_revision d \<le> pd_revision d')"
proof -
  from cov obtain e where e: "bt_get (rb_providers doc) pid = Some e"
    "\<forall>r. sn_provider_revision old = Some r \<longrightarrow> r \<le> ph_revision e"
    "\<forall>(i, d) \<in> set (sn_instances old). \<exists>h. bt_get (ph_instances e) i = Some h \<and> pd_revision d \<le> rh_revision h"
    by (auto simp: covered_def)
  from acc obtain r where r: "sn_provider_revision s = Some r" "enforce_revisions pid s r False doc = Inr ()"
    by (auto simp: accept_revisions_def)
  from r(2) e(1) have "ph_revision e \<le> r" and c: "check_instance_revisions pid s False e (sn_instances s) = Inr ()"
    by (auto simp: enforce_revisions_def not_less split: if_splits)
  then have "\<forall>r0. sn_provider_revision old = Some r0 \<longrightarrow> r0 \<le> r" using e(2) by auto
  moreover have "pd_revision d \<le> pd_revision d'"
    if new: "(i, d) \<in> set (sn_instances old)" "(i, d') \<in> set (sn_instances s)" for i d d'
  proof -
    from bspec [OF e(3) new(1)]
    obtain h where h: "bt_get (ph_instances e) i = Some h" "pd_revision d \<le> rh_revision h" by auto
    from bspec [OF c [unfolded check_instance_revisions_Inr] new(2)] h(1)
    have "rh_revision h \<le> pd_revision d'" by simp
    with h(2) show ?thesis by simp
  qed
  ultimately show ?thesis unfolding r(1) by (metis option.inject)
qed

section \<open>Properties\<close>


text \<open>Recording an accepted snapshot keeps every mark of every provider, lowers none, leaves the other
  providers alone and covers the snapshot, with the override flag or without it.\<close>

theorem record_revisions_monotone:
  assumes "record_revisions pid snapshot revision doc = Inr doc'" "rb_wf doc"
  shows "rb_wf doc' \<and> high_water_le doc doc' \<and>
    (\<forall>q. q \<noteq> pid \<longrightarrow> bt_get (rb_providers doc') q = bt_get (rb_providers doc) q) \<and>
    (\<exists>e. bt_get (rb_providers doc') pid = Some e \<and> revision \<le> ph_revision e \<and>
       (\<forall>(i, d) \<in> set (sn_instances snapshot). \<exists>h. bt_get (ph_instances e) i = Some h \<and> pd_revision d \<le> rh_revision h))"
  by (rule record_revisions_Inr [OF assms])

text \<open>C16: after any history of accepted snapshots, with overrides or not, a snapshot accepted without the
  override is not older than any earlier snapshot of its provider, as a whole or in one instance.\<close>

theorem accepted_revisions_never_decrease:
  assumes "accept_all hist doc = Inr doc'" "rb_wf doc" "(pid, old, flag) \<in> set hist"
    and "accept_revisions pid new False doc' = Inr doc''"
  shows "(\<forall>r r'. sn_provider_revision old = Some r \<longrightarrow> sn_provider_revision new = Some r' \<longrightarrow> r \<le> r') \<and>
    (\<forall>i d d'. (i, d) \<in> set (sn_instances old) \<longrightarrow> (i, d') \<in> set (sn_instances new) \<longrightarrow> pd_revision d \<le> pd_revision d')"
proof -
  have "covered pid old doc'" using accept_all_Inr [OF assms(1,2)] assms(3) by auto
  then show ?thesis by (rule accept_without_rollback [OF assms(4)])
qed

definition sample_snapshot :: "u64 \<Rightarrow> u64 \<Rightarrow> ProviderSnapshot" where
  "sample_snapshot r ri =
     \<lparr>sn_format_version = 1, sn_registration_id = ProviderId ''play'',
      sn_provider = \<lparr>id_id = ProviderId ''play'', id_name = ''Play'', id_description = None\<rparr>,
      sn_source = LocalSource [''srv'', ''index.json''], sn_synced = 0,
      sn_instances = [(InstanceId ''survival'', sample_definition\<lparr>pd_revision := ri\<rparr>)],
      sn_index_http = None, sn_instance_http = [], sn_provider_revision = Some r,
      sn_verification = \<lparr>pv_signature_status = Unsigned, pv_algorithm = None, pv_key_id = None,
         pv_signature = None, pv_content_sha256 = show_nat (unat r), pv_verified = None,
         pv_revision = Some r, pv_document_base64 = [], pv_envelope = None\<rparr>,
      sn_manifest_documents = [(InstanceId ''survival'',
         \<lparr>cm_document_base64 = [], cm_content_sha256 = show_nat (unat ri), cm_revision = ri\<rparr>)]\<rparr>"

definition sample_rollback :: RollbackDocument where
  "sample_rollback = projr (record_revisions (ProviderId ''play'') (sample_snapshot 3 8) 3 rollback_default)"

lemmas sample_rollback_simps = sample_rollback_def record_revisions_def sample_snapshot_def rollback_default_def
  snapshot_content_def bt_get_def raised_marks_def accept_revisions_def enforce_revisions_def

lemma rollback_default_wf: "rb_wf rollback_default"
  by (simp add: rb_wf_def rollback_default_def)

lemma sample_rollback:
  "record_revisions (ProviderId ''play'') (sample_snapshot 3 8) 3 rollback_default = Inr sample_rollback"
  by (simp add: sample_rollback_simps)


theorem accepted_revisions_never_decrease_witness:
  "is_ok (accept_all [(ProviderId ''play'', sample_snapshot 3 8, True)] rollback_default) \<and>
   is_ok (accept_revisions (ProviderId ''play'') (sample_snapshot 4 8) False sample_rollback) \<and> (3 :: u64) \<le> 4"
proof -
  have 1: "accept_all [(ProviderId ''play'', sample_snapshot 3 8, True)] rollback_default = Inr sample_rollback"
    by (simp add: sample_rollback_simps)
  have "\<exists>doc. accept_revisions (ProviderId ''play'') (sample_snapshot 4 8) False sample_rollback = Inr doc"
    by (simp add: sample_rollback_simps)
  then obtain doc where 2: "accept_revisions (ProviderId ''play'') (sample_snapshot 4 8) False sample_rollback = Inr doc"
    by blast
  from accepted_revisions_never_decrease [OF 1 rollback_default_wf, of "ProviderId ''play''" "sample_snapshot 3 8" True, OF _ 2]
  show ?thesis using 1 2 by (simp add: sample_snapshot_def)
qed

end
