(* ===== verification/Download.thy ===== *)
theory Download
  imports ProviderUrls
begin

text \<open>
  \<^verbatim>\<open>download/mod.rs\<close>: bounded and verified transfers.  Replies of servers, faults of the disk and the
  moment of a cancellation are schedules of the world, so that a theorem about every world is
  about every server and every interruption.  The digest functions are a parameter.  The sleep
  between attempts and the progress events, which depend on the clock, have no counterpart.
\<close>

section \<open>Configuration and requests\<close>

record DownloadConfig =
  dc_concurrency :: u64
  dc_timeout_seconds :: u64
  dc_retries :: u8
  dc_max_file_size :: u64
  dc_allow_insecure_http :: bool
  dc_allowed_hosts :: "string list"

definition dc_validate :: "DownloadConfig \<Rightarrow> unit result" where
  "dc_validate c =
     (if \<not> (1 \<le> dc_concurrency c \<and> dc_concurrency c \<le> 64)
      then Inl (InvalidConfig ''download concurrency must be between 1 and 64'')
      else if dc_timeout_seconds c = 0 \<or> dc_timeout_seconds c > 3600
      then Inl (InvalidConfig ''download timeout must be between 1 and 3600 seconds'')
      else if dc_retries c > 20
      then Inl (InvalidConfig ''download retries cannot exceed 20'')
      else if dc_max_file_size c = 0
      then Inl (InvalidConfig ''download max_file_size must be non-zero'')
      else if list_ex (\<lambda>host. host = [] \<or> CHR ''/'' \<in> set host) (dc_allowed_hosts c)
      then Inl (InvalidConfig ''download allowed_hosts contains an invalid host'')
      else Inr ())"

definition dc_default :: DownloadConfig where
  "dc_default = \<lparr>dc_concurrency = 8, dc_timeout_seconds = 30, dc_retries = 3,
     dc_max_file_size = 2 * 1024 * 1024 * 1024, dc_allow_insecure_http = False, dc_allowed_hosts = []\<rparr>"

record DownloadRequest =
  dr_id :: string
  dr_source :: Url
  dr_destination :: SafeRelativePath
  dr_expected_size :: "u64 option"
  dr_expected_hash :: "FileHash option"

record DownloadOutcome =
  do_path :: path
  do_bytes :: u64
  do_reused :: bool

datatype ConditionalFetch =
    NotModified
  | Modified string "string option" "string option"

text \<open>Raw digests: \<open>Sha1\<close> and \<open>Sha256\<close>.\<close>

type_synonym digests = "HashAlgorithm \<Rightarrow> string \<Rightarrow> string"

section \<open>URLs\<close>

text \<open>The decision of the redirect policy, on the URLs visited so far, the latest last.\<close>

definition redirect_host_is_private :: "string \<Rightarrow> bool" where
  "redirect_host_is_private host =
     (eq_ignore_ascii_case host ''localhost'' \<or> ends_with host ''.localhost''
      \<or> (case parse_ip host of None \<Rightarrow> False | Some a \<Rightarrow> is_private_address a))"

definition redirect_policy :: "DownloadConfig \<Rightarrow> Url list \<Rightarrow> Url \<Rightarrow> string + unit" where
  "redirect_policy c previous target =
     (if length previous \<ge> 5 then Inl ''too many redirects''
      else if previous \<noteq> [] \<and> url_scheme (last previous) = ''https'' \<and> url_scheme target \<noteq> ''https''
      then Inl ''HTTPS redirect downgrade is forbidden''
      else if url_scheme target \<noteq> ''https'' \<and> \<not> (dc_allow_insecure_http c \<and> url_scheme target = ''http'')
      then Inl ''redirect target scheme is forbidden''
      else case url_host target of
        None \<Rightarrow> Inl ''redirect target has no host''
      | Some host \<Rightarrow>
          if \<not> dc_allow_insecure_http c \<and> redirect_host_is_private host
          then Inl ''redirect target is a private network address''
          else if dc_allowed_hosts c \<noteq> [] \<and> \<not> list_ex (\<lambda>a. eq_ignore_ascii_case a host) (dc_allowed_hosts c)
          then Inl ''redirect target host is not allowed''
          else Inr ())"

definition dl_validate_url :: "DownloadConfig \<Rightarrow> Url \<Rightarrow> unit result" where
  "dl_validate_url c u =
     (if \<not> (url_scheme u = ''https'' \<or> (url_scheme u = ''http'' \<and> dc_allow_insecure_http c))
      then Inl (InvalidConfig (''URL scheme `'' @ url_scheme u @ ''` is not allowed''))
      else if url_username u \<noteq> [] \<or> url_password u \<noteq> None
      then Inl (InvalidConfig ''download URL user information is forbidden'')
      else res_bind (ok_or (url_host u) (InvalidConfig ''download URL has no host'')) (\<lambda>host.
      if dc_allowed_hosts c \<noteq> [] \<and> \<not> list_ex (\<lambda>a. eq_ignore_ascii_case a host) (dc_allowed_hosts c)
      then Inl (InvalidConfig (''download host `'' @ host @ ''` is not allowed''))
      else Inr ()))"

definition redacted_url :: "Url \<Rightarrow> string" where
  "redacted_url u = url_scheme u @ ''://'' @ (case url_host u of None \<Rightarrow> ''<missing-host>'' | Some h \<Rightarrow> h) @ url_path u"

definition validate_request :: "DownloadConfig \<Rightarrow> DownloadRequest \<Rightarrow> unit result" where
  "validate_request c r =
     (if dr_id r = [] \<or> length (dr_id r) > 128 \<or> list_ex is_control (chars (dr_id r))
      then Inl (InvalidConfig ''download id is invalid'')
      else res_bind (dl_validate_url c (dr_source r)) (\<lambda>_.
      case dr_expected_size r of
        Some n \<Rightarrow> if n > dc_max_file_size c then Inl (Download (SizeLimit (dc_max_file_size c))) else Inr ()
      | None \<Rightarrow> Inr ()))"

text \<open>\<open>retry_delay\<close>, in milliseconds.\<close>

definition retry_delay :: "u8 \<Rightarrow> u64" where
  "retry_delay attempt = 200 * 2 ^ unat (min attempt 5)"

section \<open>Verification\<close>

text \<open>Lengths accumulate with \<open>saturating_add\<close> on \<open>u64\<close>.\<close>

definition u64_of_length :: "nat \<Rightarrow> u64" where
  "u64_of_length n = (if n < 2 ^ 64 then of_nat n else - 1)"

definition verify_content ::
    "digests \<Rightarrow> path \<Rightarrow> u64 option \<Rightarrow> FileHash option \<Rightarrow> string \<Rightarrow> DownloadError + unit" where
  "verify_content dg p expected_size expected_hash content =
     (let actual = u64_of_length (length content) in
      res_bind (case expected_size of
         Some expected \<Rightarrow> if expected \<noteq> actual then Inl (SizeMismatch p expected actual) else Inr ()
       | None \<Rightarrow> Inr ()) (\<lambda>_.
      case expected_hash of
        Some expected \<Rightarrow>
          if lower_hex (dg (fh_algorithm expected) content) \<noteq> fh_value expected
          then Inl (ChecksumMismatch p) else Inr ()
      | None \<Rightarrow> Inr ()))"

definition verify_bytes ::
    "digests \<Rightarrow> string \<Rightarrow> u64 option \<Rightarrow> FileHash option \<Rightarrow> path \<Rightarrow> DownloadError + unit" where
  "verify_bytes dg content expected_size expected_hash p = verify_content dg p expected_size expected_hash content"

text \<open>I/O errors of this module are wrapped in \<open>DownloadError\<close>.\<close>

definition dl_error :: "Error \<Rightarrow> Error" where
  "dl_error e = (case e of Error.Io k \<Rightarrow> Download (DownloadError.Io k) | _ \<Rightarrow> e)"

abbreviation dl_io :: "'a io \<Rightarrow> 'a io" where
  "dl_io m \<equiv> io_map_err dl_error m"

definition verify_file :: "digests \<Rightarrow> path \<Rightarrow> u64 option \<Rightarrow> FileHash option \<Rightarrow> u64 io" where
  "verify_file dg p expected_size expected_hash =
     io_bind (dl_io (fs_read p)) (\<lambda>content.
     io_bind (io_lift (map_err Download (verify_content dg p expected_size expected_hash content))) (\<lambda>_.
     io_return (u64_of_length (length content))))"

definition compute_hash :: "digests \<Rightarrow> path \<Rightarrow> HashAlgorithm \<Rightarrow> FileHash io" where
  "compute_hash dg p algorithm =
     io_bind (dl_io (fs_read p)) (\<lambda>content.
     io_lift (map_err (\<lambda>e. Download (DownloadError.Io (IoOther ''invalid digest'')))
       (fh_new algorithm (lower_hex (dg algorithm content)))))"

section \<open>Fetching into memory\<close>

text \<open>The loop over the chunks of a response.\<close>

fun collect_chunks :: "u64 \<Rightarrow> (string + string) list \<Rightarrow> string \<Rightarrow> string io" where
  "collect_chunks limit [] bytes = io_return bytes"
| "collect_chunks limit (chunk # rest) bytes =
     io_bind is_cancelled (\<lambda>cancelled.
     if cancelled then io_fail (Download DownloadError.Cancelled)
     else case chunk of
       Inl e \<Rightarrow> io_fail (Download (Http e))
     | Inr c \<Rightarrow>
         if length bytes + length c > unat limit then io_fail (Download (SizeLimit limit))
         else collect_chunks limit rest (bytes @ c))"

definition is_success :: "nat \<Rightarrow> bool" where
  "is_success status = (200 \<le> status \<and> status < 300)"

definition check_status :: "u64 \<Rightarrow> Url \<Rightarrow> http_response \<Rightarrow> unit result" where
  "check_status limit u r =
     (if \<not> is_success (hr_status r) then Inl (Download (HttpStatus (hr_status r) (redacted_url u)))
      else case hr_content_length r of
        Some n \<Rightarrow> if n > limit then Inl (Download (SizeLimit limit)) else Inr ()
      | None \<Rightarrow> Inr ())"

definition fetch_bytes_once :: "Url \<Rightarrow> u64 \<Rightarrow> string io" where
  "fetch_bytes_once u limit =
     io_bind (http_send u []) (\<lambda>r.
     io_bind (io_lift (check_status limit u r)) (\<lambda>_.
     collect_chunks limit (hr_chunks r) []))"

definition conditional_headers :: "string option \<Rightarrow> string option \<Rightarrow> (string \<times> string) list" where
  "conditional_headers etag last_modified =
     (case etag of None \<Rightarrow> [] | Some v \<Rightarrow> [(''if-none-match'', v)])
     @ (case last_modified of None \<Rightarrow> [] | Some v \<Rightarrow> [(''if-modified-since'', v)])"

definition fetch_conditional_once :: "Url \<Rightarrow> string option \<Rightarrow> string option \<Rightarrow> u64 \<Rightarrow> ConditionalFetch io" where
  "fetch_conditional_once u etag last_modified limit =
     io_bind (http_send u (conditional_headers etag last_modified)) (\<lambda>r.
     if hr_status r = 304 then io_return NotModified
     else io_bind (io_lift (check_status limit u r)) (\<lambda>_.
          io_bind (collect_chunks limit (hr_chunks r) []) (\<lambda>bytes.
          io_return (Modified bytes (map_of (hr_headers r) ''etag'') (map_of (hr_headers r) ''last-modified'')))))"

text \<open>The retry loop of the in-memory fetches: \<open>retries + 1\<close> attempts, each after a look at the token.\<close>

fun attempts :: "nat \<Rightarrow> Error option \<Rightarrow> 'a io \<Rightarrow> 'a io" where
  "attempts 0 last_error once =
     io_fail (case last_error of None \<Rightarrow> Download DownloadError.Cancelled | Some e \<Rightarrow> e)"
| "attempts (Suc n) last_error once =
     io_bind is_cancelled (\<lambda>cancelled.
     if cancelled then io_fail (Download DownloadError.Cancelled)
     else io_catch once (\<lambda>e. attempts n (Some e) once))"

definition check_limit :: "DownloadConfig \<Rightarrow> Url \<Rightarrow> u64 \<Rightarrow> unit result" where
  "check_limit c u limit =
     res_bind (dl_validate_url c u) (\<lambda>_.
     if limit = 0 \<or> limit > dc_max_file_size c
     then Inl (InvalidConfig ''invalid in-memory download limit'') else Inr ())"

definition fetch_bytes ::
    "DownloadConfig \<Rightarrow> digests \<Rightarrow> Url \<Rightarrow> u64 option \<Rightarrow> FileHash option \<Rightarrow> u64 \<Rightarrow> string io" where
  "fetch_bytes c dg u expected_size expected_hash limit =
     io_bind (io_lift (check_limit c u limit)) (\<lambda>_.
     attempts (Suc (unat (dc_retries c))) None
       (io_bind (fetch_bytes_once u limit) (\<lambda>bytes.
        io_bind (io_lift (map_err Download
          (verify_bytes dg bytes expected_size expected_hash [''HTTP response'']))) (\<lambda>_.
        io_return bytes))))"

definition fetch_json ::
    "DownloadConfig \<Rightarrow> digests \<Rightarrow> (string \<Rightarrow> string + 'doc) \<Rightarrow> Url \<Rightarrow> u64 option \<Rightarrow> FileHash option \<Rightarrow> u64 \<Rightarrow> 'doc io" where
  "fetch_json c dg from_slice u expected_size expected_hash limit =
     io_bind (fetch_bytes c dg u expected_size expected_hash limit) (\<lambda>bytes.
     io_lift (map_err (\<lambda>e. Download (DownloadError.Json e)) (from_slice bytes)))"

definition fetch_conditional ::
    "DownloadConfig \<Rightarrow> Url \<Rightarrow> string option \<Rightarrow> string option \<Rightarrow> u64 \<Rightarrow> ConditionalFetch io" where
  "fetch_conditional c u etag last_modified limit =
     io_bind (io_lift (check_limit c u limit)) (\<lambda>_.
     attempts (Suc (unat (dc_retries c))) None (fetch_conditional_once u etag last_modified limit))"

section \<open>Downloading to disk\<close>

definition path_file_name :: "path \<Rightarrow> string option" where
  "path_file_name p = (if is_root p \<or> last p = ''..'' then None else Some (last p))"

definition part_path :: "path \<Rightarrow> path result" where
  "part_path destination =
     (case path_file_name destination of
        None \<Rightarrow> Inl (Download (UnsafeDestination destination ''destination has no file name''))
      | Some name \<Rightarrow> Inr (butlast destination @ [name @ ''.part'']))"

definition metadata_or_absent :: "path \<Rightarrow> node option io" where
  "metadata_or_absent p =
     io_catch (io_bind (fs_symlink_metadata p) (\<lambda>n. io_return (Some n)))
       (\<lambda>e. if is_not_found e then io_return None else io_fail e)"

definition reject_symlink_if_present :: "path \<Rightarrow> unit io" where
  "reject_symlink_if_present p =
     dl_io (io_bind (metadata_or_absent p) (\<lambda>m.
       case m of
         None \<Rightarrow> io_return ()
       | Some n \<Rightarrow>
           if is_file_node n then io_return ()
           else io_fail (Download (UnsafeDestination p ''existing destination must be a regular file''))))"

text \<open>One step of the walk over the parents of a destination.\<close>

definition ensure_parent :: "path \<Rightarrow> unit io" where
  "ensure_parent current =
     io_bind (metadata_or_absent current) (\<lambda>m.
     case m of
       Some n \<Rightarrow>
         if n = DirNode then io_return ()
         else io_fail (Download (UnsafeDestination current ''download parent must be a real directory''))
     | None \<Rightarrow>
         io_catch (fs_create_dir current) (\<lambda>e.
           if e = Error.Io IoAlreadyExists
           then io_bind (fs_symlink_metadata current) (\<lambda>n.
                if n = DirNode then io_return ()
                else io_fail (Download (UnsafeDestination current
                       ''concurrently created parent is not a real directory'')))
           else io_fail e))"

fun ensure_parents :: "path \<Rightarrow> string list \<Rightarrow> unit io" where
  "ensure_parents current [] = io_return ()"
| "ensure_parents current (part # parts) =
     io_bind (ensure_parent (current @ [part])) (\<lambda>_. ensure_parents (current @ [part]) parts)"

definition ensure_safe_parent :: "path \<Rightarrow> SafeRelativePath \<Rightarrow> unit io" where
  "ensure_safe_parent root relative =
     dl_io (
     io_bind (fs_create_dir_all root) (\<lambda>_.
     io_bind (fs_symlink_metadata root) (\<lambda>n.
     if n \<noteq> DirNode
     then io_fail (Download (UnsafeDestination root ''download root must be a real directory''))
     else ensure_parents root (butlast (split_on CHR ''/'' (srp_str relative))))))"

text \<open>The body of a response, appended to the \<open>.part\<close> file.\<close>

fun store_chunks :: "DownloadConfig \<Rightarrow> path \<Rightarrow> (string + string) list \<Rightarrow> u64 \<Rightarrow> unit io" where
  "store_chunks c part [] downloaded = io_return ()"
| "store_chunks c part (chunk # rest) downloaded =
     io_bind is_cancelled (\<lambda>cancelled.
     if cancelled then io_fail (Download DownloadError.Cancelled)
     else case chunk of
       Inl e \<Rightarrow> io_fail (Download (Http e))
     | Inr bytes \<Rightarrow>
         let downloaded' = saturating_add downloaded (u64_of_length (length bytes)) in
         if downloaded' > dc_max_file_size c then io_fail (Download (SizeLimit (dc_max_file_size c)))
         else io_bind (dl_io (fs_append part bytes)) (\<lambda>_. store_chunks c part rest downloaded'))"

definition existing_length :: "path \<Rightarrow> u64 io" where
  "existing_length part =
     io_catch (io_bind (fs_metadata_len part) (\<lambda>n. io_return (u64_of_length n)))
       (\<lambda>e. if is_not_found e then io_return 0 else io_fail e)"

definition content_range_ok :: "u64 \<Rightarrow> http_response \<Rightarrow> bool" where
  "content_range_ok existing r =
     (case map_of (hr_headers r) ''content-range'' of
        None \<Rightarrow> False
      | Some v \<Rightarrow> starts_with v (''bytes '' @ show_nat (unat existing) @ ''-''))"

definition download_once :: "DownloadConfig \<Rightarrow> DownloadRequest \<Rightarrow> path \<Rightarrow> unit io" where
  "download_once c req part =
     io_bind (dl_io (existing_length part)) (\<lambda>existing.
     io_bind (http_send (dr_source req)
        (if existing > 0 then [(''range'', ''bytes='' @ show_nat (unat existing) @ ''-'')] else [])) (\<lambda>r.
     if hr_status r = 416 then io_return ()
     else if \<not> is_success (hr_status r)
     then io_fail (Download (HttpStatus (hr_status r) (redacted_url (dr_source req))))
     else
       let appending = (existing > 0 \<and> hr_status r = 206) in
       if appending \<and> \<not> content_range_ok existing r
       then io_fail (Download (DownloadError.Io (IoOther ''server returned an invalid Content-Range'')))
       else io_bind (dl_io (fs_open_write appending part)) (\<lambda>_.
            store_chunks c part (hr_chunks r) (if appending then existing else 0))))"

text \<open>The retry loop of \<open>download\<close>; a failed \<open>rename\<close> ends it.\<close>

fun download_attempts ::
    "DownloadConfig \<Rightarrow> digests \<Rightarrow> DownloadRequest \<Rightarrow> path \<Rightarrow> path \<Rightarrow> nat \<Rightarrow> Error option \<Rightarrow> DownloadOutcome io" where
  "download_attempts c dg req destination part 0 last_error =
     (let e = (case last_error of None \<Rightarrow> Download DownloadError.Cancelled | Some e \<Rightarrow> e) in
      io_bind (emit ''FileDownloadFailed'' [dr_id req]) (\<lambda>_. io_fail e))"
| "download_attempts c dg req destination part (Suc n) last_error =
     io_bind is_cancelled (\<lambda>cancelled.
     if cancelled then io_fail (Download DownloadError.Cancelled)
     else io_bind (io_try (download_once c req part)) (\<lambda>sent. case sent of
       Inl e \<Rightarrow> download_attempts c dg req destination part n (Some e)
     | Inr _ \<Rightarrow>
         io_bind (io_try (verify_file dg part (dr_expected_size req) (dr_expected_hash req))) (\<lambda>verified.
         case verified of
           Inl e \<Rightarrow> io_bind (io_ignore (fs_remove_file part)) (\<lambda>_.
                    download_attempts c dg req destination part n (Some e))
         | Inr bytes \<Rightarrow>
             io_bind (fs_rename part destination) (\<lambda>_.
             io_bind (emit ''FileDownloadCompleted'' [dr_id req, srp_str (dr_destination req)]) (\<lambda>_.
             io_return \<lparr>do_path = destination, do_bytes = bytes, do_reused = False\<rparr>)))))"

text \<open>\<open>try_exists(p)? && verify_file(p, ..).is_ok()\<close>.\<close>

definition present_and_verified :: "digests \<Rightarrow> path \<Rightarrow> u64 option \<Rightarrow> FileHash option \<Rightarrow> bool io" where
  "present_and_verified dg p expected_size expected_hash =
     io_bind (fs_try_exists p) (\<lambda>present.
     if \<not> present then io_return False
     else io_bind (io_try (verify_file dg p expected_size expected_hash)) (\<lambda>v. io_return (is_ok v)))"

definition remove_if_present :: "path \<Rightarrow> unit io" where
  "remove_if_present p =
     io_bind (fs_try_exists p) (\<lambda>present. if present then fs_remove_file p else io_return ())"

definition cache_lock :: "SafeRelativePath \<Rightarrow> string" where
  "cache_lock p = ''cache:'' @ srp_str p"

definition locked_download :: "DownloadConfig \<Rightarrow> digests \<Rightarrow> path \<Rightarrow> DownloadRequest \<Rightarrow> DownloadOutcome io" where
  "locked_download c dg root req =
     (let destination = join_under (dr_destination req) root in
      io_bind (ensure_safe_parent root (dr_destination req)) (\<lambda>_.
      io_bind (present_and_verified dg destination (dr_expected_size req) (dr_expected_hash req)) (\<lambda>reused.
      if reused
      then io_bind (fs_metadata_len destination) (\<lambda>n.
           io_return \<lparr>do_path = destination, do_bytes = u64_of_length n, do_reused = True\<rparr>)
      else
        io_bind (reject_symlink_if_present destination) (\<lambda>_.
        io_bind (remove_if_present destination) (\<lambda>_.
        io_bind (emit ''FileDownloadStarted'' [dr_id req, srp_str (dr_destination req)]) (\<lambda>_.
        io_bind (io_lift (part_path destination)) (\<lambda>part.
        io_bind (reject_symlink_if_present part) (\<lambda>_.
        download_attempts c dg req destination part (Suc (unat (dc_retries c))) None))))))))"

text \<open>\<open>locks\<close> is whether the manager was built with a lock manager.\<close>

definition download :: "DownloadConfig \<Rightarrow> digests \<Rightarrow> bool \<Rightarrow> path \<Rightarrow> DownloadRequest \<Rightarrow> DownloadOutcome io" where
  "download c dg locks root req =
     io_bind (io_lift (validate_request c req)) (\<lambda>_.
     if locks then with_lock (cache_lock (dr_destination req)) (locked_download c dg root req)
     else locked_download c dg root req)"

definition locked_recover_local :: "digests \<Rightarrow> path \<Rightarrow> DownloadRequest \<Rightarrow> bool io" where
  "locked_recover_local dg root req =
     (let destination = join_under (dr_destination req) root in
      io_bind (ensure_safe_parent root (dr_destination req)) (\<lambda>_.
      io_bind (reject_symlink_if_present destination) (\<lambda>_.
      io_bind (present_and_verified dg destination (dr_expected_size req) (dr_expected_hash req)) (\<lambda>ready.
      if ready then io_return True
      else
        io_bind (io_lift (part_path destination)) (\<lambda>part.
        io_bind (reject_symlink_if_present part) (\<lambda>_.
        io_bind (present_and_verified dg part (dr_expected_size req) (dr_expected_hash req)) (\<lambda>complete.
        if \<not> complete then io_return False
        else
          io_bind (remove_if_present destination) (\<lambda>_.
          io_bind (fs_rename part destination) (\<lambda>_. io_return True)))))))))"

definition recover_local :: "DownloadConfig \<Rightarrow> digests \<Rightarrow> bool \<Rightarrow> path \<Rightarrow> DownloadRequest \<Rightarrow> bool io" where
  "recover_local c dg locks root req =
     io_bind (io_lift (validate_request c req)) (\<lambda>_.
     if locks then with_lock (cache_lock (dr_destination req)) (locked_recover_local dg root req)
     else locked_recover_local dg root req)"

section \<open>Lemmas\<close>

text \<open>What a request says of the content of its file.\<close>

definition content_expected :: "digests \<Rightarrow> u64 option \<Rightarrow> FileHash option \<Rightarrow> string \<Rightarrow> bool" where
  "content_expected dg expected_size expected_hash c \<longleftrightarrow>
     (\<forall>n. expected_size = Some n \<longrightarrow> n = u64_of_length (length c)) \<and>
     (\<forall>h. expected_hash = Some h \<longrightarrow> lower_hex (dg (fh_algorithm h) c) = fh_value h)"

lemma verify_content_Inr:
  "verify_content dg p es eh c = Inr u \<longleftrightarrow> content_expected dg es eh c"
  by (auto simp: verify_content_def content_expected_def Let_def split: option.splits)

text \<open>Assertions about one path of the tree, and the operations that do not touch it.\<close>

abbreviation at_path :: "path \<Rightarrow> (node option \<Rightarrow> bool) \<Rightarrow> tree \<Rightarrow> bool" where
  "at_path d \<Phi> t \<equiv> \<Phi> (t d)"

lemma io_valid_frame_inv: "io_frame m \<Longrightarrow> io_valid J I m (\<lambda>_. I) I"
  by (rule io_valid_frame)

lemma io_frame_metadata [intro]: "io_frame (metadata_or_absent p)"
  unfolding metadata_or_absent_def by (intro io_frame_catch io_frame_bind io_frame_reads io_frame_if io_frame_basic)

lemma io_frame_reject [intro]: "io_frame (reject_symlink_if_present p)"
  unfolding reject_symlink_if_present_def
  by (intro io_frame_map_err io_frame_bind io_frame_metadata) (auto split: option.split)

lemma io_valid_create_dir_at:
  assumes "p \<noteq> d" "\<And>x. \<Phi> x \<Longrightarrow> \<Psi> x"
  shows "io_valid (at_path d \<Psi>) (at_path d \<Phi>) (fs_create_dir p) (\<lambda>_. at_path d \<Phi>) (at_path d \<Phi>)"
  unfolding fs_create_dir_def
  by (rule io_valid_step) (use assms in \<open>auto simp: create_dir_tree_def split: if_splits\<close>)

lemma ensure_parent_at:
  assumes "p \<noteq> d" "\<And>x. \<Phi> x \<Longrightarrow> \<Psi> x"
  shows "io_valid (at_path d \<Psi>) (at_path d \<Phi>) (ensure_parent p) (\<lambda>_. at_path d \<Phi>) (at_path d \<Phi>)"
  unfolding ensure_parent_def
proof (rule io_valid_bind [OF io_valid_frame_inv [OF io_frame_metadata]])
  fix m
  have h: "io_valid (at_path d \<Psi>) (at_path d \<Phi>) (if e = Error.Io IoAlreadyExists
      then io_bind (fs_symlink_metadata p) (\<lambda>n. if n = DirNode then io_return ()
           else io_fail (Download (UnsafeDestination p ''concurrently created parent is not a real directory'')))
      else io_fail e) (\<lambda>_. at_path d \<Phi>) (at_path d \<Phi>)" for e
    by (rule io_valid_frame_inv) auto
  show "io_valid (at_path d \<Psi>) (at_path d \<Phi>) (case m of
       None \<Rightarrow> io_catch (fs_create_dir p) (\<lambda>e. if e = Error.Io IoAlreadyExists
         then io_bind (fs_symlink_metadata p) (\<lambda>n. if n = DirNode then io_return ()
              else io_fail (Download (UnsafeDestination p ''concurrently created parent is not a real directory'')))
         else io_fail e)
     | Some n \<Rightarrow> if n = DirNode then io_return ()
         else io_fail (Download (UnsafeDestination p ''download parent must be a real directory'')))
     (\<lambda>_. at_path d \<Phi>) (at_path d \<Phi>)"
    using io_valid_catch [OF io_valid_create_dir_at [OF assms] h] by (auto split: option.split)
qed

lemma ensure_parents_at:
  assumes "length current + length parts < length d" "\<And>x. \<Phi> x \<Longrightarrow> \<Psi> x"
  shows "io_valid (at_path d \<Psi>) (at_path d \<Phi>) (ensure_parents current parts) (\<lambda>_. at_path d \<Phi>) (at_path d \<Phi>)"
  using assms(1)
proof (induction current parts rule: ensure_parents.induct)
  case (2 current part parts)
  have "current @ [part] \<noteq> d" using 2(2) by auto
  from io_valid_bind [OF ensure_parent_at [OF this assms(2)] 2(1)] 2(2) show ?case by simp
qed auto

lemma ensure_safe_parent_at:
  assumes "length root + length (split_on CHR ''/'' (srp_str rel)) \<le> length d"
    and "length root < length d" "\<And>x. \<Phi> x \<Longrightarrow> \<Psi> x"
  shows "io_valid (at_path d \<Psi>) (at_path d \<Phi>) (ensure_safe_parent root rel) (\<lambda>_. at_path d \<Phi>) (at_path d \<Phi>)"
proof -
  have len: "length root + length (butlast (split_on CHR ''/'' (srp_str rel))) < length d"
    using assms(1,2) by (cases "split_on CHR ''/'' (srp_str rel)") auto
  have 1: "io_valid (at_path d \<Psi>) (at_path d \<Phi>) (fs_create_dir_all root) (\<lambda>_. at_path d \<Phi>) (at_path d \<Phi>)"
    using assms(2,3) by (intro io_valid_create_dir_all) auto
  have 2: "io_valid (at_path d \<Psi>) (at_path d \<Phi>) (fs_symlink_metadata root) (\<lambda>_. at_path d \<Phi>) (at_path d \<Phi>)"
    by (rule io_valid_frame_inv) auto
  have 3: "io_valid (at_path d \<Psi>) (at_path d \<Phi>) (if n \<noteq> DirNode
     then io_fail (Download (UnsafeDestination root ''download root must be a real directory''))
     else ensure_parents root (butlast (split_on CHR ''/'' (srp_str rel)))) (\<lambda>_. at_path d \<Phi>) (at_path d \<Phi>)" for n
    using ensure_parents_at [OF len assms(3)] by auto
  show ?thesis
    unfolding ensure_safe_parent_def
    by (intro io_valid_map_err io_valid_bind [OF 1 io_valid_bind [OF 2 3]])
qed

lemma verify_file_valid:
  assumes "\<And>t. P t \<Longrightarrow> E t"
  shows "io_valid J P (verify_file dg p es eh)
     (\<lambda>n t. P t \<and> (\<exists>c. read_tree p t = Inr c \<and> content_expected dg es eh c \<and> n = u64_of_length (length c))) E"
  unfolding verify_file_def
proof (rule io_valid_bind)
  show "io_valid J P (dl_io (fs_read p)) (\<lambda>c t. P t \<and> read_tree p t = Inr c) E"
    unfolding fs_read_def by (intro io_valid_map_err io_valid_query) (auto simp: assms)
  show "io_valid J (\<lambda>t. P t \<and> read_tree p t = Inr c)
     (io_bind (io_lift (map_err Download (verify_content dg p es eh c))) (\<lambda>_. io_return (u64_of_length (length c))))
     (\<lambda>n t. P t \<and> (\<exists>c. read_tree p t = Inr c \<and> content_expected dg es eh c \<and> n = u64_of_length (length c))) E" for c
    by (rule io_valid_bind [where R = "\<lambda>_ t. P t \<and> read_tree p t = Inr c \<and> content_expected dg es eh c"], rule io_valid_lift)
      (auto simp: verify_content_Inr assms)
qed

lemma present_and_verified_valid:
  shows "io_valid J P (present_and_verified dg p es eh)
     (\<lambda>b t. P t \<and> (b \<longrightarrow> (\<exists>c. read_tree p t = Inr c \<and> content_expected dg es eh c))) P"
  unfolding present_and_verified_def
proof (rule io_valid_bind)
  show "io_valid J P (fs_try_exists p) (\<lambda>_. P) P"
    by (rule io_valid_frame_inv) auto
  have v: "io_valid J P (io_try (verify_file dg p es eh))
     (\<lambda>v t. P t \<and> (is_ok v \<longrightarrow> (\<exists>c. read_tree p t = Inr c \<and> content_expected dg es eh c))) P"
    by (rule io_valid_try, rule io_valid_conseq [OF verify_file_valid [where P = P and E = P]]) auto
  show "io_valid J P (if \<not> present then io_return False
       else io_bind (io_try (verify_file dg p es eh)) (\<lambda>v. io_return (is_ok v)))
     (\<lambda>b t. P t \<and> (b \<longrightarrow> (\<exists>c. read_tree p t = Inr c \<and> content_expected dg es eh c))) P" for present
    using io_valid_bind [OF v io_valid_return] by auto
qed

text \<open>
  The destination while its \<open>.part\<close> file is filled: \<open>\<Psi>\<close> is what is known of the node at the destination,
  and the \<open>.part\<close> path is never a symbolic link.
\<close>

abbreviation filling :: "path \<Rightarrow> path \<Rightarrow> (node option \<Rightarrow> bool) \<Rightarrow> tree \<Rightarrow> bool" where
  "filling d part \<Psi> t \<equiv> \<Psi> (t d) \<and> (\<forall>q. t part \<noteq> Some (SymlinkNode q))"

lemma filling_target:
  "filling d part \<Psi> t \<Longrightarrow> write_target part t = Inr q \<Longrightarrow> q = part"
  using write_target_plain [of t part q] by blast

lemma store_chunks_filling:
  assumes "part \<noteq> d"
  shows "io_valid (at_path d \<Psi>) (filling d part \<Psi>) (store_chunks c part chunks n) (\<lambda>_. filling d part \<Psi>) (filling d part \<Psi>)"
proof (induction chunks arbitrary: n)
  case (Cons chunk rest)
  have app: "io_valid (at_path d \<Psi>) (filling d part \<Psi>) (dl_io (fs_append part b)) (\<lambda>_. filling d part \<Psi>) (filling d part \<Psi>)" for b
    using assms
    by (intro io_valid_map_err io_valid_append) (auto dest!: filling_target [rotated])
  have fail: "io_valid (at_path d \<Psi>) (filling d part \<Psi>) (io_fail e) (\<lambda>_ :: unit. filling d part \<Psi>) (filling d part \<Psi>)" for e
    by (rule io_valid_fail)
  have more: "io_valid (at_path d \<Psi>) (filling d part \<Psi>) (io_bind (dl_io (fs_append part b)) (\<lambda>_. store_chunks c part rest m))
     (\<lambda>_. filling d part \<Psi>) (filling d part \<Psi>)" for b m
    by (rule io_valid_bind [OF app Cons.IH])
  have body: "io_valid (at_path d \<Psi>) (filling d part \<Psi>) (case chunk of
       Inl e \<Rightarrow> io_fail (Download (Http e))
     | Inr bytes \<Rightarrow>
         let downloaded' = saturating_add n (u64_of_length (length bytes)) in
         if downloaded' > dc_max_file_size c then io_fail (Download (SizeLimit (dc_max_file_size c)))
         else io_bind (dl_io (fs_append part bytes)) (\<lambda>_. store_chunks c part rest downloaded'))
     (\<lambda>_. filling d part \<Psi>) (filling d part \<Psi>)"
    using fail more by (simp add: Let_def split: sum.split)
  show ?case
    unfolding store_chunks.simps
    by (rule io_valid_bind [OF io_valid_frame_inv [OF io_frame_basic(5)]]) (use body fail in auto)
qed auto

lemma existing_length_frame: "io_frame (dl_io (existing_length part))"
  unfolding existing_length_def
  by (intro io_frame_map_err io_frame_catch io_frame_bind io_frame_reads io_frame_if io_frame_basic)

lemma download_once_filling:
  assumes "part \<noteq> d"
  shows "io_valid (at_path d \<Psi>) (filling d part \<Psi>) (download_once c req part) (\<lambda>_. filling d part \<Psi>) (filling d part \<Psi>)"
proof -
  let ?V = "\<lambda>m. io_valid (at_path d \<Psi>) (filling d part \<Psi>) m (\<lambda>_ :: unit. filling d part \<Psi>) (filling d part \<Psi>)"
  have opn: "?V (dl_io (fs_open_write a part))" for a
    using assms
    by (intro io_valid_map_err io_valid_open_write) (auto dest!: filling_target [rotated])
  have fail: "?V (io_fail e)" for e by (rule io_valid_fail)
  have ret: "?V (io_return ())" by (rule io_valid_return)
  have more: "?V (io_bind (dl_io (fs_open_write a part)) (\<lambda>_. store_chunks c part chunks n))" for a chunks n
    by (rule io_valid_bind [OF opn store_chunks_filling [OF assms]])
  have body: "?V (if hr_status r = 416 then io_return ()
     else if \<not> is_success (hr_status r)
     then io_fail (Download (HttpStatus (hr_status r) (redacted_url (dr_source req))))
     else let appending = (existing > 0 \<and> hr_status r = 206) in
       if appending \<and> \<not> content_range_ok existing r
       then io_fail (Download (DownloadError.Io (IoOther ''server returned an invalid Content-Range'')))
       else io_bind (dl_io (fs_open_write appending part)) (\<lambda>_.
            store_chunks c part (hr_chunks r) (if appending then existing else 0)))" for r existing
    using fail ret more by (auto simp: Let_def)
  show ?thesis
    unfolding download_once_def
    by (rule io_valid_bind [OF io_valid_frame_inv [OF existing_length_frame]
        io_valid_bind [OF io_valid_frame_inv [OF io_frame_basic(6)] body]])
qed

text \<open>The destination only ever gets a verified file.\<close>

definition verified_file :: "digests \<Rightarrow> DownloadRequest \<Rightarrow> string \<Rightarrow> bool" where
  "verified_file dg req = content_expected dg (dr_expected_size req) (dr_expected_hash req)"

definition untouched_or_verified :: "digests \<Rightarrow> DownloadRequest \<Rightarrow> node option \<Rightarrow> node option \<Rightarrow> bool" where
  "untouched_or_verified dg req before now \<longleftrightarrow>
     now = before \<or> now = None \<or> (\<exists>c. now = Some (FileNode c) \<and> verified_file dg req c)"

lemma download_attempts_filling:
  assumes "part \<noteq> d" and \<Psi>: "\<Psi> = untouched_or_verified dg req before"
  shows "io_valid (at_path d \<Psi>) (filling d part \<Psi>) (download_attempts c dg req d part n e)
     (\<lambda>out t. \<exists>c. t d = Some (FileNode c) \<and> verified_file dg req c \<and>
        out = \<lparr>do_path = d, do_bytes = u64_of_length (length c), do_reused = False\<rparr>) (at_path d \<Psi>)"
    (is "io_valid ?J ?P _ ?Q _")
proof (induction n arbitrary: e)
  case 0
  show ?case
    unfolding download_attempts.simps Let_def
    by (rule io_valid_bind [where R = "\<lambda>_. ?P"], rule io_valid_emit) auto
next
  case (Suc n)
  let ?R = "\<lambda>bytes t. ?P t \<and> (\<exists>c. t part = Some (FileNode c) \<and> verified_file dg req c \<and> bytes = u64_of_length (length c))"
  have once: "io_valid ?J ?P (io_try (download_once c req part)) (\<lambda>_. ?P) ?J"
    by (rule io_valid_try, rule io_valid_conseq [OF download_once_filling [OF assms(1)]]) auto
  have plain: "\<forall>q. t part \<noteq> Some (SymlinkNode q) \<Longrightarrow> read_tree part t = Inr c \<Longrightarrow> t part = Some (FileNode c)" for t c
    by (auto simp: read_tree_def follow_plain split: option.splits node.splits)
  have verify: "io_valid ?J ?P (io_try (verify_file dg part (dr_expected_size req) (dr_expected_hash req)))
     (\<lambda>v t. ?P t \<and> (\<forall>bytes. v = Inr bytes \<longrightarrow> ?R bytes t)) ?J"
    by (rule io_valid_try, rule io_valid_conseq [OF verify_file_valid [where P = ?P and E = ?P]])
      (auto simp: verified_file_def dest: plain)
  have ren: "io_valid ?J (?R bytes) (fs_rename part d)
     (\<lambda>_ t. \<exists>c. t d = Some (FileNode c) \<and> verified_file dg req c \<and> bytes = u64_of_length (length c)) ?J" for bytes
    by (rule io_valid_rename_file) (use assms in \<open>auto simp: untouched_or_verified_def\<close>)
  have rem: "io_valid ?J ?P (io_ignore (fs_remove_file part)) (\<lambda>_. ?P) ?J"
    by (rule io_valid_ignore, unfold fs_remove_file_def, rule io_valid_step)
      (use assms in \<open>auto dest!: remove_file_tree_Inr\<close>)
  have fin: "io_valid ?J (?R bytes)
     (io_bind (fs_rename part d) (\<lambda>_. io_bind (emit v a) (\<lambda>_.
        io_return \<lparr>do_path = d, do_bytes = bytes, do_reused = False\<rparr>))) ?Q ?J" for bytes v a
    by (rule io_valid_bind [OF ren], rule io_valid_bind, rule io_valid_emit, assumption) auto
  have after: "io_valid ?J (\<lambda>t. ?P t \<and> (\<forall>bytes. v = Inr bytes \<longrightarrow> ?R bytes t)) (case v of
       Inl e \<Rightarrow> io_bind (io_ignore (fs_remove_file part)) (\<lambda>_. download_attempts c dg req d part n (Some e))
     | Inr bytes \<Rightarrow> io_bind (fs_rename part d) (\<lambda>_.
         io_bind (emit ''FileDownloadCompleted'' [dr_id req, srp_str (dr_destination req)]) (\<lambda>_.
         io_return \<lparr>do_path = d, do_bytes = bytes, do_reused = False\<rparr>))) ?Q ?J" for v
  proof (cases v)
    case (Inl e)
    with io_valid_bind [OF rem Suc.IH] show ?thesis by simp
  next
    case (Inr bytes)
    show ?thesis
      unfolding Inr sum.case by (rule io_valid_conseq [OF fin [of bytes]]) auto
  qed
  have sent: "io_valid ?J ?P (case s of Inl e \<Rightarrow> download_attempts c dg req d part n (Some e)
     | Inr _ \<Rightarrow> io_bind (io_try (verify_file dg part (dr_expected_size req) (dr_expected_hash req))) (\<lambda>v. case v of
       Inl e \<Rightarrow> io_bind (io_ignore (fs_remove_file part)) (\<lambda>_. download_attempts c dg req d part n (Some e))
     | Inr bytes \<Rightarrow> io_bind (fs_rename part d) (\<lambda>_.
         io_bind (emit ''FileDownloadCompleted'' [dr_id req, srp_str (dr_destination req)]) (\<lambda>_.
         io_return \<lparr>do_path = d, do_bytes = bytes, do_reused = False\<rparr>)))) ?Q ?J" for s :: "unit result"
    using Suc.IH io_valid_bind [OF verify after] by (cases s) simp_all
  have go: "io_valid ?J ?P is_cancelled (\<lambda>_. ?P) ?J"
    by (rule io_valid_frame) auto
  have stop: "io_valid ?J ?P (io_fail x) ?Q ?J" for x by (rule io_valid_fail) simp
  show ?case
    unfolding download_attempts.simps
    by (rule io_valid_bind [OF go]) (use stop io_valid_bind [OF once sent] in simp)
qed

lemma part_path_Inr:
  "part_path d = Inr part \<Longrightarrow> d \<noteq> [] \<and> part \<noteq> d"
  by (cases d rule: rev_cases) (auto simp: part_path_def path_file_name_def is_root_def split: option.splits if_splits)

lemma metadata_or_absent_valid:
  assumes "\<not> is_root p"
  shows "io_valid J P (metadata_or_absent p) (\<lambda>m t. P t \<and> m = t p) P"
proof (rule io_validI)
  fix w r w' assume w: "P (w_tree w)" and run: "metadata_or_absent p w = (r, w')"
  obtain g w1 where n: "next_fault w = (g, w1)" by fastforce
  note s = next_fault_simps [OF n]
  from run n s next_fault_kind [of w _ _ w1] assms
  have "w' = w1 \<and> (\<forall>m. r = Inr m \<longrightarrow> m = w_tree w p)"
    by (auto simp: metadata_or_absent_def fs_symlink_metadata_def io_catch_def io_bind_def io_query_def is_not_found_def
        split: option.splits if_splits)
  with w s show "crash_grows J w w' \<and> (case r of Inr m \<Rightarrow> P (w_tree w') \<and> m = w_tree w' p | Inl e \<Rightarrow> P (w_tree w'))"
    by (cases r) auto
qed

text \<open>What is left after the check is absent or a regular file.\<close>

abbreviation regular_or_absent :: "path \<Rightarrow> tree \<Rightarrow> bool" where
  "regular_or_absent p t \<equiv> t p = None \<or> (\<exists>c. t p = Some (FileNode c))"

lemma reject_symlink_valid:
  assumes "\<not> is_root p"
  shows "io_valid J P (reject_symlink_if_present p) (\<lambda>_ t. P t \<and> regular_or_absent p t) P"
  unfolding reject_symlink_if_present_def
proof (rule io_valid_map_err, rule io_valid_bind [OF metadata_or_absent_valid [OF assms]])
  show "io_valid J (\<lambda>t. P t \<and> m = t p) (case m of None \<Rightarrow> io_return ()
      | Some n \<Rightarrow> if is_file_node n then io_return ()
           else io_fail (Download (UnsafeDestination p ''existing destination must be a regular file'')))
     (\<lambda>_ t. P t \<and> regular_or_absent p t) P" for m
    by (auto split: option.split simp: is_file_node_def split: node.splits intro!: io_valid_return io_valid_fail)
qed

text \<open>A whole download of a path that a safe relative path names below a root.\<close>

definition fetched :: "digests \<Rightarrow> DownloadRequest \<Rightarrow> path \<Rightarrow> DownloadOutcome \<Rightarrow> tree \<Rightarrow> bool" where
  "fetched dg req d out t \<longleftrightarrow> (\<exists>c. read_tree d t = Inr c \<and> verified_file dg req c \<and>
     do_path out = d \<and> do_bytes out = u64_of_length (length c))"

lemma locked_download_valid:
  fixes dg :: digests and before :: "node option"
  assumes d: "d = join_under (dr_destination req) root"
    and len: "length root + length (split_on CHR ''/'' (srp_str (dr_destination req))) \<le> length d" "length root < length d"
    and root: "\<not> is_root d"
  defines "\<Psi> \<equiv> untouched_or_verified dg req before"
  shows "io_valid (at_path d \<Psi>) (\<lambda>t. t d = before) (locked_download c dg root req)
     (\<lambda>out t. fetched dg req d out t \<and> \<Psi> (t d)) (at_path d \<Psi>)"
    (is "io_valid ?J ?P _ ?Q _")
proof -
  have B: "\<Psi> before" by (simp add: \<Psi>_def untouched_or_verified_def)
  have 1: "io_valid ?J ?P (ensure_safe_parent root (dr_destination req)) (\<lambda>_. ?P) ?J"
    using io_valid_conseq [OF ensure_safe_parent_at [OF len, of "\<lambda>x. x = before" \<Psi>]] B by auto
  have 2: "io_valid ?J ?P (present_and_verified dg d (dr_expected_size req) (dr_expected_hash req))
     (\<lambda>b t. ?P t \<and> (b \<longrightarrow> (\<exists>c. read_tree d t = Inr c \<and> verified_file dg req c))) ?J"
    using io_valid_conseq [OF present_and_verified_valid [where P = ?P]] B by (auto simp: verified_file_def)
  have 3: "io_valid ?J (\<lambda>t. ?P t \<and> (\<exists>c. read_tree d t = Inr c \<and> verified_file dg req c))
     (io_bind (fs_metadata_len d) (\<lambda>n. io_return \<lparr>do_path = d, do_bytes = u64_of_length n, do_reused = True\<rparr>)) ?Q ?J"
  proof (rule io_valid_bind)
    show "io_valid ?J (\<lambda>t. ?P t \<and> (\<exists>c. read_tree d t = Inr c \<and> verified_file dg req c)) (fs_metadata_len d)
       (\<lambda>n t. t d = before \<and> (\<exists>c. read_tree d t = Inr c \<and> verified_file dg req c \<and> n = length c)) ?J"
      unfolding fs_metadata_len_def
      by (rule io_valid_query) (auto simp: B read_tree_def split: option.splits node.splits)
  qed (use B in \<open>auto simp: fetched_def intro!: io_valid_return\<close>)
  have 4: "io_valid ?J ?P (reject_symlink_if_present d) (\<lambda>_ t. ?P t) ?J"
    using io_valid_conseq [OF reject_symlink_valid [OF root, where P = ?P]] B by auto
  have 5: "io_valid ?J ?P (remove_if_present d) (\<lambda>_. ?J) ?J"
    unfolding remove_if_present_def fs_remove_file_def
    by (rule io_valid_bind [OF io_valid_frame [where Q = "\<lambda>_. ?P"]])
      (auto simp: B \<Psi>_def untouched_or_verified_def intro!: io_valid_step dest!: remove_file_tree_Inr)
  have 6: "io_valid ?J ?J (emit v a) (\<lambda>_. ?J) ?J" for v a by (rule io_valid_emit)
  have 7: "io_valid ?J ?J (io_lift (part_path d)) (\<lambda>part t. ?J t \<and> part_path d = Inr part) ?J"
    by (rule io_valid_lift) auto
  have 8: "io_valid ?J (\<lambda>t. ?J t \<and> part_path d = Inr part)
     (io_bind (reject_symlink_if_present part) (\<lambda>_. download_attempts c dg req d part n None)) ?Q ?J" for part n
  proof (cases "part_path d = Inr part")
    case True
    have pr: "\<not> is_root part"
      using True by (auto simp: part_path_def is_root_def split: option.splits)
    show ?thesis
    proof (rule io_valid_bind)
      show "io_valid ?J (\<lambda>t. ?J t \<and> part_path d = Inr part) (reject_symlink_if_present part) (\<lambda>_. filling d part \<Psi>) ?J"
        by (rule io_valid_conseq [OF reject_symlink_valid [OF pr, where P = ?J]]) auto
      show "io_valid ?J (filling d part \<Psi>) (download_attempts c dg req d part n None) ?Q ?J"
        using part_path_Inr [OF True]
        by (intro io_valid_conseq [OF download_attempts_filling [where dg = dg and req = req and before = before]])
          (auto simp: \<Psi>_def fetched_def untouched_or_verified_def)
    qed
  qed (simp add: io_valid_def)
  have 9: "io_valid ?J (\<lambda>t. ?P t \<and> (b \<longrightarrow> (\<exists>c. read_tree d t = Inr c \<and> verified_file dg req c))) (if b
      then io_bind (fs_metadata_len d) (\<lambda>n. io_return \<lparr>do_path = d, do_bytes = u64_of_length n, do_reused = True\<rparr>)
      else io_bind (reject_symlink_if_present d) (\<lambda>_.
        io_bind (remove_if_present d) (\<lambda>_.
        io_bind (emit ''FileDownloadStarted'' [dr_id req, srp_str (dr_destination req)]) (\<lambda>_.
        io_bind (io_lift (part_path d)) (\<lambda>part.
        io_bind (reject_symlink_if_present part) (\<lambda>_.
        download_attempts c dg req d part (Suc (unat (dc_retries c))) None)))))) ?Q ?J" for b
  proof (cases b)
    case True
    with 3 show ?thesis by simp
  next
    case False
    note rest = io_valid_bind [OF 4 io_valid_bind [OF 5 io_valid_bind [OF 6 io_valid_bind [OF 7 8]]]]
    from False show ?thesis by (simp only: if_False simp_thms) (rule rest)
  qed
  show ?thesis
    unfolding locked_download_def Let_def d [symmetric]
    by (rule io_valid_bind [OF 1 io_valid_bind [OF 2 9]])
qed

text \<open>\<open>recover_local\<close> finalises a complete \<open>.part\<close> file, or leaves the destination alone.\<close>

lemma locked_recover_local_valid:
  fixes dg :: digests and before :: "node option"
  assumes d: "d = join_under (dr_destination req) root"
    and len: "length root + length (split_on CHR ''/'' (srp_str (dr_destination req))) \<le> length d" "length root < length d"
    and root: "\<not> is_root d"
  defines "\<Psi> \<equiv> untouched_or_verified dg req before"
  shows "io_valid (at_path d \<Psi>) (\<lambda>t. t d = before) (locked_recover_local dg root req)
     (\<lambda>ok t. if ok then \<exists>c. t d = Some (FileNode c) \<and> verified_file dg req c else t d = before) (at_path d \<Psi>)"
    (is "io_valid ?J ?P _ ?Q _")
proof -
  have B: "\<Psi> before" by (simp add: \<Psi>_def untouched_or_verified_def)
  have 1: "io_valid ?J ?P (ensure_safe_parent root (dr_destination req)) (\<lambda>_. ?P) ?J"
    using io_valid_conseq [OF ensure_safe_parent_at [OF len, of "\<lambda>x. x = before" \<Psi>]] B by auto
  have 2: "io_valid ?J ?P (reject_symlink_if_present d) (\<lambda>_ t. ?P t \<and> regular_or_absent d t) ?J"
    by (rule io_valid_conseq [OF reject_symlink_valid [OF root, where P = ?P]]) (auto simp: B)
  have 3: "io_valid ?J (\<lambda>t. ?P t \<and> regular_or_absent d t)
     (present_and_verified dg d (dr_expected_size req) (dr_expected_hash req))
     (\<lambda>b t. ?P t \<and> (b \<longrightarrow> (\<exists>c. t d = Some (FileNode c) \<and> verified_file dg req c))) ?J"
    by (rule io_valid_conseq [OF present_and_verified_valid [where P = "\<lambda>t. ?P t \<and> regular_or_absent d t"]])
      (auto simp: verified_file_def B)
  have 4: "io_valid ?J ?P (io_lift (part_path d)) (\<lambda>part t. ?P t \<and> part_path d = Inr part) ?J"
    by (rule io_valid_lift) (auto simp: B)
  have rest: "io_valid ?J (\<lambda>t. ?P t \<and> part_path d = Inr part)
     (io_bind (reject_symlink_if_present part) (\<lambda>_.
        io_bind (present_and_verified dg part (dr_expected_size req) (dr_expected_hash req)) (\<lambda>complete.
        if \<not> complete then io_return False
        else io_bind (remove_if_present d) (\<lambda>_. io_bind (fs_rename part d) (\<lambda>_. io_return True))))) ?Q ?J" for part
  proof (cases "part_path d = Inr part")
    case True
    have pr: "\<not> is_root part"
      using True by (auto simp: part_path_def is_root_def split: option.splits)
    have dist: "part \<noteq> d" using part_path_Inr [OF True] by simp
    have 5: "io_valid ?J (\<lambda>t. ?P t \<and> part_path d = Inr part) (reject_symlink_if_present part)
       (\<lambda>_ t. ?P t \<and> regular_or_absent part t) ?J"
      by (rule io_valid_conseq [OF reject_symlink_valid [OF pr, where P = ?P]]) (auto simp: B)
    let ?C = "\<lambda>t. \<exists>c. t part = Some (FileNode c) \<and> verified_file dg req c"
    have 6: "io_valid ?J (\<lambda>t. ?P t \<and> regular_or_absent part t)
       (present_and_verified dg part (dr_expected_size req) (dr_expected_hash req)) (\<lambda>b t. ?P t \<and> (b \<longrightarrow> ?C t)) ?J"
      by (rule io_valid_conseq [OF present_and_verified_valid [where P = "\<lambda>t. ?P t \<and> regular_or_absent part t"]])
        (auto simp: verified_file_def B)
    have 7: "io_valid ?J (\<lambda>t. ?P t \<and> ?C t) (remove_if_present d) (\<lambda>_ t. ?J t \<and> ?C t) ?J"
      unfolding remove_if_present_def fs_remove_file_def
      by (rule io_valid_bind [OF io_valid_frame [where Q = "\<lambda>_ t. ?P t \<and> ?C t"]])
        (use dist in \<open>auto simp: B \<Psi>_def untouched_or_verified_def intro!: io_valid_step dest!: remove_file_tree_Inr\<close>)
    have 8: "io_valid ?J (\<lambda>t. ?J t \<and> ?C t) (fs_rename part d) (\<lambda>_ t. \<exists>c. t d = Some (FileNode c) \<and> verified_file dg req c) ?J"
      by (rule io_valid_rename_file) (use dist in \<open>auto simp: \<Psi>_def untouched_or_verified_def\<close>)
    have 9: "io_valid ?J (\<lambda>t. ?P t \<and> (b \<longrightarrow> ?C t)) (if \<not> b then io_return False
        else io_bind (remove_if_present d) (\<lambda>_. io_bind (fs_rename part d) (\<lambda>_. io_return True))) ?Q ?J" for b
    proof (cases b)
      case True
      have "io_valid ?J (\<lambda>t. ?P t \<and> ?C t) (io_bind (remove_if_present d) (\<lambda>_. io_bind (fs_rename part d) (\<lambda>_. io_return True))) ?Q ?J"
        by (rule io_valid_bind [OF 7 io_valid_bind [OF 8]]) auto
      with True show ?thesis by simp
    qed (auto intro!: io_valid_return)
    show ?thesis by (rule io_valid_bind [OF 5 io_valid_bind [OF 6 9]])
  qed (simp add: io_valid_def)
  have all: "io_valid ?J (\<lambda>t. ?P t \<and> (b \<longrightarrow> (\<exists>c. t d = Some (FileNode c) \<and> verified_file dg req c))) (if b then io_return True
      else io_bind (io_lift (part_path d)) (\<lambda>part. io_bind (reject_symlink_if_present part) (\<lambda>_.
        io_bind (present_and_verified dg part (dr_expected_size req) (dr_expected_hash req)) (\<lambda>complete.
        if \<not> complete then io_return False
        else io_bind (remove_if_present d) (\<lambda>_. io_bind (fs_rename part d) (\<lambda>_. io_return True)))))) ?Q ?J" for b
    using io_valid_bind [OF 4 rest] by (cases b) (auto intro!: io_valid_return)
  show ?thesis
    unfolding locked_recover_local_def Let_def d [symmetric]
    by (rule io_valid_bind [OF 1 io_valid_bind [OF 2 io_valid_bind [OF 3 all]]])
qed

lemma destination_below:
  assumes "srp_new s = Inr p"
  shows "length root + length (split_on CHR ''/'' (srp_str p)) \<le> length (join_under p root)"
    "length root < length (join_under p root)" "\<not> is_root (join_under p root)"
proof -
  from assms have v: "validate_relative_path s = Inr ()" and p: "p = SafeRelativePath s" by (auto simp: srp_new_Inr)
  have j: "join_under (SafeRelativePath s) root = root @ split_on CHR ''/'' s" using v by (simp add: join_under_valid)
  have ne: "split_on CHR ''/'' s \<noteq> []" by (cases s) (auto split: list.split)
  show "length root + length (split_on CHR ''/'' (srp_str p)) \<le> length (join_under p root)"
    "length root < length (join_under p root)" using ne by (simp_all add: p j)
  have "last (join_under p root) \<in> set (split_on CHR ''/'' s)" using ne by (simp add: p j)
  then have last: "last (split_on CHR ''/'' s) \<in> set (split_on CHR ''/'' s)" using ne by simp
  show "\<not> is_root (join_under p root)"
  proof
    assume "is_root (join_under p root)"
    then have "root @ split_on CHR ''/'' s = [] \<or> root @ split_on CHR ''/'' s = [''/'']"
      unfolding is_root_def p j .
    with ne have "split_on CHR ''/'' s = [''/'']" by (cases root) auto
    with validate_relative_path_components(4) [OF v last] show False by simp
  qed
qed

text \<open>Requests and results of the retry loops.\<close>

lemma attempts_Inr:
  "attempts n e once w = (Inr x, w') \<Longrightarrow> \<exists>w1. once w1 = (Inr x, w')"
proof (induction n arbitrary: e w)
  case (Suc n)
  from Suc.prems obtain w1 where "is_cancelled w = (Inr False, w1)"
    and c: "io_catch once (\<lambda>e. attempts n (Some e) once) w1 = (Inr x, w')"
    by (auto simp: io_bind_def split: prod.splits sum.splits if_splits)
  show ?case
  proof (cases "once w1")
    case (Pair r w2)
    show ?thesis
    proof (cases r)
      case (Inl e')
      with c Pair have "attempts n (Some e') once w2 = (Inr x, w')" by (simp add: io_catch_def)
      then show ?thesis by (rule Suc.IH)
    next
      case (Inr y)
      with c Pair show ?thesis by (auto simp: io_catch_def)
    qed
  qed
qed simp

lemma attempts_sends:
  assumes "io_sends 1 U once"
  shows "io_sends n U (attempts n e once)"
proof (induction n arbitrary: e)
  case (Suc n)
  have 1: "io_sends (1 + n) U (io_catch once (\<lambda>e. attempts n (Some e) once))"
    by (rule io_sends_catch [OF assms Suc.IH])
  show ?case
    unfolding attempts.simps
    by (rule io_sends_bind0) (use 1 in auto)
qed auto

lemma collect_chunks_Inr:
  "collect_chunks limit chunks acc w = (Inr bytes, w') \<Longrightarrow> length acc \<le> unat limit \<Longrightarrow>
     length bytes \<le> unat limit"
proof (induction chunks arbitrary: acc w)
  case (Cons chunk rest)
  from Cons.prems(1) obtain c w1 where "length acc + length c \<le> unat limit"
    "collect_chunks limit rest (acc @ c) w1 = (Inr bytes, w')"
    by (auto simp: io_bind_def not_less split: prod.splits sum.splits if_splits)
  with Cons.IH show ?case by simp
qed simp

lemma collect_chunks_sends: "io_sends 0 U (collect_chunks limit chunks acc)"
proof (induction chunks arbitrary: acc)
  case (Cons chunk rest)
  show ?case
    unfolding collect_chunks.simps
    by (rule io_sends_bind0) (auto split: sum.split simp: Cons.IH)
qed auto

lemma fetch_once_sends:
  "io_sends 1 {u} (fetch_bytes_once u limit)" "io_sends 1 {u} (fetch_conditional_once u etag lm limit)"
proof -
  have c: "io_sends 0 {u} (io_bind (io_lift (check_status limit u r)) (\<lambda>_. collect_chunks limit (hr_chunks r) []))" for r
    by (rule io_sends_bind0) (auto simp: collect_chunks_sends)
  show "io_sends 1 {u} (fetch_bytes_once u limit)"
    unfolding fetch_bytes_once_def
    using io_sends_bind [OF io_sends_http [OF singletonI] c] by simp
  have "io_sends 0 {u} (if hr_status r = 304 then io_return NotModified
     else io_bind (io_lift (check_status limit u r)) (\<lambda>_.
          io_bind (collect_chunks limit (hr_chunks r) []) (\<lambda>bytes.
          io_return (Modified bytes (map_of (hr_headers r) ''etag'') (map_of (hr_headers r) ''last-modified'')))))" for r
    by (auto intro!: io_sends_bind0 collect_chunks_sends)
  from io_sends_bind [OF io_sends_http [OF singletonI] this]
  show "io_sends 1 {u} (fetch_conditional_once u etag lm limit)"
    unfolding fetch_conditional_once_def by simp
qed

lemma fetch_sends:
  assumes "dl_validate_url c u = Inr () \<Longrightarrow> u \<in> U"
  shows "io_sends (Suc (unat (dc_retries c))) U (fetch_bytes c dg u es eh limit)"
    "io_sends (Suc (unat (dc_retries c))) U (fetch_conditional c u etag lm limit)"
proof -
  have g: "io_sends 0 {u} (io_bind (io_lift r) (\<lambda>_. io_return x))" for r :: "unit result" and x :: string
    by (rule io_sends_bind0) auto
  have b: "io_sends 1 {u} (io_bind (fetch_bytes_once u limit) (\<lambda>bytes.
        io_bind (io_lift (map_err Download (verify_bytes dg bytes es eh [''HTTP response'']))) (\<lambda>_. io_return bytes)))"
    using io_sends_bind [OF fetch_once_sends(1) g] by simp
  have guarded: "io_sends (Suc (unat (dc_retries c))) U
     (io_bind (io_lift (check_limit c u limit)) (\<lambda>_. attempts (Suc (unat (dc_retries c))) None once))"
    if o: "io_sends 1 {u} once" for once :: "'x io"
  proof (cases "check_limit c u limit")
    case (Inr x)
    then have "u \<in> U" using assms by (auto simp: check_limit_def)
    then have "io_sends (Suc (unat (dc_retries c))) U (attempts (Suc (unat (dc_retries c))) None once)"
      by (intro io_sends_mono [OF attempts_sends [OF o]]) auto
    with Inr show ?thesis by simp
  qed auto
  show "io_sends (Suc (unat (dc_retries c))) U (fetch_bytes c dg u es eh limit)"
    unfolding fetch_bytes_def by (rule guarded [OF b])
  show "io_sends (Suc (unat (dc_retries c))) U (fetch_conditional c u etag lm limit)"
    unfolding fetch_conditional_def by (rule guarded [OF fetch_once_sends(2)])
qed

lemma fetch_bytes_Inr:
  assumes "fetch_bytes c dg u es eh limit w = (Inr bytes, w')"
  shows "dl_validate_url c u = Inr () \<and> length bytes \<le> unat limit \<and> content_expected dg es eh bytes"
proof -
  from assms obtain w0 where cl: "check_limit c u limit = Inr ()"
    and a: "attempts (Suc (unat (dc_retries c))) None (io_bind (fetch_bytes_once u limit) (\<lambda>bytes.
        io_bind (io_lift (map_err Download (verify_bytes dg bytes es eh [''HTTP response'']))) (\<lambda>_.
        io_return bytes))) w0 = (Inr bytes, w')"
    by (auto simp: fetch_bytes_def io_bind_eq_Inr simp del: attempts.simps)
  from attempts_Inr [OF a] obtain w1 w2 where e: "content_expected dg es eh bytes"
    and f: "fetch_bytes_once u limit w1 = (Inr bytes, w2)"
    by (auto simp: io_bind_eq_Inr verify_bytes_def verify_content_Inr)
  from f have "length bytes \<le> unat limit"
    by (auto simp: fetch_bytes_once_def io_bind_eq_Inr dest: collect_chunks_Inr)
  with cl e show ?thesis by (auto simp: check_limit_def)
qed

text \<open>A chain of redirects the policy follows.\<close>

fun redirects_followed :: "DownloadConfig \<Rightarrow> Url list \<Rightarrow> Url list \<Rightarrow> bool" where
  "redirects_followed c previous [] = True"
| "redirects_followed c previous (target # rest) =
     (redirect_policy c previous target = Inr () \<and> redirects_followed c (previous @ [target]) rest)"

lemma redirect_policy_Inr:
  "redirect_policy c previous target = Inr () \<longleftrightarrow>
     length previous < 5 \<and>
     (previous \<noteq> [] \<and> url_scheme (last previous) = ''https'' \<longrightarrow> url_scheme target = ''https'') \<and>
     (url_scheme target = ''https'' \<or> dc_allow_insecure_http c \<and> url_scheme target = ''http'') \<and>
     (\<exists>host. url_host target = Some host \<and>
        (dc_allow_insecure_http c \<or> \<not> redirect_host_is_private host) \<and>
        (dc_allowed_hosts c = [] \<or> list_ex (\<lambda>a. eq_ignore_ascii_case a host) (dc_allowed_hosts c)))"
  by (auto simp: redirect_policy_def not_le split: option.splits if_splits)

section \<open>Properties\<close>

text \<open>C33: whatever the server sends, whatever operations fail and wherever the process stops, the
  destination of a download only ever changes to absent or to a file of the expected size and
  digest; when \<open>download\<close> succeeds, the file that is there has them.\<close>

theorem download_places_only_verified:
  assumes "srp_new s = Inr (dr_destination req)" "w_crash w = []"
    and "download c dg locks root req w = (r, w')"
  defines "d \<equiv> join_under (dr_destination req) root"
  shows "(\<forall>t \<in> insert (w_tree w') (set (w_crash w')). untouched_or_verified dg req (w_tree w d) (t d)) \<and>
    (\<forall>out. r = Inr out \<longrightarrow> fetched dg req d out (w_tree w'))"
proof -
  let ?\<Psi> = "untouched_or_verified dg req (w_tree w d)"
  let ?V = "\<lambda>m. io_valid (at_path d ?\<Psi>) (\<lambda>t. t d = w_tree w d) m (\<lambda>out t. fetched dg req d out t \<and> ?\<Psi> (t d)) (at_path d ?\<Psi>)"
  have start: "?\<Psi> (w_tree w d)" by (simp add: untouched_or_verified_def)
  have v: "?V (locked_download c dg root req)"
    unfolding d_def by (rule locked_download_valid [OF refl]) (rule destination_below [OF assms(1)])+
  have l: "?V (with_lock k (locked_download c dg root req))" for k
    by (rule io_valid_with_lock [OF v]) (simp add: start)
  have "?V (download c dg locks root req)"
    unfolding download_def
    by (rule io_valid_bind [OF io_valid_lift [where Q = "\<lambda>_ t. t d = w_tree w d"]])
      (use v l start in auto)
  from io_valid_run [OF this _ assms(2,3)] start show ?thesis by (auto split: sum.splits)
qed

text \<open>Offline recovery never changes a destination except into a file of the expected size and digest,
  and answers true exactly when such a regular file is there at the end.\<close>

theorem recover_local_places_only_verified:
  assumes "srp_new s = Inr (dr_destination req)" "w_crash w = []"
    and "recover_local c dg locks root req w = (r, w')"
  defines "d \<equiv> join_under (dr_destination req) root"
  shows "(\<forall>t \<in> set (w_crash w'). untouched_or_verified dg req (w_tree w d) (t d)) \<and>
    (r = Inr True \<longrightarrow> (\<exists>c. w_tree w' d = Some (FileNode c) \<and> verified_file dg req c)) \<and>
    (r = Inr False \<longrightarrow> w_tree w' d = w_tree w d)"
proof -
  let ?\<Psi> = "untouched_or_verified dg req (w_tree w d)"
  let ?V = "\<lambda>m. io_valid (at_path d ?\<Psi>) (\<lambda>t. t d = w_tree w d) m (\<lambda>ok t. if ok
     then \<exists>c. t d = Some (FileNode c) \<and> verified_file dg req c else t d = w_tree w d) (at_path d ?\<Psi>)"
  have start: "?\<Psi> (w_tree w d)" by (simp add: untouched_or_verified_def)
  have v: "?V (locked_recover_local dg root req)"
    unfolding d_def by (rule locked_recover_local_valid [OF refl]) (rule destination_below [OF assms(1)])+
  have l: "?V (with_lock k (locked_recover_local dg root req))" for k
    by (rule io_valid_with_lock [OF v]) (simp add: start)
  have "?V (recover_local c dg locks root req)"
    unfolding recover_local_def
    by (rule io_valid_bind [OF io_valid_lift [where Q = "\<lambda>_ t. t d = w_tree w d"]])
      (use v l start in auto)
  from io_valid_run [OF this _ assms(2,3)] show ?thesis by (auto split: sum.splits if_splits)
qed



text \<open>A \<open>416\<close> reply counts as a complete transfer: without an expected size or digest, whatever an
  earlier attempt left in the \<open>.part\<close> file becomes the finished download.\<close>

theorem range_not_satisfiable_finishes_part:
  assumes "w_faults w = []" "w_cancel w = None" "w_tree w part = Some (FileNode old)"
    and "w_net w = Inr reply # replies" "hr_status reply = 416"
    and "dr_expected_size req = None" "dr_expected_hash req = None"
    and "part \<noteq> d" "is_dir (w_tree w) (butlast d)" "\<not> is_dir (w_tree w) d"
  shows "\<exists>w'. download_attempts c dg req d part (Suc n) e w =
      (Inr \<lparr>do_path = d, do_bytes = u64_of_length (length old), do_reused = False\<rparr>, w') \<and>
    w_tree w' d = Some (FileNode old)"
proof -
  have f: "follow 40 (w_tree w) part = Some part" using assms(3) by (intro follow_plain) simp
  have ex: "dl_io (existing_length part) w = (Inr (u64_of_length (length old)), w)"
    using assms(1,3) f
    by (simp add: existing_length_def fs_metadata_len_def io_map_err_def io_catch_def io_bind_def io_query_run)
  let ?hs = "if u64_of_length (length old) > 0 then [(''range'', ''bytes='' @ show_nat (unat (u64_of_length (length old))) @ ''-'')] else []"
  let ?w1 = "w\<lparr>w_sent := (dr_source req, ?hs) # w_sent w, w_net := replies\<rparr>"
  have once: "download_once c req part w = (Inr (), ?w1)"
    using assms(4,5) by (simp add: download_once_def ex io_bind_def http_send_def Let_def)
  have ver: "verify_file dg part None None ?w1 = (Inr (u64_of_length (length old)), ?w1)"
    using assms(1,3)
    by (simp add: verify_file_def fs_read_def io_map_err_def io_bind_def io_query_run verify_content_def)
  have ren: "rename_tree part d (w_tree w) = Inr ((w_tree w)(d := Some (FileNode old), part := None))"
    using assms(3,8-10) by (simp add: rename_tree_def)
  show ?thesis
    using assms(1,2,8) once ver ren
    by (simp add: is_cancelled_def io_bind_def io_try_def assms(6,7) fs_rename_def io_step_run set_tree_def emit_def)
qed

text \<open>A small transfer.\<close>

definition sample_digests :: digests where
  "sample_digests a c = c"

definition sample_request :: DownloadRequest where
  "sample_request = \<lparr>dr_id = ''a'', dr_source = sample_url ''https://files.example/a.jar'',
     dr_destination = SafeRelativePath ''a.jar'', dr_expected_size = Some 3,
     dr_expected_hash = Some \<lparr>fh_algorithm = Sha256, fh_value = ''616263''\<rparr>\<rparr>"

definition sample_reply :: "nat \<Rightarrow> string \<Rightarrow> http_response" where
  "sample_reply status body =
     \<lparr>hr_status = status, hr_content_length = None, hr_headers = [], hr_chunks = [Inr body]\<rparr>"

definition sample_net :: "(string + http_response) list \<Rightarrow> world" where
  "sample_net replies = \<lparr>w_tree = [[''cache''] \<mapsto> DirNode], w_faults = [], w_crash = [], w_locks = {},
     w_events = [], w_net = replies, w_sent = [], w_cancel = None\<rparr>"

lemma sample_srp: "srp_new ''a.jar'' = Inr (dr_destination sample_request)"
  by code_simp

lemma sample_join: "join_under (dr_destination sample_request) [''cache''] = [''cache'', ''a.jar'']"
  by code_simp

theorem download_places_only_verified_witness:
  "case download dc_default sample_digests True [''cache''] sample_request
     (sample_net [Inr (sample_reply 200 ''abX''), Inr (sample_reply 200 ''abc'')]) of
   (r, w') \<Rightarrow> \<forall>out. r = Inr out \<longrightarrow> fetched sample_digests sample_request [''cache'', ''a.jar''] out (w_tree w')"
proof -
  let ?w = "sample_net [Inr (sample_reply 200 ''abX''), Inr (sample_reply 200 ''abc'')]"
  obtain r w' where "download dc_default sample_digests True [''cache''] sample_request ?w = (r, w')" by fastforce
  with download_places_only_verified [OF sample_srp _ this] show ?thesis by (simp add: sample_net_def sample_join)
qed



end
