(* ===== verification/Sync.thy ===== *)
theory Sync
  imports Rollback Download
begin

text \<open>
  The provider registry and the synchronisation of a provider (\<^verbatim>\<open>providers/service.rs\<close>): registering and
  removing providers, fetching documents, verifying the index and its children, and committing the
  snapshot.

  Everything the service calls that is not part of the repository is a field of \<open>provider_env\<close>:
  JSON parsing and printing, URL parsing and joining, name resolution, \<open>canonicalize\<close>, the clock.
\<close>

section \<open>The collaborators of the service\<close>

record provider_env =
  pe_root :: path
  pe_trust_root :: path
  pe_crypto :: crypto
  pe_downloads :: DownloadConfig
  pe_allow_private_networks :: bool
  pe_allowed_hosts :: "string list"
  pe_max_index_size :: u64
  pe_max_instance_manifest_size :: u64
  pe_now :: u64
  pe_url_parse :: "string \<Rightarrow> string + Url"
  pe_url_join :: "Url \<Rightarrow> string \<Rightarrow> string + Url"
  pe_url_set_path :: "Url \<Rightarrow> string \<Rightarrow> Url"
  pe_lookup_host :: "string \<Rightarrow> string + IpAddr list"
  pe_canonicalize :: "path \<Rightarrow> path result"
  pe_parse_index :: "string \<Rightarrow> string + RawProviderManifest"
  pe_parse_manifest :: "string \<Rightarrow> string + RawInstanceManifest"
  pe_parse_envelope :: "string \<Rightarrow> string + SignatureEnvelope"
  pe_registry_json :: "RegistryDocument codec"
  pe_snapshot_json :: "ProviderSnapshot codec"
  pe_rollback_json :: "RollbackDocument codec"
  pe_trust_json :: "TrustDocument codec"

definition env_urls :: "provider_env \<Rightarrow> UrlSettings" where
  "env_urls env = \<lparr>us_allow_insecure_http = dc_allow_insecure_http (pe_downloads env),
     us_allowed_hosts = pe_allowed_hosts env, us_allow_private_networks = pe_allow_private_networks env\<rparr>"

definition sha256_hex :: "provider_env \<Rightarrow> string \<Rightarrow> string" where
  "sha256_hex env bytes = lower_hex (cr_sha256 (pe_crypto env) bytes)"

section \<open>The registry\<close>

definition registered_source :: "provider_env \<Rightarrow> ProviderSource \<Rightarrow> ProviderSource io" where
  "registered_source env source =
     (case source of
        LocalSource p \<Rightarrow>
          io_bind (fs_symlink_metadata p) (\<lambda>n.
          if \<not> is_file_node n then io_fail (UnsafeFilesystemEntry p ''provider index must be a real file'')
          else io_bind (io_lift (pe_canonicalize env p)) (\<lambda>p'. io_return (LocalSource p')))
      | RemoteSource u \<Rightarrow>
          io_bind (io_lift (validate_remote_url_syntax (env_urls env) u)) (\<lambda>_. io_return (RemoteSource u)))"

definition provider_add_with_trust ::
    "provider_env \<Rightarrow> ProviderId \<Rightarrow> ProviderSource \<Rightarrow> SignaturePolicy \<Rightarrow> KeyId option \<Rightarrow> ProviderRegistration io" where
  "provider_add_with_trust env pid source policy key =
     (if policy = PolicyRequired \<and> key = None
      then io_fail (Trust (TrustStoreError ''required signature policy needs an expected trusted key ID''))
      else
      io_bind (case key of
          None \<Rightarrow> io_return ()
        | Some k \<Rightarrow> io_bind (ts_query (pe_trust_json env) (pe_trust_root env) (trust_get k)) (\<lambda>_. io_return ())) (\<lambda>_.
      io_bind (registered_source env source) (\<lambda>source'.
      with_lock ''providers:registry'' (
      io_bind (load_registry (pe_registry_json env) (pe_root env)) (\<lambda>registry.
      if bt_contains (rd_providers registry) pid then io_fail (AlreadyExists ''provider'' (pid_str pid))
      else
        let registration = \<lparr>pr_id = pid, pr_source = source', pr_added = pe_now env,
                            pr_signature_policy = policy, pr_trusted_key_id = key\<rparr> in
        io_bind (write_registry (pe_registry_json env) (pe_root env)
          (registry\<lparr>rd_providers := bt_insert pid registration (rd_providers registry)\<rparr>)) (\<lambda>_.
        io_bind (emit ''ProviderAdded'' [pid_str pid]) (\<lambda>_.
        io_return registration)))))))"

definition provider_add :: "provider_env \<Rightarrow> ProviderId \<Rightarrow> ProviderSource \<Rightarrow> ProviderRegistration io" where
  "provider_add env pid source =
     (case source of
        RemoteSource _ \<Rightarrow> io_fail (Trust (TrustStoreError
          ''remote providers require an explicit signature policy and trusted key''))
      | LocalSource _ \<Rightarrow> provider_add_with_trust env pid source PolicyOptional None)"

definition provider_not_found :: "ProviderId \<Rightarrow> Error" where
  "provider_not_found pid = NotFound ''provider'' (pid_str pid)"

definition provider_remove :: "provider_env \<Rightarrow> ProviderId \<Rightarrow> ProviderRegistration io" where
  "provider_remove env pid =
     with_lock ''providers:registry'' (
     io_bind (load_registry (pe_registry_json env) (pe_root env)) (\<lambda>registry.
     io_bind (io_lift (ok_or (bt_get (rd_providers registry) pid) (provider_not_found pid))) (\<lambda>registration.
     io_bind (write_registry (pe_registry_json env) (pe_root env)
       (registry\<lparr>rd_providers := bt_remove pid (rd_providers registry)\<rparr>)) (\<lambda>_.
     io_bind (emit ''ProviderRemoved'' [pid_str pid]) (\<lambda>_.
     io_return registration)))))"

definition provider_list :: "provider_env \<Rightarrow> ProviderRegistration list io" where
  "provider_list env =
     io_bind (load_registry (pe_registry_json env) (pe_root env)) (\<lambda>registry.
     io_return (map snd (rd_providers registry)))"

definition provider_get :: "provider_env \<Rightarrow> ProviderId \<Rightarrow> ProviderRegistration io" where
  "provider_get env pid =
     io_bind (load_registry (pe_registry_json env) (pe_root env)) (\<lambda>registry.
     io_lift (ok_or (bt_get (rd_providers registry) pid) (provider_not_found pid)))"

definition snapshot_path :: "provider_env \<Rightarrow> ProviderId \<Rightarrow> path" where
  "snapshot_path env pid = pe_root env @ [''snapshots'', pid_str pid @ ''.json'']"

definition provider_snapshot :: "provider_env \<Rightarrow> ProviderId \<Rightarrow> ProviderSnapshot io" where
  "provider_snapshot env pid =
     io_bind (io_map_err (\<lambda>e. if is_not_found e then StaticProvider (MissingSnapshot (pid_str pid)) else e)
        (read_with_previous (snapshot_path env pid))) (\<lambda>bytes.
     io_bind (io_lift (map_err Error.Json (decode_json (pe_snapshot_json env) bytes))) (\<lambda>snapshot.
     if sn_format_version snapshot \<noteq> SNAPSHOT_FORMAT_VERSION
     then io_fail (UnsupportedFormat ''provider snapshot'' (sn_format_version snapshot))
     else if sn_registration_id snapshot \<noteq> pid
     then io_fail (invalid_manifest ''provider snapshot registry identity mismatch'')
     else io_return snapshot))"

definition provider_definition :: "provider_env \<Rightarrow> ProviderInstanceId \<Rightarrow> ProviderInstanceDefinition io" where
  "provider_definition env key =
     io_bind (provider_snapshot env (pi_provider_id key)) (\<lambda>snapshot.
     io_lift (ok_or (bt_get (sn_instances snapshot) (pi_instance_id key)) (NotFound ''provider instance'' (pi_show key))))"

section \<open>Fetching documents\<close>

datatype DocumentFetch =
    FetchNotModified
  | FetchModified string "ProviderHttpMetadata option"

definition fetch_remote_document ::
    "provider_env \<Rightarrow> Url \<Rightarrow> ProviderHttpMetadata option \<Rightarrow> u64 \<Rightarrow> DocumentFetch io" where
  "fetch_remote_document env u previous limit =
     io_bind (io_lift (validate_remote_access (pe_lookup_host env) (env_urls env) u)) (\<lambda>_.
     io_bind (fetch_conditional (pe_downloads env) u
        (Option.bind previous hm_etag) (Option.bind previous hm_last_modified) limit) (\<lambda>reply.
     io_return (case reply of
        NotModified \<Rightarrow> FetchNotModified
      | Modified bytes etag last_modified \<Rightarrow>
          FetchModified bytes (Some \<lparr>hm_url = u, hm_etag = etag, hm_last_modified = last_modified,
             hm_retrieved = pe_now env, hm_content_sha256 = sha256_hex env bytes\<rparr>))))"

definition fetch_document ::
    "provider_env \<Rightarrow> ProviderSource \<Rightarrow> ProviderHttpMetadata option \<Rightarrow> u64 \<Rightarrow> DocumentFetch io" where
  "fetch_document env source previous limit =
     (case source of
        LocalSource p \<Rightarrow> io_bind (read_bounded_real_file p limit) (\<lambda>bytes. io_return (FetchModified bytes None))
      | RemoteSource u \<Rightarrow> fetch_remote_document env u previous limit)"

definition fetch_resource_document ::
    "provider_env \<Rightarrow> ProviderResource \<Rightarrow> ProviderHttpMetadata option \<Rightarrow> u64 \<Rightarrow> DocumentFetch io" where
  "fetch_resource_document env source previous limit =
     (case source of
        LocalResource p root \<Rightarrow>
          io_bind (validate_local_resource root p) (\<lambda>_.
          io_bind (read_bounded_real_file p limit) (\<lambda>bytes. io_return (FetchModified bytes None)))
      | RemoteResource u \<Rightarrow> fetch_remote_document env u previous limit)"

section \<open>Verifying the index\<close>

definition provider_verification ::
    "provider_env \<Rightarrow> SignatureStatus \<Rightarrow> u64 option \<Rightarrow> string \<Rightarrow> string \<Rightarrow> SignatureEnvelope option
      \<Rightarrow> ProviderVerification" where
  "provider_verification env status revision content document envelope =
     \<lparr>pv_signature_status = status, pv_algorithm = map_option (\<lambda>_. Ed25519) envelope,
      pv_key_id = map_option se_key_id envelope, pv_signature = map_option se_signature envelope,
      pv_content_sha256 = content,
      pv_verified = (if status = Verified then Some (pe_now env) else None),
      pv_revision = revision,
      pv_document_base64 = cr_base64_encode (pe_crypto env) document, pv_envelope = envelope\<rparr>"

definition legacy_provider_verification :: ProviderVerification where
  "legacy_provider_verification =
     \<lparr>pv_signature_status = Unsigned, pv_algorithm = None, pv_key_id = None, pv_signature = None,
      pv_content_sha256 = [], pv_verified = None, pv_revision = None, pv_document_base64 = [],
      pv_envelope = None\<rparr>"

definition detached_signature_source :: "provider_env \<Rightarrow> ProviderSource \<Rightarrow> ProviderSource" where
  "detached_signature_source env source =
     (case source of
        LocalSource p \<Rightarrow> LocalSource (butlast p @ [last p @ ''.sig''])
      | RemoteSource u \<Rightarrow> RemoteSource (pe_url_set_path env u (url_path u @ ''.sig'')))"

definition signature_not_found :: "Error \<Rightarrow> bool" where
  "signature_not_found e =
     (case e of
        Error.Io k \<Rightarrow> k = IoNotFound
      | Download (HttpStatus status _) \<Rightarrow> status = 404
      | _ \<Rightarrow> False)"

definition trust_error_kind :: "Error \<Rightarrow> string" where
  "trust_error_kind e =
     (case e of
        Trust t \<Rightarrow> (case t of
            SignatureMissing \<Rightarrow> ''signature_missing''
          | SignatureInvalid \<Rightarrow> ''signature_invalid''
          | UnsupportedSignatureAlgorithm _ \<Rightarrow> ''unsupported_signature_algorithm''
          | UntrustedSigningKey _ \<Rightarrow> ''untrusted_signing_key''
          | SigningKeyMismatch _ _ \<Rightarrow> ''signing_key_mismatch''
          | ManifestRollbackDetected _ _ _ \<Rightarrow> ''manifest_rollback_detected''
          | InvalidKeyTransition _ \<Rightarrow> ''invalid_key_transition''
          | TrustStoreError _ \<Rightarrow> ''trust_store_error''
          | _ \<Rightarrow> ''trust_error'')
      | _ \<Rightarrow> ''manifest_verification_failed'')"

text \<open>The asynchronous block that checks the envelope.\<close>

definition verify_envelope ::
    "provider_env \<Rightarrow> ProviderId \<Rightarrow> ProviderRegistration \<Rightarrow> RawProviderManifest \<Rightarrow> string \<Rightarrow> string \<Rightarrow> string
      \<Rightarrow> ProviderVerification io" where
  "verify_envelope env pid registration raw bytes content envelope_bytes =
     io_bind (io_lift (map_err (\<lambda>_. Trust SignatureInvalid) (pe_parse_envelope env envelope_bytes))) (\<lambda>envelope.
     io_bind (io_lift (ok_or (pr_trusted_key_id registration) (Trust (UntrustedSigningKey (se_key_id envelope))))) (\<lambda>expected.
     io_bind (io_lift (ok_or (rp_revision raw)
        (invalid_manifest ''signed provider index requires a non-zero revision''))) (\<lambda>revision.
     if revision = 0
     then io_fail (invalid_manifest ''signed provider index revision must be greater than zero'')
     else
       io_bind (ts_query (pe_trust_json env) (pe_trust_root env) (\<lambda>doc.
          verify_provider (pe_crypto env) doc bytes envelope expected (pid_str pid) revision)) (\<lambda>_.
       io_return (provider_verification env Verified (Some revision) content bytes (Some envelope))))))"

definition announce_verification :: "ProviderId \<Rightarrow> ProviderVerification result \<Rightarrow> unit io" where
  "announce_verification pid r =
     (case r of
        Inr v \<Rightarrow> emit ''ManifestVerified'' [pid_str pid, (case pv_key_id v of None \<Rightarrow> [] | Some k \<Rightarrow> key_str k),
                   show_nat (case pv_revision v of None \<Rightarrow> 0 | Some n \<Rightarrow> unat n)]
      | Inl e \<Rightarrow> emit ''ManifestVerificationFailed'' [pid_str pid, trust_error_kind e])"

definition verify_provider_index ::
    "provider_env \<Rightarrow> ProviderId \<Rightarrow> ProviderRegistration \<Rightarrow> RawProviderManifest \<Rightarrow> string \<Rightarrow> ProviderVerification io" where
  "verify_provider_index env pid registration raw bytes =
     io_bind (io_lift (map_err Trust (canonicalize_json (pe_crypto env) bytes))) (\<lambda>canonical.
     let content = sha256_hex env canonical in
     if pr_signature_policy registration = PolicyDisabled
     then io_return (provider_verification env StatusDisabled (rp_revision raw) content bytes None)
     else
       io_bind (emit ''ManifestVerificationStarted'' [pid_str pid]) (\<lambda>_.
       io_bind (io_catch
          (io_bind (fetch_document env (detached_signature_source env (pr_source registration)) None 65536) (\<lambda>f.
           io_return (case f of FetchModified b _ \<Rightarrow> Some b | FetchNotModified \<Rightarrow> None)))
          (\<lambda>e. if signature_not_found e then io_return None else io_fail e)) (\<lambda>envelope_bytes.
       case envelope_bytes of
         None \<Rightarrow>
           if pr_signature_policy registration = PolicyRequired
           then io_bind (emit ''ManifestVerificationFailed'' [pid_str pid, ''signature_missing'']) (\<lambda>_.
                io_fail (Trust SignatureMissing))
           else io_return (provider_verification env Unsigned (rp_revision raw) content bytes None)
       | Some b \<Rightarrow>
           io_bind (io_try (verify_envelope env pid registration raw bytes content b)) (\<lambda>r.
           io_bind (announce_verification pid r) (\<lambda>_. io_lift r)))))"

section \<open>Synchronisation\<close>

record ProviderSyncReport =
  sr_provider_id :: ProviderId
  sr_declared_id :: ProviderId
  sr_instances :: u64
  sr_not_modified :: bool
  sr_updated_instances :: "InstanceId list"
  sr_signature_status :: SignatureStatus
  sr_key_id :: "KeyId option"
  sr_revision :: "u64 option"

text \<open>The answer when the server reports the index as not modified.\<close>

definition sync_not_modified ::
    "provider_env \<Rightarrow> ProviderId \<Rightarrow> ProviderRegistration \<Rightarrow> ProviderSnapshot option \<Rightarrow> ProviderSyncReport io" where
  "sync_not_modified env pid registration previous =
     io_bind (io_lift (ok_or previous (StaticProvider (MissingSnapshot (pid_str pid))))) (\<lambda>snapshot.
     let v = sn_verification snapshot in
     if pr_signature_policy registration = PolicyRequired \<and> pv_signature_status v \<noteq> Verified
     then io_fail (Trust SignatureMissing)
     else
       io_bind (if pv_signature_status v = Verified
          then
            io_bind (io_lift (ok_or (pr_trusted_key_id registration)
               (Trust (TrustStoreError ''verified provider registration has no expected key'')))) (\<lambda>expected.
            io_bind (io_lift (ok_or (pv_key_id v)
               (Trust (TrustStoreError ''verified snapshot has no signing-key fingerprint'')))) (\<lambda>actual.
            io_bind (io_lift (ok_or (sn_provider_revision snapshot)
               (invalid_manifest ''verified snapshot has no provider revision''))) (\<lambda>revision.
            io_bind (ts_query (pe_trust_json env) (pe_trust_root env)
               (trust_authorize expected actual (pid_str pid) revision)) (\<lambda>_. io_return ()))))
          else io_return ()) (\<lambda>_.
       io_bind (emit ''ProviderNotModified'' [pid_str pid]) (\<lambda>_.
       io_return \<lparr>sr_provider_id = pid, sr_declared_id = id_id (sn_provider snapshot),
          sr_instances = of_nat (length (sn_instances snapshot)), sr_not_modified = True,
          sr_updated_instances = [], sr_signature_status = pv_signature_status v, sr_key_id = pv_key_id v,
          sr_revision = sn_provider_revision snapshot\<rparr>)))"

definition signed_digest :: "RawProviderInstanceReference \<Rightarrow> InstanceId \<Rightarrow> string result" where
  "signed_digest reference i =
     ok_or (rr_sha256 reference) (invalid_manifest (''signed index omits SHA-256 for instance `'' @ iid_str i @ ''`''))"

text \<open>A child the server reports as not modified comes from the previous snapshot.\<close>

definition reuse_manifest ::
    "ProviderId \<Rightarrow> ProviderSnapshot option \<Rightarrow> bool \<Rightarrow> InstanceId
      \<Rightarrow> (ProviderInstanceDefinition \<times> CachedManifestDocument option) result" where
  "reuse_manifest pid previous signed_root i =
     res_bind (ok_or previous (StaticProvider (MissingSnapshot (pid_str pid)))) (\<lambda>snapshot.
     res_bind (ok_or (bt_get (sn_instances snapshot) i)
        (invalid_manifest (''server returned 304 for uncached instance `'' @ iid_str i @ ''`''))) (\<lambda>d.
     let document = bt_get (sn_manifest_documents snapshot) i in
     if signed_root \<and> document = None
     then Inl (invalid_manifest (''server returned 304 without cached authenticated bytes for `'' @ iid_str i @ ''`''))
     else Inr (d, document)))"

fun check_remote_sources :: "UrlSettings \<Rightarrow> ProviderFile list \<Rightarrow> unit result" where
  "check_remote_sources s [] = Inr ()"
| "check_remote_sources s (f # fs) =
     res_bind (case pf_source f of RemoteResource u \<Rightarrow> validate_remote_url_syntax s u | _ \<Rightarrow> Inr ()) (\<lambda>_.
     check_remote_sources s fs)"

text \<open>A child that was fetched: its digest, its JSON, its content and the URLs of its files are checked.\<close>

definition accept_manifest ::
    "provider_env \<Rightarrow> bool \<Rightarrow> InstanceId \<Rightarrow> RawProviderInstanceReference \<Rightarrow> ProviderResource \<Rightarrow> string
      \<Rightarrow> (ProviderInstanceDefinition \<times> CachedManifestDocument) result" where
  "accept_manifest env signed_root i reference source bytes =
     (let content = sha256_hex env bytes in
      res_bind (if signed_root
        then res_bind (signed_digest reference i) (\<lambda>expected.
             res_bind (fh_new Sha256 expected) (\<lambda>h.
             if fh_value h \<noteq> content then Inl (Trust SignatureInvalid) else Inr ()))
        else Inr ()) (\<lambda>_.
      res_bind (map_err (\<lambda>e. invalid_manifest (''instance `'' @ iid_str i @ ''` JSON: '' @ e))
        (pe_parse_manifest env bytes)) (\<lambda>raw.
      res_bind (im_validate (resolve_from_resource (pe_url_parse env) (pe_url_join env) (env_urls env) source)
        (dc_max_file_size (pe_downloads env)) i raw) (\<lambda>d.
      res_bind (check_remote_sources (env_urls env) (pd_files d)) (\<lambda>_.
      res_bind (check_remote_sources (env_urls env) (concat (map pc_files (pd_components d)))) (\<lambda>_.
      Inr (d, \<lparr>cm_document_base64 = cr_base64_encode (pe_crypto env) bytes,
               cm_content_sha256 = content, cm_revision = pd_revision d\<rparr>)))))))"

text \<open>The last check on a child below a signed root, whichever way its document came.\<close>

definition check_signed_child ::
    "RawProviderInstanceReference \<Rightarrow> InstanceId \<Rightarrow> CachedManifestDocument option \<Rightarrow> unit result" where
  "check_signed_child reference i document =
     res_bind (signed_digest reference i) (\<lambda>expected.
     res_bind (ok_or document
        (invalid_manifest (''authenticated bytes are unavailable for instance `'' @ iid_str i @ ''`''))) (\<lambda>cached.
     if cm_content_sha256 cached \<noteq> to_ascii_lowercase expected then Inl (Trust SignatureInvalid) else Inr ()))"

record sync_state =
  ss_seen :: "InstanceId list"
  ss_instances :: "(InstanceId, ProviderInstanceDefinition) btree"
  ss_http :: "(InstanceId, ProviderHttpMetadata) btree"
  ss_documents :: "(InstanceId, CachedManifestDocument) btree"

definition source_remote_url :: "ProviderResource \<Rightarrow> Url option" where
  "source_remote_url source = (case source of RemoteResource u \<Rightarrow> Some u | LocalResource _ _ \<Rightarrow> None)"

definition source_display :: "ProviderResource \<Rightarrow> string" where
  "source_display source =
     (case source of RemoteResource u \<Rightarrow> safe_url u | LocalResource p _ \<Rightarrow> join_with CHR ''/'' p)"

text \<open>The cached validators of a child, when they are for the URL it has now.\<close>

definition previous_metadata ::
    "ProviderSnapshot option \<Rightarrow> InstanceId \<Rightarrow> ProviderResource \<Rightarrow> ProviderHttpMetadata option" where
  "previous_metadata previous i source =
     Option.bind (Option.bind previous (\<lambda>s. bt_get (sn_instance_http s) i))
       (\<lambda>m. if source_remote_url source = Some (hm_url m) then Some m else None)"

definition insert_some :: "'k::linorder \<Rightarrow> 'v option \<Rightarrow> ('k, 'v) btree \<Rightarrow> ('k, 'v) btree" where
  "insert_some k v m = (case v of None \<Rightarrow> m | Some x \<Rightarrow> bt_insert k x m)"

text \<open>The body of the loop over the references of the index.\<close>

definition fetch_child ::
    "provider_env \<Rightarrow> ProviderId \<Rightarrow> ProviderSnapshot option \<Rightarrow> bool \<Rightarrow> InstanceId \<Rightarrow> RawProviderInstanceReference
      \<Rightarrow> ProviderResource
      \<Rightarrow> ((ProviderInstanceDefinition \<times> CachedManifestDocument option) \<times> ProviderHttpMetadata option) io" where
  "fetch_child env pid previous signed_root i reference source =
     (let previous_http = previous_metadata previous i source in
      io_bind (fetch_resource_document env source previous_http (pe_max_instance_manifest_size env)) (\<lambda>f. case f of
        FetchNotModified \<Rightarrow>
          io_bind (emit ''ProviderCacheHit'' [pid_str pid, source_display source]) (\<lambda>_.
          io_bind (io_lift (reuse_manifest pid previous signed_root i)) (\<lambda>child.
          io_return (child, previous_http)))
      | FetchModified bytes http \<Rightarrow>
          io_bind (io_lift (accept_manifest env signed_root i reference source bytes)) (\<lambda>(d, cached).
          io_return ((d, Some cached), http))))"

definition sync_reference ::
    "provider_env \<Rightarrow> ProviderId \<Rightarrow> ProviderRegistration \<Rightarrow> ProviderSnapshot option \<Rightarrow> bool \<Rightarrow> nat \<Rightarrow> nat
      \<Rightarrow> RawProviderInstanceReference \<Rightarrow> sync_state \<Rightarrow> sync_state io" where
  "sync_reference env pid registration previous signed_root count position reference st =
     io_bind (io_lift (iid_new (rr_id reference))) (\<lambda>i.
     if i \<in> set (ss_seen st) then io_fail (StaticProvider (DuplicateInstance (iid_str i)))
     else
       io_bind (io_lift (resolve_from_source (pe_url_parse env) (pe_url_join env) (env_urls env)
          (pr_source registration) (rr_manifest reference))) (\<lambda>source.
       io_bind (fetch_child env pid previous signed_root i reference source) (\<lambda>((d, document), http).
       io_bind (io_lift (if signed_root then check_signed_child reference i document else Inr ())) (\<lambda>_.
       io_bind (emit ''ProviderSyncProgress'' [pid_str pid, show_nat (Suc position), show_nat count]) (\<lambda>_.
       io_return \<lparr>ss_seen = i # ss_seen st, ss_instances = bt_insert i d (ss_instances st),
          ss_http = insert_some i http (ss_http st),
          ss_documents = insert_some i document (ss_documents st)\<rparr>)))))"

fun sync_references ::
    "provider_env \<Rightarrow> ProviderId \<Rightarrow> ProviderRegistration \<Rightarrow> ProviderSnapshot option \<Rightarrow> bool \<Rightarrow> nat \<Rightarrow> nat
      \<Rightarrow> RawProviderInstanceReference list \<Rightarrow> sync_state \<Rightarrow> sync_state io" where
  "sync_references env pid registration previous signed_root count position [] st = io_return st"
| "sync_references env pid registration previous signed_root count position (reference # rest) st =
     io_bind (sync_reference env pid registration previous signed_root count position reference st) (\<lambda>st'.
     sync_references env pid registration previous signed_root count (Suc position) rest st')"

definition changed_instances :: "ProviderSnapshot option \<Rightarrow> ProviderSnapshot \<Rightarrow> InstanceId list" where
  "changed_instances previous current =
     map fst (filter (\<lambda>(i, d). Option.bind previous (\<lambda>s. bt_get (sn_instances s) i) \<noteq> Some d) (sn_instances current))"

fun announce_updates :: "ProviderId \<Rightarrow> ProviderSnapshot \<Rightarrow> InstanceId list \<Rightarrow> unit io" where
  "announce_updates pid snapshot [] = io_return ()"
| "announce_updates pid snapshot (i # rest) =
     io_bind (case bt_get (sn_instances snapshot) i of
         None \<Rightarrow> io_return ()
       | Some d \<Rightarrow> emit ''InstanceDefinitionUpdated'' [pid_str pid, iid_str i, show_nat (unat (pd_revision d))]) (\<lambda>_.
     announce_updates pid snapshot rest)"

text \<open>The commit of a completely verified snapshot.\<close>

definition commit_snapshot ::
    "provider_env \<Rightarrow> ProviderId \<Rightarrow> ProviderSnapshot option \<Rightarrow> ProviderSnapshot \<Rightarrow> bool \<Rightarrow> InstanceId list io" where
  "commit_snapshot env pid previous snapshot allow_rollback =
     io_bind (if pv_signature_status (sn_verification snapshot) = Verified
        then enforce_and_record_revisions (pe_rollback_json env) (pe_root env) pid snapshot allow_rollback
        else io_return ()) (\<lambda>_.
     let updated = changed_instances previous snapshot in
     io_bind (write_snapshot (pe_snapshot_json env) (pe_root env) pid snapshot) (\<lambda>_.
     io_bind (announce_updates pid snapshot updated) (\<lambda>_. io_return updated)))"

definition build_snapshot ::
    "provider_env \<Rightarrow> ProviderId \<Rightarrow> ProviderRegistration \<Rightarrow> RawProviderManifest \<Rightarrow> ProviderHttpMetadata option
      \<Rightarrow> ProviderVerification \<Rightarrow> ProviderId \<Rightarrow> sync_state \<Rightarrow> ProviderSnapshot" where
  "build_snapshot env pid registration raw index_http verification declared st =
     \<lparr>sn_format_version = SNAPSHOT_FORMAT_VERSION, sn_registration_id = pid,
      sn_provider = \<lparr>id_id = declared, id_name = ri_name (rp_provider raw),
                     id_description = ri_description (rp_provider raw)\<rparr>,
      sn_source = pr_source registration, sn_synced = pe_now env,
      sn_instances = ss_instances st, sn_index_http = index_http, sn_instance_http = ss_http st,
      sn_provider_revision = rp_revision raw, sn_verification = verification,
      sn_manifest_documents = ss_documents st\<rparr>"

text \<open>The children of a verified index, the commit and the report.\<close>

definition sync_children ::
    "provider_env \<Rightarrow> ProviderId \<Rightarrow> ProviderRegistration \<Rightarrow> ProviderSnapshot option \<Rightarrow> bool \<Rightarrow> RawProviderManifest
      \<Rightarrow> ProviderHttpMetadata option \<Rightarrow> ProviderVerification \<Rightarrow> ProviderId \<Rightarrow> ProviderSyncReport io" where
  "sync_children env pid registration previous allow_rollback raw index_http verification declared =
     io_bind (sync_references env pid registration previous (pv_signature_status verification = Verified)
        (length (rp_instances raw)) 0 (rp_instances raw)
        \<lparr>ss_seen = [], ss_instances = [], ss_http = [], ss_documents = []\<rparr>) (\<lambda>st.
     let snapshot = build_snapshot env pid registration raw index_http verification declared st in
     io_bind (commit_snapshot env pid previous snapshot allow_rollback) (\<lambda>updated.
     io_return \<lparr>sr_provider_id = pid, sr_declared_id = declared,
        sr_instances = of_nat (length (sn_instances snapshot)), sr_not_modified = False,
        sr_updated_instances = updated, sr_signature_status = pv_signature_status verification,
        sr_key_id = pv_key_id verification, sr_revision = rp_revision raw\<rparr>))"

definition check_index :: "RawProviderManifest \<Rightarrow> ProviderId result" where
  "check_index raw =
     (if rp_format_version raw \<noteq> PROVIDER_FORMAT_VERSION
      then Inl (StaticProvider (UnsupportedProviderFormat (rp_format_version raw)))
      else res_bind (pid_new (ri_id (rp_provider raw))) (\<lambda>declared.
      if is_blank (ri_name (rp_provider raw)) \<or> length (ri_name (rp_provider raw)) > 128
      then Inl (invalid_manifest ''provider name must contain 1-128 characters'')
      else Inr declared))"

definition sync_modified ::
    "provider_env \<Rightarrow> ProviderId \<Rightarrow> ProviderRegistration \<Rightarrow> ProviderSnapshot option \<Rightarrow> bool \<Rightarrow> string
      \<Rightarrow> ProviderHttpMetadata option \<Rightarrow> ProviderSyncReport io" where
  "sync_modified env pid registration previous allow_rollback index_bytes index_http =
     io_bind (io_lift (map_err (\<lambda>e. invalid_manifest (''provider index JSON: '' @ e)) (pe_parse_index env index_bytes))) (\<lambda>raw.
     io_bind (verify_provider_index env pid registration raw index_bytes) (\<lambda>verification.
     io_bind (io_lift (check_index raw)) (\<lambda>declared.
     sync_children env pid registration previous allow_rollback raw index_http verification declared)))"

definition sync_inner :: "provider_env \<Rightarrow> ProviderId \<Rightarrow> bool \<Rightarrow> ProviderSyncReport io" where
  "sync_inner env pid allow_rollback =
     io_bind (provider_get env pid) (\<lambda>registration.
     io_bind (io_try (provider_snapshot env pid)) (\<lambda>prev.
     let previous = res_ok prev in
     io_bind (fetch_document env (pr_source registration) (Option.bind previous sn_index_http)
        (pe_max_index_size env)) (\<lambda>f. case f of
       FetchNotModified \<Rightarrow> sync_not_modified env pid registration previous
     | FetchModified bytes http \<Rightarrow> sync_modified env pid registration previous allow_rollback bytes http)))"

definition provider_lock :: "ProviderId \<Rightarrow> string" where
  "provider_lock pid = ''provider:'' @ pid_str pid"

text \<open>\<open>sync_with_cancellation\<close>; the token is the one of the world.\<close>

definition provider_sync :: "provider_env \<Rightarrow> ProviderId \<Rightarrow> bool \<Rightarrow> ProviderSyncReport io" where
  "provider_sync env pid allow_rollback =
     with_lock (provider_lock pid)
       (io_bind (emit ''ProviderSyncStarted'' [pid_str pid]) (\<lambda>_.
        io_bind (io_try (sync_inner env pid allow_rollback)) (\<lambda>r.
        io_bind (case r of
            Inr report \<Rightarrow> emit ''ProviderSyncCompleted'' [pid_str pid, show_nat (unat (sr_instances report))]
          | Inl e \<Rightarrow> emit ''ProviderSyncFailed'' [pid_str pid]) (\<lambda>_.
        io_lift r))))"

section \<open>Lemmas\<close>

subsection \<open>Everything before the commit only reads\<close>

lemma io_frame_case [intro]:
  "io_frame a \<Longrightarrow> (\<And>x. io_frame (f x)) \<Longrightarrow> io_frame (case m of None \<Rightarrow> a | Some x \<Rightarrow> f x)"
  by (simp split: option.split)

lemma read_with_previous_frame [intro]: "io_frame (read_with_previous p)"
  unfolding read_with_previous_def by (intro io_frame_catch io_frame_reads io_frame_if io_frame_basic)

lemma load_with_previous_frame [intro]: "io_frame (load_with_previous js p version expected kind d)"
  unfolding load_with_previous_def
  by (intro io_frame_bind io_frame_catch read_with_previous_frame io_frame_case io_frame_if io_frame_basic)

lemma load_frames [intro]:
  "io_frame (load_registry js1 root)" "io_frame (load_rollback_state js2 root)"
  by (auto simp: load_registry_def load_rollback_state_def)

lemma ts_query_frame [intro]: "io_frame (ts_query js root f)"
  unfolding ts_query_def ts_load_def
  by (intro io_frame_bind io_frame_catch io_frame_reads io_frame_case io_frame_if io_frame_basic)

lemma provider_get_frame [intro]: "io_frame (provider_get env pid)"
  unfolding provider_get_def by (intro io_frame_bind load_frames io_frame_basic)

lemma provider_snapshot_frame [intro]: "io_frame (provider_snapshot env pid)"
  unfolding provider_snapshot_def
  by (intro io_frame_bind io_frame_map_err read_with_previous_frame io_frame_if io_frame_basic)

lemma read_bounded_frame [intro]: "io_frame (read_bounded_real_file p limit)"
  unfolding read_bounded_real_file_def
  by (intro io_frame_bind io_frame_reads) (auto split: node.split simp: Let_def)

lemma validate_local_components_frame: "io_frame (validate_local_components current cs)"
proof (induction cs arbitrary: current)
  case (Cons c cs)
  show ?case
    unfolding validate_local_components.simps Let_def
    by (intro io_frame_bind io_frame_reads io_frame_if io_frame_basic Cons.IH)
qed (simp only: validate_local_components.simps io_frame_basic)

lemma validate_local_resource_frame [intro]: "io_frame (validate_local_resource root p)"
  unfolding validate_local_resource_def
  by (intro io_frame_bind io_frame_reads io_frame_if io_frame_basic validate_local_components_frame)

lemma attempts_frame: "io_frame once \<Longrightarrow> io_frame (attempts n e once)"
proof (induction n arbitrary: e)
  case (Suc n)
  then show ?case
    unfolding attempts.simps by (intro io_frame_bind io_frame_catch io_frame_if io_frame_basic)
qed (simp only: attempts.simps io_frame_basic)

lemma collect_chunks_frame: "io_frame (collect_chunks limit chunks acc)"
proof (induction chunks arbitrary: acc)
  case (Cons chunk rest)
  then show ?case
    unfolding collect_chunks.simps
    by (intro io_frame_bind io_frame_if io_frame_basic) (auto split: sum.split)
qed (simp only: collect_chunks.simps io_frame_basic)

lemma fetch_conditional_frame [intro]: "io_frame (fetch_conditional c u etag lm limit)"
  unfolding fetch_conditional_def fetch_conditional_once_def
  by (intro io_frame_bind attempts_frame io_frame_if io_frame_basic collect_chunks_frame)

lemma fetch_document_frames [intro]:
  "io_frame (fetch_document env source previous limit)" "io_frame (fetch_resource_document env rsource previous limit)"
proof -
  have r: "io_frame (fetch_remote_document env u previous limit)" for u
    unfolding fetch_remote_document_def by (intro io_frame_bind fetch_conditional_frame io_frame_basic)
  show "io_frame (fetch_document env source previous limit)" "io_frame (fetch_resource_document env rsource previous limit)"
    unfolding fetch_document_def fetch_resource_document_def using r
    by (auto split: ProviderSource.split ProviderResource.split
        intro!: io_frame_bind read_bounded_frame validate_local_resource_frame)
qed

lemma verify_provider_index_frame [intro]: "io_frame (verify_provider_index env pid reg raw bytes)"
proof -
  have e: "io_frame (verify_envelope env pid reg raw bytes content b)" for content b
    unfolding verify_envelope_def by (intro io_frame_bind ts_query_frame io_frame_if io_frame_basic)
  have a: "io_frame (announce_verification pid r)" for r
    unfolding announce_verification_def by (auto split: sum.split)
  show ?thesis
    unfolding verify_provider_index_def Let_def
    by (intro io_frame_bind io_frame_catch io_frame_if io_frame_case io_frame_basic io_frame_try fetch_document_frames e a)
qed

lemma sync_reference_frame [intro]:
  "io_frame (sync_reference env pid reg previous signed_root count position reference st)"
proof -
  have c: "io_frame (fetch_child env pid previous signed_root i reference source)" for i source
    unfolding fetch_child_def Let_def
    by (intro io_frame_bind fetch_document_frames)
      (auto split: DocumentFetch.split intro!: io_frame_bind)
  show ?thesis
    unfolding sync_reference_def
    by (intro io_frame_bind io_frame_if io_frame_basic) (auto intro!: io_frame_bind c split: prod.split)
qed

lemma sync_references_frame [intro]:
  "io_frame (sync_references env pid reg previous signed_root count position references st)"
proof (induction references arbitrary: position st)
  case (Cons reference rest)
  then show ?case
    unfolding sync_references.simps by (intro io_frame_bind sync_reference_frame)
qed (simp only: sync_references.simps io_frame_basic)

lemma sync_not_modified_frame [intro]: "io_frame (sync_not_modified env pid reg previous)"
  unfolding sync_not_modified_def Let_def
  by (intro io_frame_bind io_frame_if io_frame_basic ts_query_frame)

subsection \<open>What the reads return\<close>

lemma fs_read_result:
  assumes "fs_read p w = (r, w')"
  shows "w_tree w' = w_tree w" "r = Inr c \<Longrightarrow> read_tree p (w_tree w) = Inr c"
    "r = Inl (Error.Io IoNotFound) \<Longrightarrow> read_tree p (w_tree w) = Inl IoNotFound"
proof -
  obtain g w1 where n: "next_fault w = (g, w1)" by fastforce
  note s = next_fault_simps [OF n]
  have k: "g = Some (e, k) \<Longrightarrow> e \<noteq> IoNotFound" for e k using n next_fault_kind by blast
  show "w_tree w' = w_tree w" "r = Inr c \<Longrightarrow> read_tree p (w_tree w) = Inr c"
    "r = Inl (Error.Io IoNotFound) \<Longrightarrow> read_tree p (w_tree w) = Inl IoNotFound"
    using assms s k
    by (auto simp: fs_read_def io_query_def n map_err_def split: option.splits sum.splits)
qed

lemma read_with_previous_result:
  assumes "read_with_previous p w = (r, w')"
  shows "r = Inr b \<Longrightarrow> document_at p (w_tree w) = Some b"
    "r = Inl (Error.Io IoNotFound) \<Longrightarrow> document_at p (w_tree w) = None"
proof -
  obtain x w1 where x: "fs_read p w = (x, w1)" by fastforce
  note x1 = fs_read_result [OF x]
  obtain y w2 where y: "fs_read (with_extension p ''json.previous'') w1 = (y, w2)" by fastforce
  note y1 = fs_read_result [OF y]
  show "r = Inr b \<Longrightarrow> document_at p (w_tree w) = Some b"
    "r = Inl (Error.Io IoNotFound) \<Longrightarrow> document_at p (w_tree w) = None"
    using assms x y x1 y1
    by (auto simp: read_with_previous_def io_catch_def document_at_def is_not_found_def res_ok_def
        split: sum.splits if_splits)
qed

text \<open>The document a store holds in a tree.\<close>

definition stored :: "'doc codec \<Rightarrow> path \<Rightarrow> 'doc \<Rightarrow> tree \<Rightarrow> 'doc \<Rightarrow> bool" where
  "stored js p default_doc t doc \<longleftrightarrow>
     (\<exists>b. document_at p t = Some b \<and> decode_json js b = Inr doc) \<or> (document_at p t = None \<and> doc = default_doc)"

lemma load_with_previous_stored:
  assumes "load_with_previous js p version expected kind default_doc w = (Inr doc, w')"
  shows "stored js p default_doc (w_tree w) doc"
proof -
  obtain r w1 where r: "read_with_previous p w = (r, w1)" by fastforce
  note r1 = read_with_previous_result [OF r]
  show ?thesis
  proof (cases r)
    case (Inr b)
    with assms r have "decode_json js b = Inr doc"
      by (auto simp: load_with_previous_def io_bind_def io_catch_def map_err_def split: sum.splits if_splits)
    with r1(1) [OF Inr] show ?thesis by (auto simp: stored_def)
  next
    case (Inl e)
    with assms r have "e = Error.Io IoNotFound \<and> doc = default_doc"
      by (auto simp: load_with_previous_def io_bind_def io_catch_def is_not_found_def split: if_splits)
    with r1(2) Inl show ?thesis by (auto simp: stored_def)
  qed
qed

definition registered :: "provider_env \<Rightarrow> tree \<Rightarrow> ProviderId \<Rightarrow> ProviderRegistration \<Rightarrow> bool" where
  "registered env t pid reg \<longleftrightarrow> (\<exists>registry.
     stored (pe_registry_json env) (pe_root env @ [''registry.json'']) registry_default t registry \<and>
     bt_get (rd_providers registry) pid = Some reg)"

lemma provider_get_registered:
  "provider_get env pid w = (Inr reg, w') \<Longrightarrow> registered env (w_tree w) pid reg"
  by (auto simp: provider_get_def io_bind_eq_Inr registered_def load_registry_def dest!: load_with_previous_stored)

definition committed :: "provider_env \<Rightarrow> tree \<Rightarrow> ProviderId \<Rightarrow> ProviderSnapshot \<Rightarrow> bool" where
  "committed env t pid s \<longleftrightarrow> sn_registration_id s = pid \<and> sn_format_version s = SNAPSHOT_FORMAT_VERSION \<and>
     (\<exists>b. document_at (snapshot_path env pid) t = Some b \<and> decode_json (pe_snapshot_json env) b = Inr s)"

lemma provider_snapshot_committed:
  assumes "provider_snapshot env pid w = (Inr s, w')"
  shows "committed env (w_tree w) pid s"
  using assms
  by (auto simp: provider_snapshot_def io_bind_eq_Inr io_map_err_eq_Inr committed_def
      dest!: read_with_previous_result(1) split: if_splits)

definition trusted_document :: "provider_env \<Rightarrow> tree \<Rightarrow> TrustDocument \<Rightarrow> bool" where
  "trusted_document env t doc \<longleftrightarrow> (let p = pe_trust_root env @ [''trust.json''] in
     (\<exists>b. read_tree p t = Inr b \<and> decode_json (pe_trust_json env) b = Inr doc) \<or>
     (read_tree p t = Inl IoNotFound \<and> doc = trust_document_default))"

lemma ts_query_trusted:
  assumes "ts_query (pe_trust_json env) (pe_trust_root env) f w = (Inr x, w')"
  shows "\<exists>doc. trusted_document env (w_tree w) doc \<and> f doc = Inr x"
proof -
  let ?p = "pe_trust_root env @ [''trust.json'']"
  from assms obtain doc w1 where l: "ts_load (pe_trust_json env) (pe_trust_root env) w = (Inr doc, w1)" and f: "f doc = Inr x"
    by (auto simp: ts_query_def io_bind_eq_Inr)
  obtain r w2 where r: "fs_read ?p w = (r, w2)" by fastforce
  note r1 = fs_read_result [OF r]
  have "trusted_document env (w_tree w) doc"
  proof (cases r)
    case (Inr b)
    with l r have "decode_json (pe_trust_json env) b = Inr doc"
      by (auto simp: ts_load_def io_bind_def io_catch_def map_err_def split: sum.splits if_splits)
    with r1(2) [OF Inr] show ?thesis by (auto simp: trusted_document_def)
  next
    case (Inl e)
    with l r have "e = Error.Io IoNotFound \<and> doc = trust_document_default"
      by (auto simp: ts_load_def io_bind_def io_catch_def is_not_found_def split: if_splits)
    with r1(3) Inl show ?thesis by (auto simp: trusted_document_def)
  qed
  with f show ?thesis by blast
qed

text \<open>What an accepted index guarantees.\<close>

definition index_verified ::
    "provider_env \<Rightarrow> tree \<Rightarrow> ProviderId \<Rightarrow> ProviderRegistration \<Rightarrow> RawProviderManifest \<Rightarrow> string \<Rightarrow> ProviderVerification \<Rightarrow> bool" where
  "index_verified env t pid reg raw bytes v \<longleftrightarrow>
     (\<exists>doc envelope expected revision. trusted_document env t doc \<and>
        pr_trusted_key_id reg = Some expected \<and> rp_revision raw = Some revision \<and> revision \<noteq> 0 \<and>
        verify_provider (pe_crypto env) doc bytes envelope expected (pid_str pid) revision = Inr () \<and>
        pv_key_id v = Some (se_key_id envelope) \<and> pv_revision v = Some revision)"

definition index_accepted ::
    "provider_env \<Rightarrow> tree \<Rightarrow> ProviderId \<Rightarrow> ProviderRegistration \<Rightarrow> RawProviderManifest \<Rightarrow> string \<Rightarrow> ProviderVerification \<Rightarrow> bool" where
  "index_accepted env t pid reg raw bytes v \<longleftrightarrow>
     (pr_signature_policy reg = PolicyRequired \<longrightarrow> pv_signature_status v = Verified) \<and>
     (pv_signature_status v = Verified \<longrightarrow> index_verified env t pid reg raw bytes v)"

lemma verify_envelope_Inr:
  assumes "verify_envelope env pid reg raw bytes content b w = (Inr v, w')"
  shows "pv_signature_status v = Verified \<and> index_verified env (w_tree w) pid reg raw bytes v"
  using assms
  by (auto simp: verify_envelope_def io_bind_eq_Inr index_verified_def provider_verification_def
      dest!: ts_query_trusted split: if_splits) blast

lemma verify_provider_index_Inr:
  assumes "verify_provider_index env pid reg raw bytes w = (Inr v, w')"
  shows "index_accepted env (w_tree w) pid reg raw bytes v"
proof (cases "pr_signature_policy reg = PolicyDisabled")
  case True
  with assms show ?thesis
    by (auto simp: verify_provider_index_def io_bind_eq_Inr Let_def index_accepted_def provider_verification_def)
next
  case False
  let ?src = "detached_signature_source env (pr_source reg)"
  let ?fetch = "io_catch (io_bind (fetch_document env ?src None 65536) (\<lambda>f.
           io_return (case f of FetchModified b _ \<Rightarrow> Some b | FetchNotModified \<Rightarrow> None)))
          (\<lambda>e. if signature_not_found e then io_return None else io_fail e)"
  have fr: "io_frame ?fetch"
    by (intro io_frame_catch io_frame_bind fetch_document_frames io_frame_if io_frame_basic)
  from assms False obtain canonical w1 eb w2 where e: "emit ''ManifestVerificationStarted'' [pid_str pid] w = (Inr (), w1)"
    and f: "?fetch w1 = (Inr eb, w2)"
    and rest: "(case eb of
         None \<Rightarrow>
           if pr_signature_policy reg = PolicyRequired
           then io_bind (emit ''ManifestVerificationFailed'' [pid_str pid, ''signature_missing'']) (\<lambda>_.
                io_fail (Trust SignatureMissing))
           else io_return (provider_verification env Unsigned (rp_revision raw) (sha256_hex env canonical) bytes None)
       | Some b \<Rightarrow>
           io_bind (io_try (verify_envelope env pid reg raw bytes (sha256_hex env canonical) b)) (\<lambda>r.
           io_bind (announce_verification pid r) (\<lambda>_. io_lift r))) w2 = (Inr v, w')"
    by (auto simp: verify_provider_index_def io_bind_eq_Inr Let_def)
  have tree: "w_tree w2 = w_tree w"
    using io_frameD [OF fr f] e by (auto simp: emit_def)
  show ?thesis
  proof (cases eb)
    case None
    with rest show ?thesis
      by (auto simp: io_bind_eq_Inr index_accepted_def provider_verification_def split: if_splits)
  next
    case (Some b)
    with rest obtain w3 where "verify_envelope env pid reg raw bytes (sha256_hex env canonical) b w2 = (Inr v, w3)"
      by (auto simp: io_bind_eq_Inr io_try_def split: prod.splits)
    from verify_envelope_Inr [OF this] tree show ?thesis by (simp add: index_accepted_def)
  qed
qed


text \<open>What the loop over the references guarantees of the children it collected.\<close>

definition fresh_child :: "provider_env \<Rightarrow> InstanceId \<Rightarrow> ProviderInstanceDefinition \<Rightarrow> CachedManifestDocument \<Rightarrow> bool" where
  "fresh_child env i d c \<longleftrightarrow> (\<exists>source bytes raw. pe_parse_manifest env bytes = Inr raw \<and>
     im_validate (resolve_from_resource (pe_url_parse env) (pe_url_join env) (env_urls env) source)
       (dc_max_file_size (pe_downloads env)) i raw = Inr d \<and>
     c = \<lparr>cm_document_base64 = cr_base64_encode (pe_crypto env) bytes,
          cm_content_sha256 = sha256_hex env bytes, cm_revision = pd_revision d\<rparr>)"

definition child_accepted ::
    "provider_env \<Rightarrow> ProviderSnapshot option \<Rightarrow> bool \<Rightarrow> RawProviderInstanceReference list \<Rightarrow> InstanceId
      \<Rightarrow> ProviderInstanceDefinition \<Rightarrow> CachedManifestDocument option \<Rightarrow> bool" where
  "child_accepted env previous signed_root references i d document \<longleftrightarrow>
     (\<exists>reference \<in> set references. iid_new (rr_id reference) = Inr i \<and>
        (signed_root \<longrightarrow> (\<exists>expected c. rr_sha256 reference = Some expected \<and> document = Some c \<and>
           cm_content_sha256 c = to_ascii_lowercase expected))) \<and>
     ((\<exists>c. document = Some c \<and> fresh_child env i d c) \<or>
      (\<exists>s. previous = Some s \<and> bt_get (sn_instances s) i = Some d \<and> bt_get (sn_manifest_documents s) i = document))"

definition collected ::
    "provider_env \<Rightarrow> ProviderSnapshot option \<Rightarrow> bool \<Rightarrow> RawProviderInstanceReference list \<Rightarrow> sync_state \<Rightarrow> bool" where
  "collected env previous signed_root references st \<longleftrightarrow>
     bt_wf (ss_instances st) \<and> bt_wf (ss_documents st) \<and>
     (\<forall>i. (bt_get (ss_instances st) i \<noteq> None \<or> bt_get (ss_documents st) i \<noteq> None) \<longrightarrow> i \<in> set (ss_seen st)) \<and>
     (\<forall>i d. bt_get (ss_instances st) i = Some d \<longrightarrow>
        child_accepted env previous signed_root references i d (bt_get (ss_documents st) i))"

lemma accept_manifest_Inr:
  "accept_manifest env signed_root i reference source bytes = Inr (d, c) \<Longrightarrow> fresh_child env i d c"
  by (auto simp: accept_manifest_def Let_def fresh_child_def)

lemma reuse_manifest_Inr:
  "reuse_manifest pid previous signed_root i = Inr (d, document) \<Longrightarrow>
     \<exists>s. previous = Some s \<and> bt_get (sn_instances s) i = Some d \<and> bt_get (sn_manifest_documents s) i = document"
  by (auto simp: reuse_manifest_def Let_def split: if_splits)

lemma fetch_child_Inr:
  assumes "fetch_child env pid previous signed_root i reference source w = (Inr ((d, document), http), w')"
  shows "(\<exists>c. document = Some c \<and> fresh_child env i d c) \<or>
    (\<exists>s. previous = Some s \<and> bt_get (sn_instances s) i = Some d \<and> bt_get (sn_manifest_documents s) i = document)"
proof -
  from assms obtain f w1 where "(case f of
        FetchNotModified \<Rightarrow>
          io_bind (emit ''ProviderCacheHit'' [pid_str pid, source_display source]) (\<lambda>_.
          io_bind (io_lift (reuse_manifest pid previous signed_root i)) (\<lambda>child.
          io_return (child, previous_metadata previous i source)))
      | FetchModified bytes http \<Rightarrow>
          io_bind (io_lift (accept_manifest env signed_root i reference source bytes)) (\<lambda>(d, cached).
          io_return ((d, Some cached), http))) w1 = (Inr ((d, document), http), w')"
    by (auto simp: fetch_child_def io_bind_eq_Inr Let_def)
  then show ?thesis
    by (cases f) (auto simp: io_bind_eq_Inr dest: accept_manifest_Inr reuse_manifest_Inr split: prod.splits)
qed

lemma child_accepted_mono:
  "child_accepted env previous signed_root references i d document \<Longrightarrow> set references \<subseteq> set references' \<Longrightarrow>
     child_accepted env previous signed_root references' i d document"
  unfolding child_accepted_def by blast

lemma sync_reference_collected:
  assumes "sync_reference env pid reg previous signed_root count position reference st w = (Inr st', w')"
    and "collected env previous signed_root references st" "reference \<in> set references"
  shows "collected env previous signed_root references st'"
proof -
  from assms(1) obtain i source d document http w1 w2 where i: "iid_new (rr_id reference) = Inr i" "i \<notin> set (ss_seen st)"
    and f: "fetch_child env pid previous signed_root i reference source w1 = (Inr ((d, document), http), w2)"
    and c: "signed_root \<longrightarrow> check_signed_child reference i document = Inr ()"
    and st': "st' = \<lparr>ss_seen = i # ss_seen st, ss_instances = bt_insert i d (ss_instances st),
          ss_http = insert_some i http (ss_http st), ss_documents = insert_some i document (ss_documents st)\<rparr>"
    by (auto simp: sync_reference_def io_bind_eq_Inr split: if_splits prod.splits)
  have wf: "bt_wf (ss_instances st)" "bt_wf (ss_documents st)"
    and old: "\<And>j. bt_get (ss_instances st) j \<noteq> None \<or> bt_get (ss_documents st) j \<noteq> None \<Longrightarrow> j \<in> set (ss_seen st)"
    using assms(2) by (auto simp: collected_def)
  have fresh: "bt_get (ss_documents st) i = None" using old [of i] i(2) by (cases "bt_get (ss_documents st) i") auto
  have docs: "bt_get (ss_documents st') j = (if j = i then document else bt_get (ss_documents st) j)" for j
    using fresh by (auto simp: st' insert_some_def bt_get_insert [OF wf(2)] split: option.split)
  have new: "child_accepted env previous signed_root references i d document"
    using fetch_child_Inr [OF f] c i(1) assms(3)
    by (auto simp: child_accepted_def check_signed_child_def signed_digest_def split: if_splits)
  show ?thesis
    using assms(2) new wf i(2) old
    unfolding collected_def docs
    by (auto simp: st' insert_some_def bt_get_insert [OF wf(1)] split: option.split if_splits)
qed

lemma sync_references_collected:
  "sync_references env pid reg previous signed_root count position rs st w = (Inr st', w') \<Longrightarrow>
   collected env previous signed_root references st \<Longrightarrow> set rs \<subseteq> set references \<Longrightarrow>
   collected env previous signed_root references st'"
proof (induction rs arbitrary: position st w)
  case (Cons r rs)
  then show ?case by (auto simp: io_bind_eq_Inr dest: sync_reference_collected)
qed simp

subsection \<open>The commit\<close>

definition good_for ::
    "provider_env \<Rightarrow> tree \<Rightarrow> ProviderId \<Rightarrow> ProviderSnapshot \<Rightarrow> ProviderRegistration \<Rightarrow> string \<Rightarrow> RawProviderManifest
      \<Rightarrow> ProviderSnapshot option \<Rightarrow> bool" where
  "good_for env t pid s reg bytes raw previous \<longleftrightarrow>
     registered env t pid reg \<and> pe_parse_index env bytes = Inr raw \<and>
     index_accepted env t pid reg raw bytes (sn_verification s) \<and>
     sn_registration_id s = pid \<and> sn_provider_revision s = rp_revision raw \<and>
     (\<forall>s0. previous = Some s0 \<longrightarrow> committed env t pid s0) \<and>
     (\<forall>i d. bt_get (sn_instances s) i = Some d \<longrightarrow>
        child_accepted env previous (pv_signature_status (sn_verification s) = Verified) (rp_instances raw) i d
          (bt_get (sn_manifest_documents s) i))"

definition snapshot_good :: "provider_env \<Rightarrow> tree \<Rightarrow> ProviderId \<Rightarrow> ProviderSnapshot \<Rightarrow> bool" where
  "snapshot_good env t pid s \<longleftrightarrow> (\<exists>reg bytes raw previous. good_for env t pid s reg bytes raw previous)"

text \<open>The committed document is the old one, or that of a completely checked snapshot.\<close>

definition old_or_good :: "provider_env \<Rightarrow> tree \<Rightarrow> ProviderId \<Rightarrow> string \<Rightarrow> tree \<Rightarrow> bool" where
  "old_or_good env t0 pid old t \<longleftrightarrow> holds_document (snapshot_path env pid) old t \<or>
     (\<exists>s b. snapshot_good env t0 pid s \<and> encode_json (pe_snapshot_json env) s = Inr b \<and>
        t (snapshot_path env pid) = Some (FileNode b))"

abbreviation no_link :: "path \<Rightarrow> tree \<Rightarrow> bool" where
  "no_link p t \<equiv> \<forall>q. t p \<noteq> Some (SymlinkNode q)"

definition sync_ready :: "provider_env \<Rightarrow> ProviderId \<Rightarrow> string \<Rightarrow> tree \<Rightarrow> bool" where
  "sync_ready env pid old t \<longleftrightarrow> holds_document (snapshot_path env pid) old t \<and>
     no_link (with_extension (snapshot_path env pid) ''json.tmp'') t"

lemma io_valid_pure:
  assumes "F \<Longrightarrow> io_valid J P m Q E"
  shows "io_valid J (\<lambda>t. P t \<and> F) m Q E"
  using assms by (cases F) (auto simp: io_valid_def)

lemma rollback_extension:
  "with_extension (root @ [''rollback.json'']) e = root @ [''rollback.'' @ e]"
proof -
  have "file_stem ''rollback.json'' = ''rollback''" using file_stem_json [of "''rollback''"] by simp
  then show ?thesis by (simp add: with_extension_def)
qed

lemma snapshot_path_simps:
  "snapshot_path env pid = pe_root env @ [''snapshots'', pid_str pid @ ''.json'']"
  "with_extension (root @ [a, b]) e = root @ [a, file_stem b @ ''.'' @ e]"
  by (simp_all add: snapshot_path_def with_extension_def butlast_append)

lemma record_revisions_elsewhere:
  "io_valid (old_or_good env t0 pid old)
     (\<lambda>t. sync_ready env pid old t \<and> no_link (pe_root env @ [''rollback.json.tmp'']) t)
     (enforce_and_record_revisions (pe_rollback_json env) (pe_root env) pid s allow)
     (\<lambda>_. sync_ready env pid old) (sync_ready env pid old)"
proof -
  let ?J = "old_or_good env t0 pid old" and ?I = "sync_ready env pid old"
  let ?S = "\<lambda>t. ?I t \<and> no_link (pe_root env @ [''rollback.json.tmp'']) t"
  let ?d = "snapshot_path env pid"
  have dep: "depends_on {?d, with_extension ?d ''json.previous'', with_extension ?d ''json.tmp''} ?I"
    by (auto simp: depends_on_def sync_ready_def holds_document_def)
  have IJ: "?I t \<Longrightarrow> ?J t" for t by (simp add: sync_ready_def old_or_good_def)
  have wr: "io_valid ?J ?S (service_atomic_json (pe_root env) [''rollback.json''] b) (\<lambda>_. ?I) ?I" for b
  proof (rule io_valid_conseq [OF service_atomic_json_elsewhere [where stem = "''rollback''", OF _ _ _ dep IJ]])
    fix q assume "q \<in> {?d, with_extension ?d ''json.previous'', with_extension ?d ''json.tmp''}"
    then show "length (pe_root env @ [''rollback.json'']) < length q \<and> \<not> below (pe_root env @ [''rollback.json'']) q \<and>
        \<not> below (with_extension (pe_root env @ [''rollback.json'']) ''json.previous'') q \<and>
        \<not> below (with_extension (pe_root env @ [''rollback.json'']) ''json.tmp'') q"
      by (auto simp: below_def rollback_extension snapshot_path_simps)
  qed (simp_all add: rollback_extension)
  have fr: "io_valid ?J ?S m (\<lambda>_. ?S) ?I" if "io_frame m" for m :: "'x io"
    by (rule io_valid_frame [OF that]) auto
  have a: "io_frame (announce_rollback pid r)" for r
    unfolding announce_rollback_def
    by (auto split: sum.split Error.split TrustError.split intro!: io_frame_bind)
  have body: "io_valid ?J ?S (io_bind (io_lift (ok_or (sn_provider_revision s)
            (invalid_manifest ''verified snapshot has no provider revision''))) (\<lambda>revision.
        io_bind (load_rollback_state (pe_rollback_json env) (pe_root env)) (\<lambda>doc.
        io_bind (announce_rollback pid (enforce_revisions pid s revision allow doc)) (\<lambda>_.
        io_bind (io_lift (record_revisions pid s revision doc)) (\<lambda>doc'.
        service_atomic_json (pe_root env) [''rollback.json''] (map_err Error.Json (encode_json (pe_rollback_json env) doc'))))))) (\<lambda>_. ?I) ?I"
    by (rule io_valid_bind [OF fr [OF io_frame_basic(3)]], rule io_valid_bind [OF fr [OF load_frames(2)]],
        rule io_valid_bind [OF fr [OF a]], rule io_valid_bind [OF fr [OF io_frame_basic(3)]], rule wr)
  show ?thesis
    unfolding enforce_and_record_revisions_def by (rule io_valid_with_lock [OF body]) simp
qed

lemma write_snapshot_good:
  assumes "snapshot_good env t0 pid s" "pid_str pid \<noteq> []"
  shows "io_valid (old_or_good env t0 pid old) (sync_ready env pid old)
     (write_snapshot (pe_snapshot_json env) (pe_root env) pid s)
     (\<lambda>_. old_or_good env t0 pid old) (old_or_good env t0 pid old)"
proof (cases "encode_json (pe_snapshot_json env) s")
  case (Inr b)
  have d: "snapshot_path env pid = pe_root env @ [''snapshots'', pid_str pid @ ''.json'']"
    "last (snapshot_path env pid) = pid_str pid @ ''.json''" by (simp_all add: snapshot_path_def)
  have v: "io_valid (old_or_new (snapshot_path env pid) old b)
     (\<lambda>t. holds_document (snapshot_path env pid) old t \<and> no_link (with_extension (snapshot_path env pid) ''json.tmp'') t)
     (service_atomic_json (pe_root env) [''snapshots'', pid_str pid @ ''.json''] (Inr b))
     (\<lambda>_ t. t (snapshot_path env pid) = Some (FileNode b)) (old_or_new (snapshot_path env pid) old b)"
    using assms(2) by (intro service_atomic_json_valid [OF d(1) _ d(2)]) auto
  show ?thesis
    unfolding write_snapshot_def Inr map_err_simps
    by (rule io_valid_weaken [OF v])
      (use assms(1) Inr in \<open>auto simp: old_or_new_def old_or_good_def sync_ready_def\<close>)
next
  case (Inl e)
  let ?I = "\<lambda>t. holds_document (snapshot_path env pid) old t" and ?J = "old_or_good env t0 pid old"
  have mk: "io_valid ?J ?I (fs_create_dir_all q) (\<lambda>_. ?I) ?I" if "length q < length (pe_root env) + 2" for q
    using that by (intro io_valid_create_dir_all) (auto simp: old_or_good_def holds_document_def snapshot_path_simps)
  have "io_valid ?J ?I (write_snapshot (pe_snapshot_json env) (pe_root env) pid s) (\<lambda>_. ?J) ?I"
    unfolding write_snapshot_def service_atomic_json_def Let_def Inl map_err_simps
    by (rule io_valid_bind [OF mk], simp, rule io_valid_bind [OF mk], simp add: butlast_append) (simp add: io_valid_fail)
  then show ?thesis by (rule io_valid_conseq) (auto simp: sync_ready_def old_or_good_def)
qed

lemma announce_updates_frame: "io_frame (announce_updates pid s is)"
proof (induction "is")
  case (Cons i rest)
  then show ?case
    unfolding announce_updates.simps by (intro io_frame_bind io_frame_case io_frame_basic)
qed (simp only: announce_updates.simps io_frame_basic)

lemma commit_snapshot_good:
  assumes "snapshot_good env t0 pid s" "pid_str pid \<noteq> []"
  shows "io_valid (old_or_good env t0 pid old)
     (\<lambda>t. sync_ready env pid old t \<and> no_link (pe_root env @ [''rollback.json.tmp'']) t)
     (commit_snapshot env pid previous s allow)
     (\<lambda>_. old_or_good env t0 pid old) (old_or_good env t0 pid old)"
proof -
  let ?J = "old_or_good env t0 pid old" and ?I = "sync_ready env pid old"
  have IJ: "?I t \<Longrightarrow> ?J t" for t by (simp add: sync_ready_def old_or_good_def)
  have 1: "io_valid ?J (\<lambda>t. ?I t \<and> no_link (pe_root env @ [''rollback.json.tmp'']) t)
     (if pv_signature_status (sn_verification s) = Verified
        then enforce_and_record_revisions (pe_rollback_json env) (pe_root env) pid s allow
        else io_return ()) (\<lambda>_. ?I) ?J"
    using io_valid_conseq [OF record_revisions_elsewhere [of env t0 pid old s allow]] IJ by (auto intro!: io_valid_return)
  have 2: "io_valid ?J ?J (io_bind (announce_updates pid s u) (\<lambda>_. io_return x)) (\<lambda>_. ?J) ?J" for u x
    by (rule io_valid_frame_inv) (intro io_frame_bind announce_updates_frame io_frame_basic)
  show ?thesis
    unfolding commit_snapshot_def Let_def
    by (rule io_valid_bind [OF 1 io_valid_bind [OF write_snapshot_good [OF assms] 2]])
qed

lemma io_valid_result:
  assumes "io_frame m" "\<And>w x w'. m w = (Inr x, w') \<Longrightarrow> w_tree w = t0 \<Longrightarrow> R x"
    and "\<And>x. R x \<Longrightarrow> io_valid J (\<lambda>t. t = t0) (f x) Q E" "E t0"
  shows "io_valid J (\<lambda>t. t = t0) (io_bind m f) Q E"
proof (rule io_valid_bind)
  show "io_valid J (\<lambda>t. t = t0) m (\<lambda>x t. t = t0 \<and> (t = t0 \<longrightarrow> R x)) E"
    by (rule io_valid_conseq [OF io_valid_frame_result [OF assms(1), where R = "\<lambda>x t. t = t0 \<longrightarrow> R x" and P = "\<lambda>t. t = t0"]])
      (use assms(2,4) in auto)
  show "io_valid J (\<lambda>t. t = t0 \<and> (t = t0 \<longrightarrow> R x)) (f x) Q E" for x
  proof (cases "R x")
    case True
    show ?thesis by (rule io_valid_conseq [OF assms(3) [OF True]]) auto
  qed (auto simp: io_valid_def)
qed

text \<open>The whole synchronisation from a tree that is ready for it.\<close>

abbreviation ready :: "provider_env \<Rightarrow> ProviderId \<Rightarrow> string \<Rightarrow> tree \<Rightarrow> bool" where
  "ready env pid old t \<equiv> pid_str pid \<noteq> [] \<and> sync_ready env pid old t \<and> no_link (pe_root env @ [''rollback.json.tmp'']) t"

lemma ready_old: "ready env pid old t0 \<Longrightarrow> old_or_good env t0 pid old t0"
  by (simp add: sync_ready_def old_or_good_def)

lemma sync_children_good:
  assumes ready: "ready env pid old t0" and reg: "registered env t0 pid reg"
    and prev: "\<And>s0. previous = Some s0 \<Longrightarrow> committed env t0 pid s0"
    and raw: "pe_parse_index env bytes = Inr raw" and v: "index_accepted env t0 pid reg raw bytes v"
  shows "io_valid (old_or_good env t0 pid old) (\<lambda>t. t = t0) (sync_children env pid reg previous allow raw http v declared)
     (\<lambda>_. old_or_good env t0 pid old) (old_or_good env t0 pid old)"
  unfolding sync_children_def
proof (rule io_valid_result [where R = "collected env previous (pv_signature_status v = Verified) (rp_instances raw)",
      OF sync_references_frame])
  let ?J = "old_or_good env t0 pid old"
  show "collected env previous (pv_signature_status v = Verified) (rp_instances raw) st"
    if "sync_references env pid reg previous (pv_signature_status v = Verified)
      (length (rp_instances raw)) 0 (rp_instances raw)
      \<lparr>ss_seen = [], ss_instances = [], ss_http = [], ss_documents = []\<rparr> w = (Inr st, w')" for w st w'
    by (rule sync_references_collected [OF that]) (auto simp: collected_def)
  fix st assume st: "collected env previous (pv_signature_status v = Verified) (rp_instances raw) st"
  let ?s = "build_snapshot env pid reg raw http v declared st"
  have "snapshot_good env t0 pid ?s"
    unfolding snapshot_good_def good_for_def
    using reg raw v prev st
    by (intro exI [of _ reg] exI [of _ bytes] exI [of _ raw] exI [of _ previous]) (auto simp: collected_def build_snapshot_def)
  then have "io_valid ?J (\<lambda>t. t = t0) (commit_snapshot env pid previous ?s allow) (\<lambda>_. ?J) ?J"
    using ready by (intro io_valid_conseq [OF commit_snapshot_good]) auto
  then show "io_valid ?J (\<lambda>t. t = t0) (let snapshot = ?s in io_bind (commit_snapshot env pid previous snapshot allow) (\<lambda>updated.
     io_return \<lparr>sr_provider_id = pid, sr_declared_id = declared,
        sr_instances = of_nat (length (sn_instances snapshot)), sr_not_modified = False,
        sr_updated_instances = updated, sr_signature_status = pv_signature_status v,
        sr_key_id = pv_key_id v, sr_revision = rp_revision raw\<rparr>)) (\<lambda>_. ?J) ?J"
    unfolding Let_def by (rule io_valid_bind) (rule io_valid_return)
qed (rule ready_old [OF ready])

lemma sync_modified_good:
  assumes ready: "ready env pid old t0" and reg: "registered env t0 pid reg"
    and prev: "\<And>s0. previous = Some s0 \<Longrightarrow> committed env t0 pid s0"
  shows "io_valid (old_or_good env t0 pid old) (\<lambda>t. t = t0) (sync_modified env pid reg previous allow bytes http)
     (\<lambda>_. old_or_good env t0 pid old) (old_or_good env t0 pid old)"
  unfolding sync_modified_def
proof (rule io_valid_result [where R = "\<lambda>raw. pe_parse_index env bytes = Inr raw", OF io_frame_basic(3)])
  let ?J = "old_or_good env t0 pid old"
  fix raw assume raw: "pe_parse_index env bytes = Inr raw"
  show "io_valid ?J (\<lambda>t. t = t0) (io_bind (verify_provider_index env pid reg raw bytes) (\<lambda>v.
     io_bind (io_lift (check_index raw)) (\<lambda>declared. sync_children env pid reg previous allow raw http v declared))) (\<lambda>_. ?J) ?J"
  proof (rule io_valid_result [where R = "index_accepted env t0 pid reg raw bytes", OF verify_provider_index_frame])
    fix v assume v: "index_accepted env t0 pid reg raw bytes v"
    show "io_valid ?J (\<lambda>t. t = t0) (io_bind (io_lift (check_index raw)) (\<lambda>declared.
       sync_children env pid reg previous allow raw http v declared)) (\<lambda>_. ?J) ?J"
      by (rule io_valid_result [where R = "\<lambda>_. True", OF io_frame_basic(3)])
        (rule TrueI sync_children_good [OF ready reg prev raw v] ready_old [OF ready] | assumption)+
  qed (use verify_provider_index_Inr ready_old [OF ready] in auto)
qed (use ready_old [OF ready] in auto)

lemma sync_inner_good:
  assumes ready: "ready env pid old t0"
  shows "io_valid (old_or_good env t0 pid old) (\<lambda>t. t = t0) (sync_inner env pid allow)
     (\<lambda>_. old_or_good env t0 pid old) (old_or_good env t0 pid old)"
  unfolding sync_inner_def
proof (rule io_valid_result [where R = "registered env t0 pid", OF provider_get_frame])
  let ?J = "old_or_good env t0 pid old"
  fix reg assume reg: "registered env t0 pid reg"
  show "io_valid ?J (\<lambda>t. t = t0) (io_bind (io_try (provider_snapshot env pid)) (\<lambda>prev.
     let previous = res_ok prev in
     io_bind (fetch_document env (pr_source reg) (Option.bind previous sn_index_http) (pe_max_index_size env)) (\<lambda>f. case f of
       FetchNotModified \<Rightarrow> sync_not_modified env pid reg previous
     | FetchModified bytes http \<Rightarrow> sync_modified env pid reg previous allow bytes http))) (\<lambda>_. ?J) ?J"
  proof (rule io_valid_result [where R = "\<lambda>prev. \<forall>s0. res_ok prev = Some s0 \<longrightarrow> committed env t0 pid s0",
        OF io_frame_try [OF provider_snapshot_frame]])
    fix prev :: "ProviderSnapshot result"
    assume prev: "\<forall>s0. res_ok prev = Some s0 \<longrightarrow> committed env t0 pid s0"
    have case_f: "io_valid ?J (\<lambda>t. t = t0) (case f of
         FetchNotModified \<Rightarrow> sync_not_modified env pid reg (res_ok prev)
       | FetchModified bytes http \<Rightarrow> sync_modified env pid reg (res_ok prev) allow bytes http) (\<lambda>_. ?J) ?J" for f
      using ready_old [OF ready] sync_modified_good [OF ready reg] prev
      by (cases f) (auto intro: io_valid_frame [OF sync_not_modified_frame])
    show "io_valid ?J (\<lambda>t. t = t0) (let previous = res_ok prev in
       io_bind (fetch_document env (pr_source reg) (Option.bind previous sn_index_http) (pe_max_index_size env)) (\<lambda>f. case f of
         FetchNotModified \<Rightarrow> sync_not_modified env pid reg previous
       | FetchModified bytes http \<Rightarrow> sync_modified env pid reg previous allow bytes http)) (\<lambda>_. ?J) ?J"
      unfolding Let_def
      by (rule io_valid_result [where R = "\<lambda>_. True", OF fetch_document_frames(1)])
        (rule TrueI case_f ready_old [OF ready])+
  next
    show "\<forall>s0. res_ok prev = Some s0 \<longrightarrow> committed env t0 pid s0"
      if "io_try (provider_snapshot env pid) w = (Inr prev, w')" "w_tree w = t0" for w prev w'
      using that provider_snapshot_committed
      by (cases prev) (fastforce simp: io_try_def split: prod.splits)+
  qed (rule ready_old [OF ready])
qed (use provider_get_registered ready_old [OF ready] in auto)

lemma provider_sync_good:
  assumes ready: "ready env pid old t0"
  shows "io_valid (old_or_good env t0 pid old) (\<lambda>t. t = t0) (provider_sync env pid allow)
     (\<lambda>_. old_or_good env t0 pid old) (old_or_good env t0 pid old)"
proof -
  let ?J = "old_or_good env t0 pid old"
  have start: "io_valid ?J (\<lambda>t. t = t0) (emit v a) (\<lambda>_ t. t = t0) ?J" for v a
    by (rule io_valid_frame [OF io_frame_basic(4)]) (use ready_old [OF ready] in auto)
  have inner: "io_valid ?J (\<lambda>t. t = t0) (io_try (sync_inner env pid allow)) (\<lambda>_. ?J) ?J"
    by (rule io_valid_try, rule io_valid_conseq [OF sync_inner_good [OF ready]]) auto
  have fin: "io_valid ?J ?J (io_bind (case r of
      Inr report \<Rightarrow> emit ''ProviderSyncCompleted'' [pid_str pid, show_nat (unat (sr_instances report))]
    | Inl e \<Rightarrow> emit ''ProviderSyncFailed'' [pid_str pid]) (\<lambda>_. io_lift r)) (\<lambda>_. ?J) ?J" for r
    by (rule io_valid_frame_inv, rule io_frame_bind) (auto split: sum.split)
  show ?thesis
    unfolding provider_sync_def
    by (rule io_valid_with_lock [OF io_valid_bind [OF start io_valid_bind [OF inner fin]]])
      (use ready_old [OF ready] in auto)
qed

subsection \<open>Cached children are authentic\<close>

text \<open>Every cached document of a snapshot is the one its definition was validated from.\<close>

definition snapshot_authentic :: "provider_env \<Rightarrow> ProviderSnapshot \<Rightarrow> bool" where
  "snapshot_authentic env s \<longleftrightarrow> (\<forall>i d c. bt_get (sn_instances s) i = Some d \<longrightarrow>
     bt_get (sn_manifest_documents s) i = Some c \<longrightarrow> fresh_child env i d c)"

lemma snapshot_good_authentic:
  assumes "snapshot_good env t pid s" "\<And>s0. committed env t pid s0 \<Longrightarrow> snapshot_authentic env s0"
  shows "snapshot_authentic env s"
  unfolding snapshot_authentic_def
proof (intro allI impI)
  fix i d c assume d: "bt_get (sn_instances s) i = Some d" "bt_get (sn_manifest_documents s) i = Some c"
  obtain reg bytes raw previous where g: "good_for env t pid s reg bytes raw previous"
    using assms(1) unfolding snapshot_good_def by blast
  then have prev: "\<forall>s0. previous = Some s0 \<longrightarrow> committed env t pid s0"
    and all: "\<forall>i d. bt_get (sn_instances s) i = Some d \<longrightarrow>
        child_accepted env previous (pv_signature_status (sn_verification s) = Verified) (rp_instances raw) i d
          (bt_get (sn_manifest_documents s) i)"
    unfolding good_for_def by simp_all
  have c: "child_accepted env previous (pv_signature_status (sn_verification s) = Verified) (rp_instances raw) i d (Some c)"
    using all [rule_format, OF d(1)] unfolding d(2) .
  from c consider "fresh_child env i d c"
    | s0 where "previous = Some s0" "bt_get (sn_instances s0) i = Some d" "bt_get (sn_manifest_documents s0) i = Some c"
    by (auto simp: child_accepted_def)
  then show "fresh_child env i d c"
    using prev assms(2) by cases (auto simp: snapshot_authentic_def)
qed

subsection \<open>Requests\<close>

text \<open>The URLs the policy of the service and of the download manager both allow.\<close>

definition allowed_urls :: "provider_env \<Rightarrow> Url set" where
  "allowed_urls env = {u. validate_remote_access (pe_lookup_host env) (env_urls env) u = Inr () \<and>
     dl_validate_url (pe_downloads env) u = Inr ()}"

lemma io_sends_to_case [intro]:
  "io_sends_to U a \<Longrightarrow> (\<And>x. io_sends_to U (f x)) \<Longrightarrow> io_sends_to U (case m of None \<Rightarrow> a | Some x \<Rightarrow> f x)"
  by (simp split: option.split)

lemma load_sends [intro]:
  "io_sends_to U (read_with_previous p)" "io_sends_to U (load_with_previous js p version expected kind d)"
  "io_sends_to U (load_registry js1 root)" "io_sends_to U (load_rollback_state js2 root)" "io_sends_to U (ts_query js3 root f)"
proof -
  show 1: "io_sends_to U (read_with_previous p)" for p
    unfolding read_with_previous_def by (intro io_sends_to_catch io_sends_to_if io_sends_to_silent)
  show 2: "io_sends_to U (load_with_previous js p version expected kind d)"
    for js :: "'x codec" and p version expected kind d
    unfolding load_with_previous_def
    by (intro io_sends_to_bind io_sends_to_catch io_sends_to_case io_sends_to_if io_sends_to_silent 1)
  show "io_sends_to U (load_registry js1 root)" unfolding load_registry_def load_with_previous_def
    by (intro io_sends_to_bind io_sends_to_catch io_sends_to_case io_sends_to_if io_sends_to_silent 1)
  show "io_sends_to U (load_rollback_state js2 root)" unfolding load_rollback_state_def load_with_previous_def
    by (intro io_sends_to_bind io_sends_to_catch io_sends_to_case io_sends_to_if io_sends_to_silent 1)
  show "io_sends_to U (ts_query js3 root f)" unfolding ts_query_def ts_load_def
    by (intro io_sends_to_bind io_sends_to_catch io_sends_to_case io_sends_to_if io_sends_to_silent)
qed

lemma service_atomic_json_sends [intro]: "io_sends_to U (service_atomic_json root relative bytes)"
  unfolding service_atomic_json_def reject_non_file_or_symlink_def Let_def
  by (intro io_sends_to_bind io_sends_to_catch io_sends_to_case io_sends_to_if io_sends_to_silent io_sends_to_wrappers)

lemma fetch_sends_allowed [intro]:
  "io_sends_to (allowed_urls env) (fetch_document env source previous limit)"
  "io_sends_to (allowed_urls env) (fetch_resource_document env rsource previous limit)"
proof -
  have v: "io_sends_to U (validate_local_components p cs)" for U p cs
  proof (induction cs arbitrary: p)
    case (Cons c cs)
    then show ?case unfolding validate_local_components.simps Let_def
      by (intro io_sends_to_bind io_sends_to_if io_sends_to_silent)
  qed (simp only: validate_local_components.simps io_sends_to_silent)
  have l: "io_sends_to U (read_bounded_real_file p limit)" "io_sends_to U (validate_local_resource root p)" for U p root
    unfolding read_bounded_real_file_def validate_local_resource_def Let_def
    by (auto intro!: io_sends_to_bind io_sends_to_if io_sends_to_silent v split: node.split)
  have r: "io_sends_to (allowed_urls env) (fetch_remote_document env u previous limit)" for u
  proof (cases "validate_remote_access (pe_lookup_host env) (env_urls env) u")
    case (Inr x)
    have "io_sends_to (allowed_urls env) (fetch_conditional (pe_downloads env) u etag lm limit)" for etag lm
      by (rule io_sends_to_bounded [OF fetch_sends(2)]) (use Inr in \<open>simp add: allowed_urls_def\<close>)
    then show ?thesis unfolding fetch_remote_document_def by (intro io_sends_to_bind io_sends_to_silent)
  qed (auto simp: fetch_remote_document_def)
  show "io_sends_to (allowed_urls env) (fetch_document env source previous limit)"
    "io_sends_to (allowed_urls env) (fetch_resource_document env rsource previous limit)"
    unfolding fetch_document_def fetch_resource_document_def
    by (auto split: ProviderSource.split ProviderResource.split intro!: io_sends_to_bind l r)
qed

lemma provider_sync_sends: "io_sends_to (allowed_urls env) (provider_sync env pid allow)"
proof -
  let ?S = "\<lambda>m. io_sends_to (allowed_urls env) m"
  have a: "?S (announce_verification pid r)" "?S (announce_rollback pid q)" for r q
    unfolding announce_verification_def announce_rollback_def
    by (auto split: sum.split Error.split TrustError.split intro!: io_sends_to_bind)
  have e: "?S (verify_envelope env pid reg raw bytes content b)" for reg raw bytes content b
    unfolding verify_envelope_def by (intro io_sends_to_bind load_sends io_sends_to_if io_sends_to_silent)
  have i: "?S (verify_provider_index env pid reg raw bytes)" for reg raw bytes
    unfolding verify_provider_index_def Let_def
    by (intro io_sends_to_bind io_sends_to_catch io_sends_to_if io_sends_to_case io_sends_to_silent io_sends_to_wrappers
        fetch_sends_allowed e a)
  have c: "?S (fetch_child env pid previous sg j reference source)" for previous sg j reference source
    unfolding fetch_child_def Let_def
    by (intro io_sends_to_bind fetch_sends_allowed) (auto split: DocumentFetch.split)
  have s: "?S (sync_reference env pid reg previous sg n k reference st)" for reg previous sg n k reference st
    unfolding sync_reference_def
    by (intro io_sends_to_bind io_sends_to_if io_sends_to_silent) (auto intro!: io_sends_to_bind c split: prod.split)
  have ss: "?S (sync_references env pid reg previous sg n k references st)" for reg previous sg n k references st
  proof (induction references arbitrary: k st)
    case (Cons r rs)
    then show ?case unfolding sync_references.simps by (intro io_sends_to_bind s)
  qed (simp only: sync_references.simps io_sends_to_silent)
  have u: "?S (announce_updates pid x is)" for x "is"
  proof (induction "is")
    case (Cons i rest)
    then show ?case
      unfolding announce_updates.simps by (intro io_sends_to_bind io_sends_to_case io_sends_to_silent)
  qed (simp only: announce_updates.simps io_sends_to_silent)
  have er: "?S (enforce_and_record_revisions js root pid x allow)" for js root x
    unfolding enforce_and_record_revisions_def
    by (intro io_sends_to_with_lock io_sends_to_bind load_sends io_sends_to_silent service_atomic_json_sends a)
  have m: "?S (sync_modified env pid reg previous allow bytes http)" for reg previous bytes http
    unfolding sync_modified_def sync_children_def commit_snapshot_def write_snapshot_def Let_def
    by (intro io_sends_to_bind io_sends_to_if io_sends_to_silent service_atomic_json_sends i ss u er)
  have n: "?S (sync_not_modified env pid reg previous)" for reg previous
    unfolding sync_not_modified_def Let_def by (intro io_sends_to_bind io_sends_to_if io_sends_to_silent load_sends)
  have g: "?S (provider_get env pid)" "?S (provider_snapshot env pid)"
    unfolding provider_get_def provider_snapshot_def
    by (intro io_sends_to_bind io_sends_to_if io_sends_to_silent io_sends_to_wrappers load_sends)+
  have "?S (sync_inner env pid allow)"
    unfolding sync_inner_def Let_def
    by (intro io_sends_to_bind g io_sends_to_wrappers fetch_sends_allowed) (auto split: DocumentFetch.split simp: m n)
  then show ?thesis
    unfolding provider_sync_def
    by (intro io_sends_to_with_lock io_sends_to_bind io_sends_to_wrappers io_sends_to_silent) (auto split: sum.split)
qed

subsection \<open>The registry\<close>

lemma write_registry_sets:
  assumes "encode_json js doc = Inr b"
  shows "io_valid (\<lambda>_. True) (no_link (root @ [''registry.json.tmp''])) (write_registry js root doc)
     (\<lambda>_ t. t (root @ [''registry.json'']) = Some (FileNode b)) (\<lambda>_. True)"
proof -
  have e: "with_extension (root @ [''registry.json'']) ''json.tmp'' = root @ [''registry.json.tmp'']"
    using file_stem_json [of "''registry''"] by (simp add: with_extension_def)
  show ?thesis
    unfolding write_registry_def assms map_err_simps
    using service_atomic_json_sets [of "[''registry.json'']" root "''registry''" b] by (simp add: e)
qed

lemma with_lock_Inr:
  "with_lock k m w = (Inr x, w') \<Longrightarrow> \<exists>w1. m (w\<lparr>w_locks := insert k (w_locks w)\<rparr>) = (Inr x, w1) \<and>
     w_tree w' = w_tree w1 \<and> w_faults w' = w_faults w1"
  by (auto simp: with_lock_def split: if_splits prod.splits)

lemma provider_add_writes:
  assumes run: "provider_add_with_trust env pid source policy key w = (Inr reg, w')"
    and link: "no_link (pe_root env @ [''registry.json.tmp'']) (w_tree w)"
  shows "pr_signature_policy reg = policy \<and> pr_trusted_key_id reg = key \<and>
    (policy = PolicyRequired \<longrightarrow> (\<exists>k doc tk. key = Some k \<and> trusted_document env (w_tree w) doc \<and> trust_get k doc = Inr tk)) \<and>
    (\<exists>registry b. stored (pe_registry_json env) (pe_root env @ [''registry.json'']) registry_default (w_tree w) registry \<and>
       rd_format_version registry = REGISTRY_FORMAT_VERSION \<and> bt_get (rd_providers registry) pid = None \<and>
       encode_json (pe_registry_json env) (registry\<lparr>rd_providers := bt_insert pid reg (rd_providers registry)\<rparr>) = Inr b \<and>
       w_tree w' (pe_root env @ [''registry.json'']) = Some (FileNode b))"
proof -
  let ?q = "case key of None \<Rightarrow> io_return ()
    | Some k \<Rightarrow> io_bind (ts_query (pe_trust_json env) (pe_trust_root env) (trust_get k)) (\<lambda>_. io_return ())"
  have qf: "io_frame ?q" by (intro io_frame_case io_frame_bind ts_query_frame io_frame_basic)
  have sf: "io_frame (registered_source env source)"
    unfolding registered_source_def
    by (auto split: ProviderSource.split intro!: io_frame_bind io_frame_reads)
  from run obtain w1 source' w2 where kp: "\<not> (policy = PolicyRequired \<and> key = None)"
    and q: "?q w = (Inr (), w1)" and s: "registered_source env source w1 = (Inr source', w2)"
    and l: "with_lock ''providers:registry'' (
      io_bind (load_registry (pe_registry_json env) (pe_root env)) (\<lambda>registry.
      if bt_contains (rd_providers registry) pid then io_fail (AlreadyExists ''provider'' (pid_str pid))
      else
        let registration = \<lparr>pr_id = pid, pr_source = source', pr_added = pe_now env,
                            pr_signature_policy = policy, pr_trusted_key_id = key\<rparr> in
        io_bind (write_registry (pe_registry_json env) (pe_root env)
          (registry\<lparr>rd_providers := bt_insert pid registration (rd_providers registry)\<rparr>)) (\<lambda>_.
        io_bind (emit ''ProviderAdded'' [pid_str pid]) (\<lambda>_.
        io_return registration)))) w2 = (Inr reg, w')"
    unfolding provider_add_with_trust_def
    by (auto simp: io_bind_eq_Inr io_fail_def simp del: io_run_simps split: if_splits)
  have t2: "w_tree w2 = w_tree w" using io_frameD [OF qf q] io_frameD [OF sf s] by simp
  have required: "policy = PolicyRequired \<longrightarrow> (\<exists>k doc tk. key = Some k \<and> trusted_document env (w_tree w) doc \<and> trust_get k doc = Inr tk)"
    using kp q by (cases key) (auto simp: io_bind_eq_Inr dest!: ts_query_trusted)
  define w3 where "w3 = w2\<lparr>w_locks := insert ''providers:registry'' (w_locks w2)\<rparr>"
  from with_lock_Inr [OF l] obtain registry w4 w5 w6 where
    load: "load_registry (pe_registry_json env) (pe_root env) w3 = (Inr registry, w4)"
    and fresh: "\<not> bt_contains (rd_providers registry) pid"
    and reg: "reg = \<lparr>pr_id = pid, pr_source = source', pr_added = pe_now env,
                            pr_signature_policy = policy, pr_trusted_key_id = key\<rparr>"
    and wr: "write_registry (pe_registry_json env) (pe_root env)
          (registry\<lparr>rd_providers := bt_insert pid reg (rd_providers registry)\<rparr>) w4 = (Inr (), w5)"
    and e: "w_tree w' = w_tree w5"
    by (auto simp: io_bind_eq_Inr Let_def w3_def emit_def split: if_splits)
  have t4: "w_tree w4 = w_tree w" using io_frameD [OF load_frames(1) load] t2 by (simp add: w3_def)
  have st: "stored (pe_registry_json env) (pe_root env @ [''registry.json'']) registry_default (w_tree w) registry"
    using load_with_previous_stored [OF load [unfolded load_registry_def]] t2 by (simp add: w3_def)
  have v: "rd_format_version registry = REGISTRY_FORMAT_VERSION"
    using load by (auto simp: load_registry_def load_with_previous_def io_bind_eq_Inr registry_default_def
        split: option.splits if_splits)
  obtain b where b: "encode_json (pe_registry_json env) (registry\<lparr>rd_providers := bt_insert pid reg (rd_providers registry)\<rparr>) = Inr b"
    using wr by (cases "encode_json (pe_registry_json env) (registry\<lparr>rd_providers := bt_insert pid reg (rd_providers registry)\<rparr>)")
      (auto simp: write_registry_def service_atomic_json_def Let_def io_bind_eq_Inr)
  have "w_tree w5 (pe_root env @ [''registry.json'']) = Some (FileNode b)"
    using io_validD(2) [OF write_registry_sets [OF b] _ wr refl] link t4 by simp
  then have "w_tree w' (pe_root env @ [''registry.json'']) = Some (FileNode b)" using e by simp
  moreover have "bt_get (rd_providers registry) pid = None" using fresh by (simp add: bt_contains_def)
  ultimately have "\<exists>b. stored (pe_registry_json env) (pe_root env @ [''registry.json'']) registry_default (w_tree w) registry \<and>
       rd_format_version registry = REGISTRY_FORMAT_VERSION \<and> bt_get (rd_providers registry) pid = None \<and>
       encode_json (pe_registry_json env) (registry\<lparr>rd_providers := bt_insert pid reg (rd_providers registry)\<rparr>) = Inr b \<and>
       w_tree w' (pe_root env @ [''registry.json'']) = Some (FileNode b)"
    using st v b by (intro exI [of _ b] conjI)
  then show ?thesis
    using required reg by (intro conjI impI exI [of _ registry]) simp_all
qed

end
