(* ===== verification/SyncProperties.thy ===== *)
theory SyncProperties
  imports Sync
begin

text \<open>
  What a synchronisation of a provider and the registry promise, on the model of
  \<open>StaticProviderService\<close> in \<open>Sync\<close>, with a provider that signs its index as the sample.
\<close>

section \<open>A sample provider\<close>

text \<open>A provider that signs an index without instances; its documents are one letter each.\<close>

definition sample_registration :: ProviderRegistration where
  "sample_registration =
     \<lparr>pr_id = ProviderId ''play'', pr_source = LocalSource [''srv'', ''index.json''], pr_added = 9,
      pr_signature_policy = PolicyRequired,
      pr_trusted_key_id = Some (pk_key_id sample_crypto (sample_key CHR ''a''))\<rparr>"

definition sample_registry :: RegistryDocument where
  "sample_registry = registry_default\<lparr>rd_providers := [(ProviderId ''play'', sample_registration)]\<rparr>"

definition sample_index :: RawProviderManifest where
  "sample_index = \<lparr>rp_format_version = 1, rp_revision = Some 4,
     rp_provider = \<lparr>ri_id = ''play'', ri_name = ''Play'', ri_description = None\<rparr>, rp_instances = []\<rparr>"

definition sample_signed :: SignatureEnvelope where
  "sample_signed = se_ed25519 sample_crypto (pk_key_id sample_crypto (sample_key CHR ''a''))
     (replicate 32 CHR ''a'' @ PROVIDER_DOMAIN @ ''i'')"

definition sample_verification :: ProviderVerification where
  "sample_verification =
     \<lparr>pv_signature_status = Verified, pv_algorithm = Some Ed25519,
      pv_key_id = Some (pk_key_id sample_crypto (sample_key CHR ''a'')),
      pv_signature = Some (se_signature sample_signed), pv_content_sha256 = ''69'', pv_verified = Some 9,
      pv_revision = Some 4, pv_document_base64 = ''i'', pv_envelope = Some sample_signed\<rparr>"

definition sample_synced :: ProviderSnapshot where
  "sample_synced =
     \<lparr>sn_format_version = SNAPSHOT_FORMAT_VERSION, sn_registration_id = ProviderId ''play'',
      sn_provider = \<lparr>id_id = ProviderId ''play'', id_name = ''Play'', id_description = None\<rparr>,
      sn_source = LocalSource [''srv'', ''index.json''], sn_synced = 9, sn_instances = [],
      sn_index_http = None, sn_instance_http = [], sn_provider_revision = Some 4,
      sn_verification = sample_verification, sn_manifest_documents = []\<rparr>"

definition sample_env :: provider_env where
  "sample_env =
     \<lparr>pe_root = [''data''], pe_trust_root = [''trust''], pe_crypto = sample_crypto, pe_downloads = dc_default,
      pe_allow_private_networks = False, pe_allowed_hosts = [], pe_max_index_size = 100,
      pe_max_instance_manifest_size = 100, pe_now = 9,
      pe_url_parse = (\<lambda>s. Inr (sample_url s)), pe_url_join = (\<lambda>u s. Inr (sample_url s)),
      pe_url_set_path = (\<lambda>u p. u\<lparr>url_path := p\<rparr>), pe_lookup_host = (\<lambda>h. Inr [V4 93 184 216 34]),
      pe_canonicalize = Inr,
      pe_parse_index = (\<lambda>s. if s = ''i'' then Inr sample_index else Inl ''syntax''),
      pe_parse_manifest = (\<lambda>s. Inl ''syntax''),
      pe_parse_envelope = (\<lambda>s. if s = ''e'' then Inr sample_signed else Inl ''syntax''),
      pe_registry_json = \<lparr>decode_json = (\<lambda>s. if s = ''r'' then Inr sample_registry else Inl ''syntax''),
         encode_json = (\<lambda>d. if d = sample_registry then Inr ''r'' else Inl ''syntax'')\<rparr>,
      pe_snapshot_json = \<lparr>decode_json = (\<lambda>s. if s = ''s'' then Inr sample_synced else Inl ''syntax''),
         encode_json = (\<lambda>d. if d = sample_synced then Inr ''s'' else Inl ''syntax'')\<rparr>,
      pe_rollback_json = \<lparr>decode_json = (\<lambda>s. Inr rollback_default), encode_json = (\<lambda>d. Inr ''m'')\<rparr>,
      pe_trust_json = \<lparr>decode_json = (\<lambda>s. Inr sample_doc), encode_json = (\<lambda>d. Inr ''t'')\<rparr>\<rparr>"

definition sample_tree :: tree where
  "sample_tree = [[''data''] \<mapsto> DirNode, [''data'', ''snapshots''] \<mapsto> DirNode,
     [''data'', ''registry.json''] \<mapsto> FileNode ''r'', [''data'', ''snapshots'', ''play.json''] \<mapsto> FileNode ''o'',
     [''srv''] \<mapsto> DirNode, [''srv'', ''index.json''] \<mapsto> FileNode ''i'',
     [''srv'', ''index.json.sig''] \<mapsto> FileNode ''e'', [''trust''] \<mapsto> DirNode,
     [''trust'', ''trust.json''] \<mapsto> FileNode ''t'']"

definition sample_provider_world :: world where
  "sample_provider_world = sample_net []\<lparr>w_tree := sample_tree\<rparr>"

lemma sample_path:
  "snapshot_path sample_env (ProviderId ''play'') = [''data'', ''snapshots'', ''play.json'']"
  "pe_root sample_env = [''data'']"
  by (simp_all add: snapshot_path_def sample_env_def)

lemma sample_worlds:
  "w_tree sample_provider_world = sample_tree" "w_crash sample_provider_world = []"
  "holds_document [''data'', ''snapshots'', ''play.json''] ''o'' sample_tree"
  "no_link (with_extension [''data'', ''snapshots'', ''play.json''] ''json.tmp'') sample_tree"
  "no_link [''data'', ''rollback.json.tmp''] sample_tree"
  "no_link [''data'', ''registry.json.tmp''] sample_tree"
  by (simp_all add: sample_provider_world_def sample_net_def sample_tree_def holds_document_def with_extension_def)

section \<open>Properties\<close>

text \<open>C11: a synchronisation never loses the committed snapshot and never commits an unverified one: whatever
  the server sends, whatever operations fail and wherever the process stops, the snapshot document
  is the old one, or that of a snapshot whose index was accepted under the registration's policy
  (verified against the trust store of the tree when signatures are required) and whose
  children are those the index names, with the digests it signs.\<close>

theorem sync_commits_only_verified:
  assumes "pid_str pid \<noteq> []" "w_crash w = []"
    and "holds_document (snapshot_path env pid) old (w_tree w)"
    and "no_link (with_extension (snapshot_path env pid) ''json.tmp'') (w_tree w)"
    and "no_link (pe_root env @ [''rollback.json.tmp'']) (w_tree w)"
    and "provider_sync env pid allow w = (r, w')"
  shows "\<forall>t \<in> insert (w_tree w') (set (w_crash w')).
    document_at (snapshot_path env pid) t = Some old \<or>
    (\<exists>s b. snapshot_good env (w_tree w) pid s \<and> encode_json (pe_snapshot_json env) s = Inr b \<and>
       document_at (snapshot_path env pid) t = Some b)"
proof -
  have ready: "ready env pid old (w_tree w)" using assms by (simp add: sync_ready_def)
  have "old_or_good env (w_tree w) pid old t" if "t \<in> insert (w_tree w') (set (w_crash w'))" for t
    using io_valid_run [OF provider_sync_good [OF ready] refl assms(2,6)] that by (auto split: sum.splits)
  moreover have "document_at (snapshot_path env pid) t = Some old \<or>
    (\<exists>s b. snapshot_good env (w_tree w) pid s \<and> encode_json (pe_snapshot_json env) s = Inr b \<and>
       document_at (snapshot_path env pid) t = Some b)" if j: "old_or_good env (w_tree w) pid old t" for t
  proof (cases "holds_document (snapshot_path env pid) old t")
    case False
    with j obtain s b where "snapshot_good env (w_tree w) pid s" "encode_json (pe_snapshot_json env) s = Inr b"
      "t (snapshot_path env pid) = Some (FileNode b)"
      unfolding old_or_good_def by (elim disjE exE conjE) simp_all
    then show ?thesis by (intro disjI2 exI [of _ s] exI [of _ b] conjI document_at_new)
  qed (simp add: document_at_holds)
  ultimately show ?thesis by (intro ballI) simp
qed



text \<open>When the server reports the index as not modified, a registration that requires signatures
  accepts the cached snapshot only if its signing key is authorised by the trust store as it is
  now, so that a revocation takes effect without a new index.\<close>

theorem sync_not_modified_reauthorizes:
  assumes "sync_not_modified env pid reg previous w = (Inr report, w')"
    and "pr_signature_policy reg = PolicyRequired"
  shows "\<exists>s doc expected actual revision key. previous = Some s \<and>
     pv_signature_status (sn_verification s) = Verified \<and> sr_signature_status report = Verified \<and>
     trusted_document env (w_tree w) doc \<and> pr_trusted_key_id reg = Some expected \<and>
     pv_key_id (sn_verification s) = Some actual \<and> sn_provider_revision s = Some revision \<and>
     trust_authorize expected actual (pid_str pid) revision doc = Inr key"
  using assms
  by (auto simp: sync_not_modified_def io_bind_eq_Inr Let_def dest!: ts_query_trusted split: if_splits)

text \<open>C14: a registration that was added is what the registry returns afterwards, whatever the tree held
  before, as long as the written document decodes to what was encoded.\<close>

theorem add_then_get:
  assumes "provider_add_with_trust env pid source policy key w = (Inr reg, w')"
    and "no_link (pe_root env @ [''registry.json.tmp'']) (w_tree w)"
    and "\<And>d b. encode_json (pe_registry_json env) d = Inr b \<Longrightarrow> decode_json (pe_registry_json env) b = Inr d"
    and "\<And>d b. decode_json (pe_registry_json env) b = Inr d \<Longrightarrow> bt_wf (rd_providers d)"
    and "w_tree v = w_tree w'" "w_faults v = []"
  shows "provider_get env pid v = (Inr reg, v)"
proof -
  let ?d = "pe_root env @ [''registry.json'']"
  from provider_add_writes [OF assms(1,2)] obtain registry b where
    st: "stored (pe_registry_json env) ?d registry_default (w_tree w) registry"
    and version: "rd_format_version registry = REGISTRY_FORMAT_VERSION"
    and enc: "encode_json (pe_registry_json env) (registry\<lparr>rd_providers := bt_insert pid reg (rd_providers registry)\<rparr>) = Inr b"
    and content: "w_tree w' ?d = Some (FileNode b)" by blast
  have wf: "bt_wf (rd_providers registry)"
    using st assms(4) by (auto simp: stored_def registry_default_def)
  have "follow 40 (w_tree v) ?d = Some ?d" using content assms(5) by (intro follow_plain) simp
  then have "fs_read ?d v = (Inr b, v)"
    using content assms(5,6) by (simp add: fs_read_def io_query_run)
  then have "read_with_previous ?d v = (Inr b, v)"
    by (simp add: read_with_previous_def io_catch_def)
  then show ?thesis
    using assms(3) [OF enc] version wf
    by (simp add: provider_get_def load_registry_def load_with_previous_def io_bind_def io_catch_def
        ok_or_def bt_get_insert)
qed

theorem sync_commits_only_verified_witness:
  "case provider_sync sample_env (ProviderId ''play'') False sample_provider_world of (r, w') \<Rightarrow>
     \<forall>t \<in> insert (w_tree w') (set (w_crash w')).
       document_at [''data'', ''snapshots'', ''play.json''] t = Some ''o'' \<or>
       (\<exists>s b. snapshot_good sample_env sample_tree (ProviderId ''play'') s \<and>
          encode_json (pe_snapshot_json sample_env) s = Inr b \<and>
          document_at [''data'', ''snapshots'', ''play.json''] t = Some b)"
proof -
  obtain r w' where run: "provider_sync sample_env (ProviderId ''play'') False sample_provider_world = (r, w')" by fastforce
  show ?thesis
    using sync_commits_only_verified [OF _ _ _ _ _ run, of "''o''"] run
    by (simp add: sample_path sample_worlds)
qed



text \<open>The same provider behind a URL, unsigned.\<close>

definition sample_remote_env :: provider_env where
  "sample_remote_env = sample_env\<lparr>pe_registry_json :=
     \<lparr>decode_json = (\<lambda>s. Inr (registry_default\<lparr>rd_providers := [(ProviderId ''play'',
        sample_registration\<lparr>pr_source := RemoteSource (sample_url ''https://example.org/''),
          pr_signature_policy := PolicyDisabled\<rparr>)]\<rparr>)), encode_json = (\<lambda>d. Inl ''closed'')\<rparr>\<rparr>"


text \<open>The world before the provider was added, without a registry.\<close>

definition sample_empty_world :: world where
  "sample_empty_world = sample_provider_world\<lparr>w_tree := sample_tree([''data'', ''registry.json''] := None)\<rparr>"

lemma sample_added:
  "\<exists>w'. provider_add_with_trust sample_env (ProviderId ''play'') (LocalSource [''srv'', ''index.json'']) PolicyRequired
     (pr_trusted_key_id sample_registration) sample_empty_world = (Inr sample_registration, w')"
proof -
  let ?w = "sample_empty_world\<lparr>w_locks := {''providers:registry''}\<rparr>"
  have "\<exists>w'. service_atomic_json [''data''] [''registry.json''] (Inr ''r'') ?w = (Inr (), w')"
    by (rule service_atomic_json_fresh) (simp_all add: sample_empty_world_def sample_provider_world_def sample_net_def
        sample_tree_def ancestors_def file_stem_json [of "''registry''", simplified])
  then obtain w' where wr: "service_atomic_json [''data''] [''registry.json''] (Inr ''r'') ?w = (Inr (), w')" by blast
  have load: "load_registry (pe_registry_json sample_env) [''data''] ?w = (Inr registry_default, ?w)"
    by (simp add: load_registry_def load_with_previous_def read_with_previous_def io_bind_def io_catch_def fs_read_def
        io_query_run sample_empty_world_def sample_provider_world_def sample_net_def sample_tree_def with_extension_def
        file_stem_json [of "''registry''", simplified] is_not_found_def io_fail_def)
  have src: "registered_source sample_env (LocalSource [''srv'', ''index.json'']) sample_empty_world
      = (Inr (LocalSource [''srv'', ''index.json'']), sample_empty_world)"
    by (simp add: registered_source_def io_bind_def fs_symlink_metadata_def io_query_run is_file_node_def
        sample_empty_world_def sample_provider_world_def sample_net_def sample_tree_def) (simp add: sample_env_def)
  have "is_ok (trust_get (pk_key_id sample_crypto (sample_key CHR ''a'')) sample_doc)"
    "td_format_version sample_doc = TRUST_STORE_FORMAT_VERSION" by code_simp+
  then have key: "\<exists>k. ts_query (pe_trust_json sample_env) (pe_trust_root sample_env)
     (trust_get (pk_key_id sample_crypto (sample_key CHR ''a''))) sample_empty_world = (Inr k, sample_empty_world)"
    by (auto simp: is_ok_iff ts_query_def ts_load_def sample_env_def sample_empty_world_def sample_provider_world_def
       sample_net_def sample_tree_def io_bind_def io_catch_def fs_read_def io_query_run map_err_def io_map_err_def)
  have enc: "encode_json (pe_registry_json sample_env) sample_registry = Inr ''r''" "pe_root sample_env = [''data'']"
    "pe_now sample_env = 9"
    by (simp_all add: sample_env_def)
  have doc: "registry_default\<lparr>rd_providers := [(ProviderId ''play'', sample_registration)]\<rparr> = sample_registry"
    "rd_providers registry_default = []"
    by (simp_all add: sample_registry_def registry_default_def)
  have reg: "\<lparr>pr_id = ProviderId ''play'', pr_source = LocalSource [''srv'', ''index.json''], pr_added = 9,
     pr_signature_policy = PolicyRequired, pr_trusted_key_id = Some (pk_key_id sample_crypto (sample_key CHR ''a''))\<rparr>
     = sample_registration" "pr_trusted_key_id sample_registration = Some (pk_key_id sample_crypto (sample_key CHR ''a''))"
    by (simp_all add: sample_registration_def)
  have free: "''providers:registry'' \<notin> w_locks sample_empty_world"
    by (simp add: sample_empty_world_def sample_provider_world_def sample_net_def)
  have lk: "sample_empty_world\<lparr>w_locks := insert ''providers:registry'' (w_locks sample_empty_world)\<rparr> = ?w"
    by (simp add: sample_empty_world_def sample_provider_world_def sample_net_def)
  from key free wr lk show ?thesis
    by (auto simp: provider_add_with_trust_def io_bind_def src with_lock_def load enc reg Let_def doc write_registry_def
       bt_contains_def bt_get_def emit_def map_err_def)
qed

theorem add_then_get_witness:
  "\<exists>w'. provider_add_with_trust sample_env (ProviderId ''play'') (LocalSource [''srv'', ''index.json'']) PolicyRequired
     (pr_trusted_key_id sample_registration) sample_empty_world = (Inr sample_registration, w') \<and>
   fst (provider_get sample_env (ProviderId ''play'') (w'\<lparr>w_faults := []\<rparr>)) = Inr sample_registration"
proof -
  obtain w' where run: "provider_add_with_trust sample_env (ProviderId ''play'') (LocalSource [''srv'', ''index.json'']) PolicyRequired
     (pr_trusted_key_id sample_registration) sample_empty_world = (Inr sample_registration, w')"
    using sample_added by blast
  have "no_link (pe_root sample_env @ [''registry.json.tmp'']) (w_tree sample_empty_world)"
    by (simp add: sample_path sample_empty_world_def sample_tree_def)
  moreover have "decode_json (pe_registry_json sample_env) b = Inr d"
    if "encode_json (pe_registry_json sample_env) d = Inr b" for d b
    using that by (simp add: sample_env_def split: if_splits)
  moreover have "bt_wf (rd_providers d)" if "decode_json (pe_registry_json sample_env) b = Inr d" for d b
    using that by (auto simp: sample_env_def sample_registry_def registry_default_def bt_wf_def split: if_splits)
  ultimately have "provider_get sample_env (ProviderId ''play'') (w'\<lparr>w_faults := []\<rparr>) = (Inr sample_registration, w'\<lparr>w_faults := []\<rparr>)"
    by (intro add_then_get [OF run]) simp_all
  with run show ?thesis by simp
qed

end
