(* ===== verification/Locks.thy ===== *)
theory Locks
  imports Errors
begin

text \<open>
  \<^verbatim>\<open>lock/mod.rs\<close>: locks on named resources, between the tasks of a process and between processes.

  A lock is taken in two stages: the name is reserved in the set \<open>held\<close> of the process, then the
  lock file of the resource is locked through the operating system.  A guard is dropped in two stages
  as well.  The set and the guards belong to a \<open>LockManager\<close>, of which a process has one for a
  root directory; \<open>Exit\<close> ends a process.  The directory of the lock files and the
  owner recorded in a file that is locked exclusively are not part of the state.
  The stages of concurrent requests interleave; they are the events of a step function on a
  state that has every request, the set \<open>held\<close> of every process and the locks of the operating system.
\<close>

section \<open>Resources and polling\<close>

definition validate_resource :: "string \<Rightarrow> unit result" where
  "validate_resource resource =
     (if resource = [] \<or> length resource > 1024 \<or> has_control resource then Inl (Lock InvalidKey) else Inr ())"

text \<open>
  The polling loop of \<open>acquire_blocking\<close>: at poll \<open>n\<close> the resource is free or not, and the clock shows
  how much time has passed.  The answer is the poll that succeeded, or that the wait is over.
\<close>

fun poll :: "(nat \<Rightarrow> bool) \<Rightarrow> (nat \<Rightarrow> nat) \<Rightarrow> nat \<Rightarrow> string \<Rightarrow> nat \<Rightarrow> nat \<Rightarrow> nat result option" where
  "poll free elapsed timeout resource n 0 = None"
| "poll free elapsed timeout resource n (Suc fuel) =
     (if free n then Some (Inr n)
      else if elapsed n \<ge> timeout then Some (Inl (Lock (Busy resource)))
      else poll free elapsed timeout resource (Suc n) fuel)"

section \<open>The state and its events\<close>

datatype LockMode = Shared | Exclusive

record lock_request =
  lq_process :: nat
  lq_resource :: string
  lq_mode :: LockMode

text \<open>
  A request reserves, locks, holds, has unlocked the file but still holds the reservation, or is done.
\<close>

datatype lock_phase = Reserving | Locking | Holding | Unlocked | Finished

record lock_state =
  lk_requests :: "(lock_request \<times> lock_phase) list"
  lk_held :: "(nat \<times> string) set"
  lk_os :: "(string \<times> nat \<times> LockMode) set"

datatype lock_event =
    Request lock_request
  | Reserve nat
  | TryLock nat
  | TimeOut nat
  | LockFailure nat
  | Unlock nat
  | Forget nat
  | Exit nat

definition lock_init :: lock_state where
  "lock_init = \<lparr>lk_requests = [], lk_held = {}, lk_os = {}\<rparr>"

definition phase_of :: "lock_state \<Rightarrow> nat \<Rightarrow> lock_phase" where
  "phase_of s i = (if i < length (lk_requests s) then snd (lk_requests s ! i) else Finished)"

definition request_of :: "lock_state \<Rightarrow> nat \<Rightarrow> lock_request" where
  "request_of s i = fst (lk_requests s ! i)"

definition rkey :: "lock_request \<Rightarrow> nat \<times> string" where
  "rkey r = (lq_process r, lq_resource r)"

abbreviation key_of :: "lock_state \<Rightarrow> nat \<Rightarrow> nat \<times> string" where
  "key_of s i \<equiv> rkey (request_of s i)"

definition set_phase :: "nat \<Rightarrow> lock_phase \<Rightarrow> lock_state \<Rightarrow> lock_state" where
  "set_phase i p s = s\<lparr>lk_requests := (lk_requests s)[i := (request_of s i, p)]\<rparr>"

text \<open>Whether the operating system grants the lock.\<close>

definition os_free :: "string \<Rightarrow> LockMode \<Rightarrow> (string \<times> nat \<times> LockMode) set \<Rightarrow> bool" where
  "os_free f mode os \<longleftrightarrow> (\<forall>(g, i, m) \<in> os. g = f \<longrightarrow> mode = Shared \<and> m = Shared)"

text \<open>
  \<open>TimeOut\<close> is the busy error of either stage, \<open>LockFailure\<close> any other error of the system call, \<open>Unlock\<close>
  and \<open>Forget\<close> the two halves of \<open>drop\<close> (also after a failure to record the owner), and \<open>Exit\<close> the end
  of a process.
\<close>

fun lock_step :: "(string \<Rightarrow> string) \<Rightarrow> lock_event \<Rightarrow> lock_state \<Rightarrow> lock_state option" where
  "lock_step lockfile (Request r) s =
     (if validate_resource (lq_resource r) = Inr ()
      then Some (s\<lparr>lk_requests := lk_requests s @ [(r, Reserving)]\<rparr>) else None)"
| "lock_step lockfile (Reserve i) s =
     (if phase_of s i = Reserving \<and> key_of s i \<notin> lk_held s
      then Some ((set_phase i Locking s)\<lparr>lk_held := insert (key_of s i) (lk_held s)\<rparr>) else None)"
| "lock_step lockfile (TryLock i) s =
     (if phase_of s i = Locking \<and> os_free (lockfile (lq_resource (request_of s i))) (lq_mode (request_of s i)) (lk_os s)
      then Some ((set_phase i Holding s)\<lparr>lk_os :=
             insert (lockfile (lq_resource (request_of s i)), i, lq_mode (request_of s i)) (lk_os s)\<rparr>)
      else None)"
| "lock_step lockfile (TimeOut i) s =
     (if phase_of s i = Reserving \<and> key_of s i \<in> lk_held s then Some (set_phase i Finished s)
      else if phase_of s i = Locking
         \<and> \<not> os_free (lockfile (lq_resource (request_of s i))) (lq_mode (request_of s i)) (lk_os s)
      then Some ((set_phase i Finished s)\<lparr>lk_held := lk_held s - {key_of s i}\<rparr>) else None)"
| "lock_step lockfile (LockFailure i) s =
     (if phase_of s i = Locking
      then Some ((set_phase i Finished s)\<lparr>lk_held := lk_held s - {key_of s i}\<rparr>) else None)"
| "lock_step lockfile (Unlock i) s =
     (if phase_of s i = Holding
      then Some ((set_phase i Unlocked s)\<lparr>lk_os := {(f, j, m) \<in> lk_os s. j \<noteq> i}\<rparr>) else None)"
| "lock_step lockfile (Forget i) s =
     (if phase_of s i = Unlocked
      then Some ((set_phase i Finished s)\<lparr>lk_held := lk_held s - {key_of s i}\<rparr>) else None)"
| "lock_step lockfile (Exit p) s =
     Some \<lparr>lk_requests = map (\<lambda>(r, ph). (r, if lq_process r = p then Finished else ph)) (lk_requests s),
           lk_held = {k \<in> lk_held s. fst k \<noteq> p},
           lk_os = {(f, j, m) \<in> lk_os s. lq_process (request_of s j) \<noteq> p}\<rparr>"

inductive lock_reachable :: "(string \<Rightarrow> string) \<Rightarrow> lock_state \<Rightarrow> bool" for lockfile where
  init: "lock_reachable lockfile lock_init"
| step: "lock_reachable lockfile s \<Longrightarrow> lock_step lockfile e s = Some s' \<Longrightarrow> lock_reachable lockfile s'"

section \<open>Invariant\<close>

text \<open>
  The requests between reservation and release, with their stage.  The set \<open>held\<close> has the keys of
  these requests, each from one request; the operating system has the locks of the holders, which are
  pairwise compatible.
\<close>

definition active :: "lock_state \<Rightarrow> nat \<Rightarrow> (lock_phase \<times> lock_request) option" where
  "active s i = (if phase_of s i \<in> {Locking, Holding, Unlocked} then Some (phase_of s i, request_of s i) else None)"

definition locks_ok ::
    "(string \<Rightarrow> string) \<Rightarrow> (nat \<times> string) set \<Rightarrow> (string \<times> nat \<times> LockMode) set
      \<Rightarrow> (nat \<Rightarrow> (lock_phase \<times> lock_request) option) \<Rightarrow> bool" where
  "locks_ok lockfile held os act \<longleftrightarrow>
     (\<forall>k \<in> held. \<exists>i ph r. act i = Some (ph, r) \<and> rkey r = k) \<and>
     (\<forall>i ph r. act i = Some (ph, r) \<longrightarrow> rkey r \<in> held) \<and>
     (\<forall>i j ph r ph' r'. act i = Some (ph, r) \<longrightarrow> act j = Some (ph', r') \<longrightarrow> rkey r = rkey r' \<longrightarrow> i = j) \<and>
     (\<forall>f i m. (f, i, m) \<in> os \<longrightarrow> (\<exists>r. act i = Some (Holding, r) \<and> f = lockfile (lq_resource r) \<and> m = lq_mode r)) \<and>
     (\<forall>i r. act i = Some (Holding, r) \<longrightarrow> (lockfile (lq_resource r), i, lq_mode r) \<in> os) \<and>
     (\<forall>f i m j m'. (f, i, m) \<in> os \<longrightarrow> (f, j, m') \<in> os \<longrightarrow> i \<noteq> j \<longrightarrow> m = Shared \<and> m' = Shared)"

abbreviation lock_inv :: "(string \<Rightarrow> string) \<Rightarrow> lock_state \<Rightarrow> bool" where
  "lock_inv lockfile s \<equiv> locks_ok lockfile (lk_held s) (lk_os s) (active s)"

lemma locks_okI:
  assumes "\<And>k. k \<in> held \<Longrightarrow> \<exists>i ph r. act i = Some (ph, r) \<and> rkey r = k"
    and "\<And>i ph r. act i = Some (ph, r) \<Longrightarrow> rkey r \<in> held"
    and "\<And>i j ph r ph' r'. act i = Some (ph, r) \<Longrightarrow> act j = Some (ph', r') \<Longrightarrow> rkey r = rkey r' \<Longrightarrow> i = j"
    and "\<And>f i m. (f, i, m) \<in> os \<Longrightarrow> \<exists>r. act i = Some (Holding, r) \<and> f = lockfile (lq_resource r) \<and> m = lq_mode r"
    and "\<And>i r. act i = Some (Holding, r) \<Longrightarrow> (lockfile (lq_resource r), i, lq_mode r) \<in> os"
    and "\<And>f i m j m'. (f, i, m) \<in> os \<Longrightarrow> (f, j, m') \<in> os \<Longrightarrow> i \<noteq> j \<Longrightarrow> m = Shared \<and> m' = Shared"
  shows "locks_ok lockfile held os act"
  unfolding locks_ok_def
proof (intro conjI ballI allI impI)
  fix f i m j m' assume "(f, i, m) \<in> os" "(f, j, m') \<in> os" "i \<noteq> j"
  from assms(6) [OF this] show "m = Shared" "m' = Shared" by simp_all
qed (fact assms)+

lemma locks_okD:
  assumes "locks_ok lockfile held os act"
  shows "k \<in> held \<Longrightarrow> \<exists>i ph r. act i = Some (ph, r) \<and> rkey r = k"
    and "act i = Some (ph, r) \<Longrightarrow> rkey r \<in> held"
    and "act i = Some (ph, r) \<Longrightarrow> act j = Some (ph', r') \<Longrightarrow> rkey r = rkey r' \<Longrightarrow> i = j"
    and "(f, i, m) \<in> os \<Longrightarrow> \<exists>r. act i = Some (Holding, r) \<and> f = lockfile (lq_resource r) \<and> m = lq_mode r"
    and "act i = Some (Holding, r) \<Longrightarrow> (lockfile (lq_resource r), i, lq_mode r) \<in> os"
    and "(f, i, m) \<in> os \<Longrightarrow> (f, j, m') \<in> os \<Longrightarrow> i \<noteq> j \<Longrightarrow> m = Shared \<and> m' = Shared"
  using assms unfolding locks_ok_def by - (blast | fast)+

lemma locks_ok_reserve:
  assumes ok: "locks_ok lockfile held os act" and new: "act i = None" "rkey r \<notin> held"
  shows "locks_ok lockfile (insert (rkey r) held) os (act(i := Some (Locking, r)))"
proof (rule locks_okI)
  fix k assume "k \<in> insert (rkey r) held"
  then show "\<exists>j ph x. (act(i := Some (Locking, r))) j = Some (ph, x) \<and> rkey x = k"
  proof
    assume "k \<in> held"
    then obtain j ph x where "act j = Some (ph, x)" "rkey x = k" using locks_okD(1) [OF ok] by blast
    with new(1) show ?thesis by (intro exI [of _ j]) auto
  qed auto
next
  fix j k ph x ph' x'
  assume "(act(i := Some (Locking, r))) j = Some (ph, x)" "(act(i := Some (Locking, r))) k = Some (ph', x')" "rkey x = rkey x'"
  moreover have "rkey y \<noteq> rkey r" if "act n = Some (q, y)" for n q y
    using locks_okD(2) [OF ok that] new(2) by auto
  ultimately show "j = k"
    using locks_okD(3) [OF ok] by (simp split: if_splits) metis+
next
  fix f j m assume "(f, j, m) \<in> os"
  then show "\<exists>x. (act(i := Some (Locking, r))) j = Some (Holding, x) \<and> f = lockfile (lq_resource x) \<and> m = lq_mode x"
    using locks_okD(4) [OF ok] new(1) by fastforce
qed (use locks_okD(2,5,6) [OF ok] in \<open>auto split: if_splits\<close>)

text \<open>A request moves to another stage; the lock of the operating system follows.\<close>

lemma held_moved:
  assumes ok: "locks_ok lockfile held os act" and cur: "act i = Some (ph0, r)" and k: "k \<in> held"
  shows "\<exists>j ph x. (act(i := Some (ph1, r))) j = Some (ph, x) \<and> rkey x = k"
proof -
  obtain j ph x where "act j = Some (ph, x)" "rkey x = k" using locks_okD(1) [OF ok k] by blast
  then show ?thesis using cur by (cases "j = i") (auto intro!: exI [of _ j])
qed

lemma locks_ok_hold:
  assumes ok: "locks_ok lockfile held os act" and cur: "act i = Some (Locking, r)"
    and free: "os_free (lockfile (lq_resource r)) (lq_mode r) os"
  shows "locks_ok lockfile held (insert (lockfile (lq_resource r), i, lq_mode r) os) (act(i := Some (Holding, r)))"
proof (rule locks_okI)
  fix k assume "k \<in> held"
  then show "\<exists>j ph x. (act(i := Some (Holding, r))) j = Some (ph, x) \<and> rkey x = k" by (rule held_moved [OF ok cur])
next
  fix j k ph x ph' x'
  assume "(act(i := Some (Holding, r))) j = Some (ph, x)" "(act(i := Some (Holding, r))) k = Some (ph', x')" "rkey x = rkey x'"
  then show "j = k" using locks_okD(3) [OF ok] cur by (auto split: if_splits)
next
  fix f j m assume a: "(f, j, m) \<in> insert (lockfile (lq_resource r), i, lq_mode r) os"
  then show "\<exists>x. (act(i := Some (Holding, r))) j = Some (Holding, x) \<and> f = lockfile (lq_resource x) \<and> m = lq_mode x"
  proof
    assume "(f, j, m) \<in> os"
    with locks_okD(4) [OF ok this] cur show ?thesis by auto
  qed auto
next
  fix f j m k m'
  assume "(f, j, m) \<in> insert (lockfile (lq_resource r), i, lq_mode r) os"
    "(f, k, m') \<in> insert (lockfile (lq_resource r), i, lq_mode r) os" "j \<noteq> k"
  then show "m = Shared \<and> m' = Shared"
    using locks_okD(6) [OF ok] free unfolding os_free_def by fast
qed (use locks_okD(2,5) [OF ok] cur in \<open>auto split: if_splits\<close>)

lemma locks_ok_unlock:
  assumes ok: "locks_ok lockfile held os act" and cur: "act i = Some (Holding, r)"
  shows "locks_ok lockfile held {(f, j, m) \<in> os. j \<noteq> i} (act(i := Some (Unlocked, r)))"
proof (rule locks_okI)
  fix k assume "k \<in> held"
  then show "\<exists>j ph x. (act(i := Some (Unlocked, r))) j = Some (ph, x) \<and> rkey x = k" by (rule held_moved [OF ok cur])
next
  fix j k ph x ph' x'
  assume "(act(i := Some (Unlocked, r))) j = Some (ph, x)" "(act(i := Some (Unlocked, r))) k = Some (ph', x')" "rkey x = rkey x'"
  then show "j = k" using locks_okD(3) [OF ok] cur by (auto split: if_splits)
qed (use locks_okD(2,4,5,6) [OF ok] cur in \<open>auto split: if_splits\<close>)

lemma locks_ok_release:
  assumes ok: "locks_ok lockfile held os act" and cur: "act i = Some (ph, r)" "ph \<noteq> Holding"
  shows "locks_ok lockfile (held - {rkey r}) os (act(i := None))"
proof (rule locks_okI)
  fix k assume "k \<in> held - {rkey r}"
  then obtain j q x where "act j = Some (q, x)" "rkey x = k" "k \<noteq> rkey r" using locks_okD(1) [OF ok] by blast
  with cur show "\<exists>j q x. (act(i := None)) j = Some (q, x) \<and> rkey x = k" by (intro exI [of _ j]) auto
next
  fix j q x assume "(act(i := None)) j = Some (q, x)"
  then show "rkey x \<in> held - {rkey r}" using locks_okD(2,3) [OF ok] cur(1) by (auto split: if_splits)
next
  fix f j m assume "(f, j, m) \<in> os"
  from locks_okD(4) [OF ok this] cur
  show "\<exists>x. (act(i := None)) j = Some (Holding, x) \<and> f = lockfile (lq_resource x) \<and> m = lq_mode x" by auto
next
  fix j k q x q' x'
  assume "(act(i := None)) j = Some (q, x)" "(act(i := None)) k = Some (q', x')" "rkey x = rkey x'"
  then show "j = k" using locks_okD(3) [OF ok] by (auto split: if_splits)
qed (use locks_okD(5,6) [OF ok] in \<open>auto split: if_splits\<close>)

lemma locks_ok_exit:
  assumes ok: "locks_ok lockfile held os act"
    and act': "\<And>i. act' i = (case act i of None \<Rightarrow> None | Some (ph, r) \<Rightarrow> if lq_process r = p then None else Some (ph, r))"
    and os': "os' = {(f, j, m) \<in> os. act' j \<noteq> None}"
  shows "locks_ok lockfile {k \<in> held. fst k \<noteq> p} os' act'"
proof -
  have iff: "act' i = Some (ph, r) \<longleftrightarrow> act i = Some (ph, r) \<and> lq_process r \<noteq> p" for i ph r
    using act' [of i] by (auto split: option.splits if_splits)
  have fst: "fst (rkey r) = lq_process r" for r by (simp add: rkey_def)
  show ?thesis
  proof (rule locks_okI)
    fix k assume "k \<in> {k \<in> held. fst k \<noteq> p}"
    then obtain i ph r where "act i = Some (ph, r)" "rkey r = k" "fst k \<noteq> p" using locks_okD(1) [OF ok] by blast
    then have "act' i = Some (ph, r)" using fst iff by auto
    then show "\<exists>i ph r. act' i = Some (ph, r) \<and> rkey r = k" using \<open>rkey r = k\<close> by blast
  next
    fix f i m assume a: "(f, i, m) \<in> os'"
    then obtain x where "act' i = Some x" by (auto simp: os')
    with a locks_okD(4) [OF ok, of f i m]
    show "\<exists>r. act' i = Some (Holding, r) \<and> f = lockfile (lq_resource r) \<and> m = lq_mode r"
      by (cases x) (auto simp: os' iff)
  next
    fix i j ph r ph' r' assume "act' i = Some (ph, r)" "act' j = Some (ph', r')" "rkey r = rkey r'"
    then show "i = j" using locks_okD(3) [OF ok] by (auto simp: iff)
  next
    fix f i m j m' assume "(f, i, m) \<in> os'" "(f, j, m') \<in> os'" "i \<noteq> j"
    then show "m = Shared \<and> m' = Shared" using locks_okD(6) [OF ok] by (auto simp: os')
  qed (use locks_okD(2,5) [OF ok] in \<open>auto simp: iff fst os'\<close>)
qed

lemma phase_bound: "phase_of s i \<noteq> Finished \<Longrightarrow> i < length (lk_requests s)"
  by (auto simp: phase_of_def split: if_splits)

lemma phase_of_set_phase: "phase_of s i \<noteq> Finished \<Longrightarrow> phase_of (set_phase i p s) i = p"
  by (drule phase_bound) (simp add: phase_of_def set_phase_def)

lemma active_set_phase:
  "phase_of s i \<noteq> Finished \<Longrightarrow>
   active (set_phase i p s) = (active s)(i := if p \<in> {Locking, Holding, Unlocked} then Some (p, request_of s i) else None)"
proof
  fix j assume "phase_of s i \<noteq> Finished"
  note b = phase_bound [OF this]
  have "phase_of (set_phase i p s) j = (if j = i then p else phase_of s j)"
    using b by (simp add: phase_of_def set_phase_def)
  moreover have "request_of (set_phase i p s) j = request_of s j"
    using b by (simp add: request_of_def set_phase_def nth_list_update)
  ultimately show "active (set_phase i p s) j =
      ((active s)(i := if p \<in> {Locking, Holding, Unlocked} then Some (p, request_of s i) else None)) j"
    by (cases "j = i") (simp_all add: active_def)
qed

lemma active_parts [simp]:
  "active (s\<lparr>lk_held := h\<rparr>) = active s" "active (s\<lparr>lk_os := os\<rparr>) = active s"
  "lk_held (set_phase i p s) = lk_held s" "lk_os (set_phase i p s) = lk_os s"
  by (auto simp: active_def phase_of_def request_of_def set_phase_def fun_eq_iff)

lemma active_Some: "active s i = Some (ph, r) \<longleftrightarrow> phase_of s i = ph \<and> ph \<in> {Locking, Holding, Unlocked} \<and> r = request_of s i"
  by (auto simp: active_def)

lemma lock_inv_init: "lock_inv lockfile lock_init"
  by (simp add: locks_ok_def lock_init_def active_def phase_of_def)

lemma active_exit:
  assumes "lk_requests s' = map (\<lambda>(r, ph). (r, if lq_process r = p then Finished else ph)) (lk_requests s)"
  shows "active s' i = (case active s i of None \<Rightarrow> None | Some (ph, r) \<Rightarrow> if lq_process r = p then None else Some (ph, r))"
  by (auto simp: active_def phase_of_def request_of_def assms split: prod.split)

lemma active_request: "active (s\<lparr>lk_requests := lk_requests s @ [(r, Reserving)]\<rparr>) = active s"
  by (auto simp: active_def phase_of_def request_of_def fun_eq_iff nth_append not_less_iff_gr_or_eq)

lemma lock_inv_step:
  assumes inv: "lock_inv lockfile s" and step: "lock_step lockfile e s = Some s'"
  shows "lock_inv lockfile s'"
proof (cases e)
  case (Request r)
  with step inv show ?thesis using active_request [of s r] by (auto split: if_splits)
next
  case (Exit p)
  have req: "lk_requests s' = map (\<lambda>(r, ph). (r, if lq_process r = p then Finished else ph)) (lk_requests s)"
    and held: "lk_held s' = {k \<in> lk_held s. fst k \<noteq> p}"
    and os: "lk_os s' = {(f, j, m) \<in> lk_os s. lq_process (request_of s j) \<noteq> p}" using step Exit by auto
  note act = active_exit [OF req]
  have "lk_os s' = {(f, j, m) \<in> lk_os s. active s' j \<noteq> None}"
    unfolding os act using locks_okD(4) [OF inv] by (fastforce simp: active_Some split: option.splits)
  from locks_ok_exit [OF inv act this] held show ?thesis by simp
next
  case (Reserve i)
  then have "phase_of s i = Reserving" "key_of s i \<notin> lk_held s"
    "s' = (set_phase i Locking s)\<lparr>lk_held := insert (key_of s i) (lk_held s)\<rparr>" using step by (auto split: if_splits)
  with locks_ok_reserve [OF inv, of i "request_of s i"] show ?thesis by (simp add: active_set_phase active_def)
next
  case (TryLock i)
  then have "phase_of s i = Locking" "os_free (lockfile (lq_resource (request_of s i))) (lq_mode (request_of s i)) (lk_os s)"
    "s' = (set_phase i Holding s)\<lparr>lk_os := insert (lockfile (lq_resource (request_of s i)), i, lq_mode (request_of s i)) (lk_os s)\<rparr>"
    using step by (auto split: if_splits)
  with locks_ok_hold [OF inv, of i "request_of s i"] show ?thesis by (simp add: active_set_phase active_Some)
next
  case (TimeOut i)
  show ?thesis
  proof (cases "phase_of s i = Reserving")
    case True
    then have "s' = set_phase i Finished s" "active s i = None" using step TimeOut by (auto simp: active_def split: if_splits)
    with True inv show ?thesis by (simp add: active_set_phase fun_upd_idem)
  next
    case False
    then have "phase_of s i = Locking" "s' = (set_phase i Finished s)\<lparr>lk_held := lk_held s - {key_of s i}\<rparr>"
      using step TimeOut by (auto split: if_splits)
    with locks_ok_release [OF inv, of i Locking "request_of s i"] show ?thesis by (simp add: active_set_phase active_Some)
  qed
next
  case (LockFailure i)
  then have "phase_of s i = Locking" "s' = (set_phase i Finished s)\<lparr>lk_held := lk_held s - {key_of s i}\<rparr>"
    using step by (auto split: if_splits)
  with locks_ok_release [OF inv, of i Locking "request_of s i"] show ?thesis by (simp add: active_set_phase active_Some)
next
  case (Unlock i)
  then have "phase_of s i = Holding" "s' = (set_phase i Unlocked s)\<lparr>lk_os := {(f, j, m) \<in> lk_os s. j \<noteq> i}\<rparr>"
    using step by (auto split: if_splits)
  with locks_ok_unlock [OF inv, of i "request_of s i"] show ?thesis by (simp add: active_set_phase active_Some)
next
  case (Forget i)
  then have "phase_of s i = Unlocked" "s' = (set_phase i Finished s)\<lparr>lk_held := lk_held s - {key_of s i}\<rparr>"
    using step by (auto split: if_splits)
  with locks_ok_release [OF inv, of i Unlocked "request_of s i"] show ?thesis by (simp add: active_set_phase active_Some)
qed

lemma lock_reachable_inv: "lock_reachable lockfile s \<Longrightarrow> lock_inv lockfile s"
  by (induction rule: lock_reachable.induct) (auto intro: lock_inv_init lock_inv_step)

text \<open>A sequence of events, each of which must be possible.\<close>

fun lock_run :: "(string \<Rightarrow> string) \<Rightarrow> lock_event list \<Rightarrow> lock_state \<Rightarrow> lock_state option" where
  "lock_run lockfile [] s = Some s"
| "lock_run lockfile (e # es) s = Option.bind (lock_step lockfile e s) (lock_run lockfile es)"

lemma lock_run_reachable: "lock_reachable lockfile s \<Longrightarrow> lock_run lockfile es s = Some s' \<Longrightarrow> lock_reachable lockfile s'"
  by (induction es arbitrary: s) (auto simp: bind_eq_Some_conv intro: lock_reachable.step)

lemma holder_os:
  assumes "lock_reachable lockfile s" "phase_of s i = Holding"
  shows "(lockfile (lq_resource (request_of s i)), i, lq_mode (request_of s i)) \<in> lk_os s"
  using locks_okD(5) [OF lock_reachable_inv [OF assms(1)], of i "request_of s i"] assms(2) by (simp add: active_Some)

lemma reserved_held:
  assumes "lock_reachable lockfile s" "phase_of s i \<in> {Locking, Holding, Unlocked}"
  shows "key_of s i \<in> lk_held s"
  using locks_okD(2) [OF lock_reachable_inv [OF assms(1)], of i "phase_of s i" "request_of s i"] assms(2)
  by (simp add: active_Some)

section \<open>Properties\<close>

text \<open>C36: in every reachable state two requests that hold the same resource are both shared and belong to
  different processes; in particular the holder of an exclusive lock is alone.\<close>

theorem lock_mutual_exclusion:
  assumes "lock_reachable lockfile s" "phase_of s i = Holding" "phase_of s j = Holding" "i \<noteq> j"
    and "lq_resource (request_of s i) = lq_resource (request_of s j)"
  shows "lq_mode (request_of s i) = Shared \<and> lq_mode (request_of s j) = Shared \<and>
    lq_process (request_of s i) \<noteq> lq_process (request_of s j)"
proof -
  note inv = lock_reachable_inv [OF assms(1)]
  have "lq_mode (request_of s i) = Shared \<and> lq_mode (request_of s j) = Shared"
    using locks_okD(6) [OF inv holder_os [OF assms(1,2)]] holder_os [OF assms(1,3)] assms(4,5) by simp
  moreover have "lq_process (request_of s i) \<noteq> lq_process (request_of s j)"
    using locks_okD(3) [OF inv, of i Holding "request_of s i" j Holding "request_of s j"] assms
    by (auto simp: active_Some rkey_def)
  ultimately show ?thesis by simp
qed

definition sample_lock_events :: "lock_event list" where
  "sample_lock_events =
     [Request \<lparr>lq_process = 1, lq_resource = ''instance:a'', lq_mode = Shared\<rparr>,
      Request \<lparr>lq_process = 2, lq_resource = ''instance:a'', lq_mode = Shared\<rparr>,
      Request \<lparr>lq_process = 1, lq_resource = ''instance:a'', lq_mode = Exclusive\<rparr>,
      Reserve 0, TryLock 0, Reserve 1, TryLock 1]"

definition sample_locks :: lock_state where
  "sample_locks = the (lock_run (\<lambda>r. r) sample_lock_events lock_init)"

lemma sample_names_valid: "validate_resource ''instance:a'' = Inr ()" "validate_resource ''a'' = Inr ()"
  by (simp_all add: validate_resource_def has_control_ascii byte_def)

lemmas sample_locks_simps = sample_names_valid sample_locks_def sample_lock_events_def lock_init_def phase_of_def request_of_def
  set_phase_def os_free_def rkey_def

lemma sample_locks_run: "lock_run (\<lambda>r. r) sample_lock_events lock_init = Some sample_locks"
  by (simp add: sample_locks_simps)

lemma sample_locks_reachable: "lock_reachable (\<lambda>r. r) sample_locks"
  by (rule lock_run_reachable [OF lock_reachable.init sample_locks_run])

lemma sample_locks_phases:
  "phase_of sample_locks 0 = Holding" "phase_of sample_locks 1 = Holding" "phase_of sample_locks 2 = Reserving"
  "request_of sample_locks 0 = \<lparr>lq_process = 1, lq_resource = ''instance:a'', lq_mode = Shared\<rparr>"
  "request_of sample_locks 1 = \<lparr>lq_process = 2, lq_resource = ''instance:a'', lq_mode = Shared\<rparr>"
  "request_of sample_locks 2 = \<lparr>lq_process = 1, lq_resource = ''instance:a'', lq_mode = Exclusive\<rparr>"
  by (simp_all add: sample_locks_simps)

theorem lock_mutual_exclusion_witness:
  "phase_of sample_locks 0 = Holding \<and> phase_of sample_locks 1 = Holding \<and>
   lq_process (request_of sample_locks 0) \<noteq> lq_process (request_of sample_locks 1)"
  using lock_mutual_exclusion [OF sample_locks_reachable sample_locks_phases(1,2)]
  by (simp add: sample_locks_phases del: One_nat_def)


definition sample_waiting :: lock_state where
  "sample_waiting = the (lock_run (\<lambda>r. r)
     [Request \<lparr>lq_process = 1, lq_resource = ''a'', lq_mode = Exclusive\<rparr>,
      Request \<lparr>lq_process = 2, lq_resource = ''a'', lq_mode = Exclusive\<rparr>, Reserve 0, TryLock 0, Reserve 1] lock_init)"


text \<open>The reservation is per process and ignores the mode: while one task holds a resource, shared or
  not, no other task of its process can take the resource, and its wait ends in the busy error.\<close>

theorem shared_locks_exclude_in_process:
  assumes "lock_reachable lockfile s" "phase_of s i = Holding" "phase_of s j = Reserving"
    and "lq_process (request_of s j) = lq_process (request_of s i)"
    and "lq_resource (request_of s j) = lq_resource (request_of s i)"
  shows "lock_step lockfile (Reserve j) s = None \<and>
    (\<exists>s'. lock_step lockfile (TimeOut j) s = Some s' \<and> phase_of s' j = Finished)"
proof -
  have "key_of s i \<in> lk_held s" by (rule reserved_held [OF assms(1)]) (simp add: assms(2))
  moreover have "key_of s j = key_of s i" unfolding rkey_def assms(4,5) ..
  ultimately have "key_of s j \<in> lk_held s" by (simp only:)
  then show ?thesis
    using assms(3) by (simp add: phase_of_set_phase)
qed

text \<open>C38: waiting is bounded: when every poll is at least 50 milliseconds after the one before, an attempt
  with a time limit returns within \<open>timeout div 50 + 2\<close> polls; it ends at the first poll that finds
  the resource free or the time over, successfully exactly when the resource is free.\<close>

theorem poll_terminates:
  assumes "\<And>n. 50 * n \<le> elapsed n"
  shows "\<exists>n \<le> timeout div 50 + 1. (\<forall>k < n. \<not> free k \<and> elapsed k < timeout) \<and> (free n \<or> timeout \<le> elapsed n) \<and>
    poll free elapsed timeout resource 0 (timeout div 50 + 2) = Some (if free n then Inr n else Inl (Lock (Busy resource)))"
proof -
  have "\<exists>n. m \<le> n \<and> n < m + fuel \<and> (\<forall>k. m \<le> k \<longrightarrow> k < n \<longrightarrow> \<not> free k \<and> elapsed k < timeout) \<and> (free n \<or> timeout \<le> elapsed n) \<and>
      poll free elapsed timeout resource m fuel = Some (if free n then Inr n else Inl (Lock (Busy resource)))"
    if "timeout + 50 \<le> 50 * (m + fuel)" "fuel > 0" for m fuel
    using that
  proof (induction fuel arbitrary: m)
    case (Suc fuel)
    show ?case
    proof (cases "free m \<or> timeout \<le> elapsed m")
      case True
      then show ?thesis by (intro exI [of _ m]) auto
    next
      case False
      then have "50 * m < timeout" using assms [of m] by linarith
      then have "timeout + 50 \<le> 50 * (Suc m + fuel)" "fuel > 0" using Suc.prems by simp_all
      from Suc.IH [OF this] obtain n where n: "Suc m \<le> n" "n < Suc m + fuel"
        "\<forall>k. Suc m \<le> k \<longrightarrow> k < n \<longrightarrow> \<not> free k \<and> elapsed k < timeout" "free n \<or> timeout \<le> elapsed n"
        "poll free elapsed timeout resource (Suc m) fuel = Some (if free n then Inr n else Inl (Lock (Busy resource)))"
        by blast
      have "\<forall>k. m \<le> k \<longrightarrow> k < n \<longrightarrow> \<not> free k \<and> elapsed k < timeout"
      proof (intro allI impI)
        fix k assume k: "m \<le> k" "k < n"
        show "\<not> free k \<and> elapsed k < timeout"
        proof (cases "k = m")
          case True
          then show ?thesis using False by simp
        next
          case neq: False
          with k(1) have "Suc m \<le> k" by simp
          with n(3) k(2) show ?thesis by blast
        qed
      qed
      then show ?thesis using n False by (intro exI [of _ n]) auto
    qed
  qed simp
  note bounded = this
  have "timeout + 50 \<le> 50 * (0 + (timeout div 50 + 2))" "0 < timeout div 50 + 2"
    using div_mult_mod_eq [of timeout 50] mod_less_divisor [of 50 timeout] by simp_all
  from bounded [OF this] obtain n where n: "n < 0 + (timeout div 50 + 2)"
    "\<forall>k. 0 \<le> k \<longrightarrow> k < n \<longrightarrow> \<not> free k \<and> elapsed k < timeout" "free n \<or> timeout \<le> elapsed n"
    "poll free elapsed timeout resource 0 (timeout div 50 + 2) = Some (if free n then Inr n else Inl (Lock (Busy resource)))"
    by (elim exE conjE)
  have "n \<le> timeout div 50 + 1" using n(1) by linarith
  moreover have "\<forall>k < n. \<not> free k \<and> elapsed k < timeout" using n(2) by blast
  ultimately show ?thesis using n(3,4) by blast
qed

theorem poll_terminates_witness:
  "poll (\<lambda>n. False) (\<lambda>n. 60 * n) 100 ''a'' 0 4 = Some (Inl (Lock (Busy ''a'')))"
  using poll_terminates [of "\<lambda>n. 60 * n" 100 "\<lambda>n. False" "''a''"] by auto

end
