(* ===== verification/MinecraftMeta.thy ===== *)
theory MinecraftMeta
  imports Files
begin

text \<open>
  Mojang metadata and what is derived from it without effects: \<^verbatim>\<open>platform/mod.rs\<close> and
  \<^verbatim>\<open>minecraft/\<close>\<open>manifest.rs\<close>, \<open>rules.rs\<close>, \<open>arguments.rs\<close>, \<open>libraries.rs\<close>, \<open>classpath.rs\<close>,
  \<open>assets.rs\<close>, \<open>version.rs\<close>.

  The records are what \<open>serde\<close> produces from the JSON documents.  The \<open>regex\<close> and \<open>url\<close> crates are
  parameters: a pattern that compiles gives its \<open>is_match\<close>, and URLs are parsed and joined.
\<close>

section \<open>Platforms\<close>

datatype OperatingSystem = Windows | Linux | MacOs | Other

datatype Architecture = X86 | X86_64 | Aarch64 | Arm | Other

record Platform =
  pl_os :: OperatingSystem
  pl_architecture :: Architecture

section \<open>Version metadata\<close>

datatype RuleAction = Allow | Disallow

record RuleOs =
  ro_name :: "string option"
  ro_arch :: "string option"
  ro_version :: "string option"

record Rule =
  ru_action :: RuleAction
  ru_os :: "RuleOs option"
  ru_features :: "(string, bool) btree"

datatype ArgumentValue = One string | Many "string list"

datatype Argument = Plain string | Conditional "Rule list" ArgumentValue

definition argument_values :: "ArgumentValue \<Rightarrow> string list" where
  "argument_values v = (case v of One s \<Rightarrow> [s] | Many ss \<Rightarrow> ss)"

record Arguments =
  ar_game :: "Argument list"
  ar_jvm :: "Argument list"

record DownloadInfo =
  di_path :: "string option"
  di_sha1 :: "string option"
  di_size :: "u64 option"
  di_url :: Url

record LibraryDownloads =
  ld_artifact :: "DownloadInfo option"
  ld_classifiers :: "(string, DownloadInfo) btree"

record ExtractRules =
  er_exclude :: "string list"

record Library =
  li_name :: string
  li_checksums :: "string list"
  li_downloads :: "LibraryDownloads option"
  li_rules :: "Rule list"
  li_natives :: "(string, string) btree"
  li_extract :: "ExtractRules option"
  li_url :: "Url option"

record AssetIndexReference =
  ai_id :: string
  ai_sha1 :: string
  ai_size :: u64
  ai_total_size :: "u64 option"
  ai_url :: Url

record JavaVersionRequirement =
  jr_component :: "string option"
  jr_major_version :: u16

record VersionDownloads =
  vd_client :: DownloadInfo
  vd_server :: "DownloadInfo option"
  vd_client_mappings :: "DownloadInfo option"
  vd_server_mappings :: "DownloadInfo option"

record LoggingFile =
  lf_id :: string
  lf_sha1 :: string
  lf_size :: u64
  lf_url :: Url

record LoggingClient =
  lc_argument :: string
  lc_file :: LoggingFile
  lc_kind :: string

record LoggingConfiguration =
  lg_client :: "LoggingClient option"

record VersionMetadata =
  vm_id :: string
  vm_kind :: string
  vm_main_class :: string
  vm_assets :: string
  vm_asset_index :: AssetIndexReference
  vm_downloads :: VersionDownloads
  vm_libraries :: "Library list"
  vm_logging :: "LoggingConfiguration option"
  vm_arguments :: "Arguments option"
  vm_minecraft_arguments :: "string option"
  vm_java_version :: "JavaVersionRequirement option"
  vm_inherits_from :: "string option"

section \<open>Rules\<close>

type_synonym regexes = "string \<Rightarrow> (string \<Rightarrow> bool) option"

record RuleContext =
  rx_platform :: Platform
  rx_os_version :: string
  rx_features :: "(string, bool) btree"

fun os_name :: "OperatingSystem \<Rightarrow> string" where
  "os_name Windows = ''windows''"
| "os_name Linux = ''linux''"
| "os_name MacOs = ''osx''"
| "os_name OperatingSystem.Other = ''unknown''"

fun arch_matches :: "string \<Rightarrow> Architecture \<Rightarrow> bool" where
  "arch_matches v X86 = (v \<in> {''x86'', ''i386'', ''i686'', ''32''})"
| "arch_matches v X86_64 = (v \<in> {''x86_64'', ''amd64'', ''64''})"
| "arch_matches v Aarch64 = (v \<in> {''aarch64'', ''arm64''})"
| "arch_matches v Arm = (v \<in> {''arm'', ''arm32''})"
| "arch_matches v Architecture.Other = False"

definition os_matches :: "regexes \<Rightarrow> RuleContext \<Rightarrow> RuleOs \<Rightarrow> bool" where
  "os_matches rx ctx os =
     (if (case ro_name os of None \<Rightarrow> False | Some n \<Rightarrow> n \<noteq> os_name (pl_os (rx_platform ctx))) then False
      else if (case ro_arch os of None \<Rightarrow> False
               | Some a \<Rightarrow> \<not> arch_matches a (pl_architecture (rx_platform ctx))) then False
      else (case ro_version os of
              None \<Rightarrow> True
            | Some pattern \<Rightarrow> (case rx pattern of None \<Rightarrow> False | Some is_match \<Rightarrow> is_match (rx_os_version ctx))))"

definition rule_matches :: "regexes \<Rightarrow> RuleContext \<Rightarrow> Rule \<Rightarrow> bool" where
  "rule_matches rx ctx rule =
     (if (case ru_os rule of None \<Rightarrow> False | Some os \<Rightarrow> \<not> os_matches rx ctx os) then False
      else list_all (\<lambda>(name, expected).
        (case bt_get (rx_features ctx) name of None \<Rightarrow> False | Some b \<Rightarrow> b) = expected) (ru_features rule))"

text \<open>The loop of \<open>RuleContext::allows\<close>.\<close>

fun allows_from :: "regexes \<Rightarrow> RuleContext \<Rightarrow> bool \<Rightarrow> Rule list \<Rightarrow> bool" where
  "allows_from rx ctx allowed [] = allowed"
| "allows_from rx ctx allowed (rule # rules) =
     allows_from rx ctx (if rule_matches rx ctx rule then ru_action rule = Allow else allowed) rules"

definition allows :: "regexes \<Rightarrow> RuleContext \<Rightarrow> Rule list \<Rightarrow> bool" where
  "allows rx ctx rules = (if rules = [] then True else allows_from rx ctx False rules)"

section \<open>Arguments\<close>

record FeatureSet =
  fs_is_demo_user :: bool
  fs_has_custom_resolution :: bool
  fs_has_quick_plays_support :: bool
  fs_is_quick_play_singleplayer :: bool
  fs_is_quick_play_multiplayer :: bool
  fs_is_quick_play_realms :: bool

definition feature_map :: "FeatureSet \<Rightarrow> (string, bool) btree" where
  "feature_map f = bt_collect
     [(''is_demo_user'', fs_is_demo_user f),
      (''has_custom_resolution'', fs_has_custom_resolution f),
      (''has_quick_plays_support'', fs_has_quick_plays_support f),
      (''is_quick_play_singleplayer'', fs_is_quick_play_singleplayer f),
      (''is_quick_play_multiplayer'', fs_is_quick_play_multiplayer f),
      (''is_quick_play_realms'', fs_is_quick_play_realms f)]"

definition substitute :: "string \<Rightarrow> (string, string) btree \<Rightarrow> string" where
  "substitute v variables =
     foldl (\<lambda>result (name, replacement). replace_str (''${'' @ name @ ''}'') replacement result) v variables"

fun resolve_arguments ::
    "regexes \<Rightarrow> Argument list \<Rightarrow> RuleContext \<Rightarrow> (string, string) btree \<Rightarrow> string list" where
  "resolve_arguments rx [] ctx variables = []"
| "resolve_arguments rx (Plain v # rest) ctx variables =
     substitute v variables # resolve_arguments rx rest ctx variables"
| "resolve_arguments rx (Conditional rules v # rest) ctx variables =
     (if allows rx ctx rules then map (\<lambda>s. substitute s variables) (argument_values v) else [])
     @ resolve_arguments rx rest ctx variables"

text \<open>
  \<open>split_legacy_arguments\<close>: the loop over the characters with the arguments so far, the current one,
  the open quote and the pending escape.
\<close>

record split_state =
  sl_arguments :: "string list"
  sl_current :: string
  sl_quote :: "string option"
  sl_escaped :: bool

abbreviation backslash :: string where "backslash \<equiv> [CHR 0x5C]"
abbreviation single_quote :: string where "single_quote \<equiv> [CHR 0x27]"
abbreviation double_quote :: string where "double_quote \<equiv> [CHR 0x22]"

definition split_push :: "string \<Rightarrow> split_state \<Rightarrow> split_state" where
  "split_push c st = st\<lparr>sl_current := sl_current st @ c\<rparr>"

definition split_char :: "split_state \<Rightarrow> string \<Rightarrow> split_state" where
  "split_char st c =
     (if sl_escaped st then (split_push c st)\<lparr>sl_escaped := False\<rparr>
      else if c = backslash then st\<lparr>sl_escaped := True\<rparr>
      else if c = single_quote \<or> c = double_quote
      then (if sl_quote st = Some c then st\<lparr>sl_quote := None\<rparr>
            else if sl_quote st = None then st\<lparr>sl_quote := Some c\<rparr>
            else split_push c st)
      else if is_whitespace c \<and> sl_quote st = None
      then (if sl_current st \<noteq> []
            then st\<lparr>sl_arguments := sl_arguments st @ [sl_current st], sl_current := []\<rparr>
            else st)
      else split_push c st)"

definition split_legacy_arguments :: "string \<Rightarrow> string + string list" where
  "split_legacy_arguments v =
     (let st = foldl split_char \<lparr>sl_arguments = [], sl_current = [], sl_quote = None, sl_escaped = False\<rparr> (chars v)
      in if sl_escaped st \<or> sl_quote st \<noteq> None
         then Inl ''unterminated escape or quote in legacy arguments''
         else if sl_current st \<noteq> [] then Inr (sl_arguments st @ [sl_current st])
         else Inr (sl_arguments st))"

section \<open>Libraries\<close>

record Coordinate =
  co_group :: string
  co_artifact :: string
  co_version :: string
  co_classifier :: "string option"
  co_extension :: string

definition coordinate_parts :: "string \<Rightarrow> Coordinate result" where
  "coordinate_parts text =
     (let (coordinate, extension) = (case split_once CHR ''@'' text of None \<Rightarrow> (text, ''jar'') | Some p \<Rightarrow> p);
          parts = split_on CHR '':'' coordinate
      in if \<not> (3 \<le> length parts \<and> length parts \<le> 4) \<or> list_ex (\<lambda>p. p = []) parts
         then Inl (Minecraft (LibraryResolution coordinate
                ''expected group:artifact:version[:classifier][@extension]''))
         else Inr \<lparr>co_group = parts ! 0, co_artifact = parts ! 1, co_version = parts ! 2,
                   co_classifier = (if length parts = 4 then Some (parts ! 3) else None),
                   co_extension = extension\<rparr>)"

definition maven_path :: "string \<Rightarrow> string option \<Rightarrow> string result" where
  "maven_path coordinate classifier =
     res_bind (coordinate_parts coordinate) (\<lambda>parts.
     let classifier' = (case classifier of None \<Rightarrow> co_classifier parts | Some c \<Rightarrow> Some c);
         suffix = (case classifier' of None \<Rightarrow> [] | Some c \<Rightarrow> ''-'' @ c)
     in Inr (map (\<lambda>c. if c = CHR ''.'' then CHR ''/'' else c) (co_group parts) @ ''/'' @ co_artifact parts @ ''/''
          @ co_version parts @ ''/'' @ co_artifact parts @ ''-'' @ co_version parts @ suffix @ ''.'' @ co_extension parts))"

fun native_arch :: "Architecture \<Rightarrow> string" where
  "native_arch X86 = ''32''"
| "native_arch X86_64 = ''64''"
| "native_arch Aarch64 = ''arm64''"
| "native_arch Arm = ''arm32''"
| "native_arch Architecture.Other = ''unknown''"

record ResolvedArtifact =
  ra_path :: SafeRelativePath
  ra_url :: Url
  ra_size :: "u64 option"
  ra_sha1 :: "FileHash option"

record ResolvedNative =
  rn_archive :: ResolvedArtifact
  rn_exclusions :: "string list"

record ResolvedLibrary =
  rl_name :: string
  rl_artifact :: "ResolvedArtifact option"
  rl_native :: "ResolvedNative option"

definition DEFAULT_LIBRARY_BASE :: string where
  "DEFAULT_LIBRARY_BASE = ''https://libraries.minecraft.net/''"

record url_crate =
  uc_parse :: "string \<Rightarrow> string + Url"
  uc_join :: "Url \<Rightarrow> string \<Rightarrow> string + Url"

definition trim_end_slashes :: "string \<Rightarrow> string" where
  "trim_end_slashes s = rev (dropWhile (\<lambda>c. c = CHR ''/'') (rev s))"

definition resolve_download_info :: "DownloadInfo \<Rightarrow> string \<Rightarrow> string option \<Rightarrow> ResolvedArtifact result" where
  "resolve_download_info info coordinate classifier =
     res_bind (case di_path info of
         Some p \<Rightarrow> srp_new p
       | None \<Rightarrow> res_bind (maven_path coordinate classifier) srp_new) (\<lambda>p.
     res_bind (opt_traverse (fh_new Sha1) (di_sha1 info)) (\<lambda>sha1.
     Inr \<lparr>ra_path = p, ra_url = di_url info, ra_size = di_size info, ra_sha1 = sha1\<rparr>))"

definition resolve_legacy_artifact :: "url_crate \<Rightarrow> Library \<Rightarrow> string option \<Rightarrow> ResolvedArtifact result" where
  "resolve_legacy_artifact uc library classifier =
     (let failed = (\<lambda>reason. Minecraft (LibraryResolution (li_name library) reason)) in
     res_bind (res_bind (maven_path (li_name library) classifier) srp_new) (\<lambda>p.
     res_bind (case li_url library of
         Some u \<Rightarrow> Inr u
       | None \<Rightarrow> map_err failed (uc_parse uc DEFAULT_LIBRARY_BASE)) (\<lambda>base.
     res_bind (map_err failed (uc_parse uc (trim_end_slashes (url_text base) @ ''/''))) (\<lambda>base'.
     res_bind (map_err failed (uc_join uc base' (srp_str p))) (\<lambda>u.
     res_bind (if classifier = None
        then opt_traverse (fh_new Sha1) (find (\<lambda>c. length c = 40) (li_checksums library))
        else Inr None) (\<lambda>sha1.
     Inr \<lparr>ra_path = p, ra_url = u, ra_size = None, ra_sha1 = sha1\<rparr>))))))"

definition native_classifier :: "Library \<Rightarrow> Platform \<Rightarrow> string option" where
  "native_classifier library platform =
     map_option (replace_str ''${arch}'' (native_arch (pl_architecture platform)))
       (bt_get (li_natives library) (os_name (pl_os platform)))"

definition coordinate_classifier :: "Library \<Rightarrow> string option" where
  "coordinate_classifier library = Option.bind (res_ok (coordinate_parts (li_name library))) co_classifier"

definition coordinate_is_native :: "Library \<Rightarrow> bool" where
  "coordinate_is_native library =
     (case coordinate_classifier library of None \<Rightarrow> False | Some c \<Rightarrow> starts_with c ''natives-'')"

definition artifact_info :: "Library \<Rightarrow> DownloadInfo option" where
  "artifact_info library = Option.bind (li_downloads library) ld_artifact"

definition resolved_main :: "url_crate \<Rightarrow> Library \<Rightarrow> ResolvedArtifact option result" where
  "resolved_main uc library =
     (case artifact_info library of
        Some info \<Rightarrow> res_bind (resolve_download_info info (li_name library) None) (\<lambda>a. Inr (Some a))
      | None \<Rightarrow> if \<not> coordinate_is_native library
               then res_bind (resolve_legacy_artifact uc library None) (\<lambda>a. Inr (Some a))
               else Inr None)"

definition native_artifact :: "url_crate \<Rightarrow> Library \<Rightarrow> Platform \<Rightarrow> ResolvedArtifact option result" where
  "native_artifact uc library platform =
     (case native_classifier library platform of
        Some classifier \<Rightarrow>
          (case Option.bind (li_downloads library) (\<lambda>d. bt_get (ld_classifiers d) classifier) of
             Some info \<Rightarrow>
               res_bind (resolve_download_info info (li_name library) (Some classifier)) (\<lambda>a. Inr (Some a))
           | None \<Rightarrow> res_bind (resolve_legacy_artifact uc library (Some classifier)) (\<lambda>a. Inr (Some a)))
      | None \<Rightarrow>
          if coordinate_is_native library
          then res_bind (opt_traverse (\<lambda>info.
                 resolve_download_info info (li_name library) (coordinate_classifier library)) (artifact_info library)) (\<lambda>found.
               Inr (case found of
                      Some a \<Rightarrow> Some a
                    | None \<Rightarrow> res_ok (resolve_legacy_artifact uc library (coordinate_classifier library))))
          else Inr None)"

definition resolve_library :: "url_crate \<Rightarrow> Platform \<Rightarrow> Library \<Rightarrow> ResolvedLibrary result" where
  "resolve_library uc platform library =
     res_bind (resolved_main uc library) (\<lambda>main.
     res_bind (native_artifact uc library platform) (\<lambda>native.
     Inr \<lparr>rl_name = li_name library,
          rl_artifact = (if coordinate_is_native library then None else main),
          rl_native = map_option (\<lambda>archive. \<lparr>rn_archive = archive,
             rn_exclusions = (case li_extract library of Some e \<Rightarrow> er_exclude e | None \<Rightarrow> [''META-INF/''])\<rparr>) native\<rparr>))"

definition resolve_libraries ::
    "regexes \<Rightarrow> url_crate \<Rightarrow> Library list \<Rightarrow> RuleContext \<Rightarrow> ResolvedLibrary list result" where
  "resolve_libraries rx uc libraries ctx =
     traverse (resolve_library uc (rx_platform ctx)) (filter (\<lambda>l. allows rx ctx (li_rules l)) libraries)"

definition library_cache_path :: "path \<Rightarrow> ResolvedArtifact \<Rightarrow> path" where
  "library_cache_path cache_root artifact = join_under (ra_path artifact) (path_join cache_root ''libraries'')"

section \<open>Class path\<close>

text \<open>The entries are the operating system's strings of the paths.\<close>

record Classpath =
  cp_entries :: "string list"

definition path_separator :: "OperatingSystem \<Rightarrow> char" where
  "path_separator os = (if os = Windows then CHR '';'' else CHR '':'')"

fun render_from :: "char \<Rightarrow> nat \<Rightarrow> string list \<Rightarrow> string \<Rightarrow> string" where
  "render_from separator index [] rendered = rendered"
| "render_from separator index (entry # rest) rendered =
     render_from separator (Suc index) rest
       ((if index > 0 then rendered @ [separator] else rendered) @ entry)"

definition render_for :: "Classpath \<Rightarrow> OperatingSystem \<Rightarrow> string" where
  "render_for cp os = render_from (path_separator os) 0 (cp_entries cp) []"

section \<open>Assets\<close>

record AssetObject =
  ao_hash :: string
  ao_size :: u64

record AssetIndex =
  ax_objects :: "(string, AssetObject) btree"
  ax_virtual :: bool
  ax_map_to_resources :: bool

record ResolvedAsset =
  rs_logical_path :: SafeRelativePath
  rs_object_path :: SafeRelativePath
  rs_url :: Url
  rs_size :: u64
  rs_hash :: FileHash

definition resolve_asset :: "url_crate \<Rightarrow> Url \<Rightarrow> string \<times> AssetObject \<Rightarrow> ResolvedAsset result" where
  "resolve_asset uc base_url = (\<lambda>(logical, object).
     if length (ao_hash object) \<noteq> 40 \<or> \<not> list_all is_ascii_hexdigit (ao_hash object)
     then Inl (Minecraft (AssetIndexError ''objects'' (''invalid SHA-1 for `'' @ logical @ ''`'')))
     else
       let prefix = take 2 (ao_hash object) in
       res_bind (srp_new (''assets/objects/'' @ prefix @ ''/'' @ ao_hash object)) (\<lambda>object_path.
       res_bind (map_err (\<lambda>e. Minecraft (AssetIndexError ''objects'' e))
         (uc_join uc base_url (prefix @ ''/'' @ ao_hash object))) (\<lambda>u.
       res_bind (srp_new logical) (\<lambda>logical_path.
       res_bind (fh_new Sha1 (ao_hash object)) (\<lambda>h.
       Inr \<lparr>rs_logical_path = logical_path, rs_object_path = object_path, rs_url = u,
            rs_size = ao_size object, rs_hash = h\<rparr>)))))"

definition resolve_assets :: "url_crate \<Rightarrow> AssetIndex \<Rightarrow> Url \<Rightarrow> ResolvedAsset list result" where
  "resolve_assets uc index base_url = traverse (resolve_asset uc base_url) (ax_objects index)"

section \<open>Java requirements\<close>

definition parse_u16 :: "string \<Rightarrow> nat option" where
  "parse_u16 s = parse_unsigned 16 s"

definition legacy_java_requirement :: "string \<Rightarrow> u16" where
  "legacy_java_requirement version =
     (let parts = split_on CHR ''.'' version;
          next = (\<lambda>n. if n < length parts then Some (parts ! n) else None);
          major = Option.bind (next 0) parse_u16;
          minor = Option.bind (next 1) parse_u16;
          patch = (case Option.bind (next 2) (\<lambda>v. parse_u16 (hd (split_on CHR ''-'' v))) of None \<Rightarrow> 0 | Some p \<Rightarrow> p)
      in case (major, minor) of
           (Some M, Some m) \<Rightarrow>
             if M = 1 \<and> m \<ge> 21 then 21
             else if M = 1 \<and> m = 20 \<and> patch \<ge> 5 then 21
             else if M = 1 \<and> m \<ge> 18 then 17
             else if M = 1 \<and> m = 17 then 16
             else 8
         | _ \<Rightarrow> 8)"

definition required_java_major :: "VersionMetadata \<Rightarrow> u16" where
  "required_java_major metadata =
     (case vm_java_version metadata of
        Some r \<Rightarrow> jr_major_version r
      | None \<Rightarrow> legacy_java_requirement (vm_id metadata))"

section \<open>Lemmas\<close>

lemma allows_from_False:
  "allows_from rx ctx allowed rules \<longleftrightarrow>
     (\<exists>pre r post. rules = pre @ r # post \<and> rule_matches rx ctx r \<and> ru_action r = Allow \<and>
        (\<forall>q \<in> set post. \<not> rule_matches rx ctx q)) \<or>
     (allowed \<and> (\<forall>q \<in> set rules. \<not> rule_matches rx ctx q))"
proof (induction rules arbitrary: allowed)
  case (Cons r rs)
  have split: "(\<exists>pre q post. r # rs = pre @ q # post \<and> P q post) \<longleftrightarrow> P r rs \<or> (\<exists>pre q post. rs = pre @ q # post \<and> P q post)"
    for P :: "Rule \<Rightarrow> Rule list \<Rightarrow> bool"
    by (auto simp: Cons_eq_append_conv)
  show ?case unfolding allows_from.simps Cons split by auto
qed simp

subsection \<open>Splitting legacy arguments\<close>

text \<open>Strings whose last character is complete, as every Rust string is.\<close>

definition utf8_complete :: "string \<Rightarrow> bool" where
  "utf8_complete s \<longleftrightarrow> (\<forall>c \<in> set (chars s). length c = utf8_len (hd c))"

text \<open>A quoted word: quotes and backslashes inside are escaped.\<close>

definition escape_char :: "string \<Rightarrow> string list" where
  "escape_char c = (if c = backslash \<or> c = double_quote then [backslash, c] else [c])"

definition quote_argument :: "string \<Rightarrow> string" where
  "quote_argument w = double_quote @ concat (concat (map escape_char (chars w))) @ double_quote"

lemma chars_complete:
  assumes "length c = utf8_len (hd c)" "c \<noteq> []"
  shows "chars (c @ s) = c # chars s"
  using assms by (cases c) simp_all

lemma chars_concat:
  "\<forall>c \<in> set cs. c \<noteq> [] \<and> length c = utf8_len (hd c) \<Longrightarrow> chars (concat cs @ s) = cs @ chars s"
  by (induction cs) (simp_all add: chars_complete)

lemma utf8_len_quotes: "utf8_len CHR 0x22 = 1" "utf8_len CHR 0x5C = 1" "utf8_len CHR 0x20 = 1"
  by (simp_all add: utf8_len_def byte_def)

lemma chars_quote:
  assumes "utf8_complete w"
  shows "chars (quote_argument w @ s) = [double_quote] @ concat (map escape_char (chars w)) @ [double_quote] @ chars s"
proof -
  have "\<forall>c \<in> set (concat (map escape_char (chars w)) @ [double_quote]). c \<noteq> [] \<and> length c = utf8_len (hd c)"
    using assms chars_nonempty by (auto simp: utf8_complete_def escape_char_def utf8_len_quotes split: if_splits)
  from chars_concat [OF this, of s] show ?thesis
    by (simp add: quote_argument_def utf8_len_quotes)
qed

lemma split_escaped:
  assumes "sl_quote st = Some double_quote" "\<not> sl_escaped st"
  shows "foldl split_char st (concat (map escape_char cs)) = st\<lparr>sl_current := sl_current st @ concat cs\<rparr>"
  using assms
proof (induction cs arbitrary: st)
  case (Cons c cs)
  have "foldl split_char st (escape_char c) = st\<lparr>sl_current := sl_current st @ c\<rparr>"
    using Cons.prems by (cases st) (auto simp: escape_char_def split_char_def split_push_def)
  with Cons show ?case by simp
qed simp

lemma split_quoted_word:
  assumes "utf8_complete w" "sl_quote st = None" "\<not> sl_escaped st"
  shows "foldl split_char st (chars (quote_argument w @ s)) =
    foldl split_char (st\<lparr>sl_current := sl_current st @ w\<rparr>) (chars s)"
proof -
  let ?st = "st\<lparr>sl_quote := Some double_quote\<rparr>"
  have 1: "split_char st double_quote = ?st" using assms(2,3) by (simp add: split_char_def)
  have 2: "foldl split_char ?st (concat (map escape_char (chars w))) = ?st\<lparr>sl_current := sl_current st @ w\<rparr>"
    using assms(3) by (simp add: split_escaped)
  have 3: "split_char (?st\<lparr>sl_current := sl_current st @ w\<rparr>) double_quote = st\<lparr>sl_current := sl_current st @ w\<rparr>"
    using assms(2,3) by (cases st) (simp add: split_char_def)
  show ?thesis by (simp add: chars_quote [OF assms(1)] 1 2 3)
qed

lemma chars_space: "chars (CHR '' '' # s) = '' '' # chars s"
  by (simp add: utf8_len_quotes)

lemma split_quoted_words:
  assumes "\<forall>w \<in> set ws. utf8_complete w \<and> w \<noteq> []"
  shows "let st = foldl split_char \<lparr>sl_arguments = args, sl_current = [], sl_quote = None, sl_escaped = False\<rparr>
           (chars (join_with CHR '' '' (map quote_argument ws)))
         in \<not> sl_escaped st \<and> sl_quote st = None \<and>
            (if sl_current st \<noteq> [] then sl_arguments st @ [sl_current st] else sl_arguments st) = args @ ws"
  using assms
proof (induction ws arbitrary: args)
  case (Cons w ws)
  let ?st = "\<lparr>sl_arguments = args, sl_current = [], sl_quote = None, sl_escaped = False\<rparr>"
  show ?case
  proof (cases ws)
    case Nil
    then show ?thesis using Cons.prems split_quoted_word [of w ?st "[]"] by (simp add: Let_def)
  next
    case (Cons w' ws')
    have "split_char (?st\<lparr>sl_current := w\<rparr>) '' '' = \<lparr>sl_arguments = args @ [w], sl_current = [], sl_quote = None, sl_escaped = False\<rparr>"
      using Cons.prems by (simp add: split_char_def byte_def)
    then have "foldl split_char ?st (chars (join_with CHR '' '' (map quote_argument (w # ws)))) =
      foldl split_char \<lparr>sl_arguments = args @ [w], sl_current = [], sl_quote = None, sl_escaped = False\<rparr>
        (chars (join_with CHR '' '' (map quote_argument ws)))"
      using Cons.prems Cons split_quoted_word [of w ?st] by (simp add: chars_space del: chars.simps)
    then show ?thesis using Cons.IH [of "args @ [w]"] Cons.prems by simp
  qed
qed (simp add: Let_def)

subsection \<open>Libraries and assets\<close>

definition artifact_wf :: "ResolvedArtifact \<Rightarrow> bool" where
  "artifact_wf a \<longleftrightarrow> valid_relative_path (srp_str (ra_path a)) \<and>
     (\<forall>h. ra_sha1 a = Some h \<longrightarrow> fh_wf h \<and> fh_algorithm h = Sha1)"

lemma sha1_wf: "opt_traverse (fh_new Sha1) x = Inr y \<Longrightarrow> \<forall>h. y = Some h \<longrightarrow> fh_wf h \<and> fh_algorithm h = Sha1"
  using fh_new_wf by (cases x) auto

lemma resolve_download_info_wf:
  "resolve_download_info info coordinate classifier = Inr a \<Longrightarrow> artifact_wf a"
  using sha1_wf srp.new_Inr_valid
  by (fastforce simp: resolve_download_info_def artifact_wf_def split: option.splits)

lemma resolve_legacy_artifact_wf:
  "resolve_legacy_artifact uc library classifier = Inr a \<Longrightarrow> artifact_wf a"
  using sha1_wf srp.new_Inr_valid
  by (fastforce simp: resolve_legacy_artifact_def Let_def artifact_wf_def split: option.splits if_splits)

lemma resolved_main_wf: "resolved_main uc library = Inr (Some a) \<Longrightarrow> artifact_wf a"
  by (auto simp: resolved_main_def resolve_download_info_wf resolve_legacy_artifact_wf split: option.splits if_splits)

lemma native_artifact_wf: "native_artifact uc library platform = Inr (Some a) \<Longrightarrow> artifact_wf a"
proof -
  assume n: "native_artifact uc library platform = Inr (Some a)"
  consider c info where "resolve_download_info info (li_name library) c = Inr a"
    | c where "resolve_legacy_artifact uc library c = Inr a"
  proof (cases "native_classifier library platform")
    case None
    with n that show ?thesis
      by (cases "artifact_info library";
          cases "resolve_legacy_artifact uc library (coordinate_classifier library)")
        (auto simp: native_artifact_def split: if_splits)
  next
    case (Some c)
    with n that show ?thesis
      by (cases "Option.bind (li_downloads library) (\<lambda>d. bt_get (ld_classifiers d) c)")
        (auto simp: native_artifact_def)
  qed
  then show ?thesis by cases (simp_all add: resolve_download_info_wf resolve_legacy_artifact_wf)
qed

lemma resolve_library_Inr:
  "resolve_library uc platform library = Inr l \<Longrightarrow>
   rl_name l = li_name library \<and> (\<forall>a. rl_artifact l = Some a \<longrightarrow> artifact_wf a) \<and>
   (\<forall>n. rl_native l = Some n \<longrightarrow> artifact_wf (rn_archive n))"
  using resolved_main_wf native_artifact_wf by (fastforce simp: resolve_library_def split: if_splits)

lemma artifact_path_contained:
  assumes "artifact_wf a"
  shows "\<exists>rel. rel \<noteq> [] \<and> resolve_dots (library_cache_path root a) = resolve_dots (path_join root ''libraries'') @ rel"
proof -
  have "srp_new (srp_str (ra_path a)) = Inr (ra_path a)"
    using assms by (auto simp: artifact_wf_def valid_relative_path_def is_ok_iff srp_new_Inr)
  then show ?thesis unfolding library_cache_path_def by (rule srp_join_under_contained)
qed

lemma coordinate_no_at: "split_once CHR ''@'' text = Some (a, b) \<Longrightarrow> CHR ''@'' \<notin> set a"
  by (simp add: split_once_Some)

text \<open>The text of a coordinate.\<close>

definition coordinate_text :: "Coordinate \<Rightarrow> string" where
  "coordinate_text c =
     join_with CHR '':'' ([co_group c, co_artifact c, co_version c]
        @ (case co_classifier c of None \<Rightarrow> [] | Some x \<Rightarrow> [x]))
     @ ''@'' @ co_extension c"

definition plain_part :: "string \<Rightarrow> bool" where
  "plain_part p \<longleftrightarrow> p \<noteq> [] \<and> CHR '':'' \<notin> set p \<and> CHR ''@'' \<notin> set p"

lemma set_join_with: "set (join_with c ps) \<subseteq> insert c (\<Union> (set ` set ps))"
  by (induction c ps rule: join_with.induct) auto

lemma coordinate_roundtrip:
  assumes "plain_part (co_group c)" "plain_part (co_artifact c)" "plain_part (co_version c)"
    and "\<forall>x. co_classifier c = Some x \<longrightarrow> plain_part x"
  shows "coordinate_parts (coordinate_text c) = Inr c"
proof -
  let ?ps = "[co_group c, co_artifact c, co_version c] @ (case co_classifier c of None \<Rightarrow> [] | Some x \<Rightarrow> [x])"
  have plain: "\<forall>p \<in> set ?ps. plain_part p" using assms by (auto split: option.splits)
  have "CHR ''@'' \<notin> set (join_with CHR '':'' ?ps)"
    using set_join_with [of "CHR '':''" ?ps] plain by (auto simp: plain_part_def)
  then have s: "split_once CHR ''@'' (coordinate_text c) = Some (join_with CHR '':'' ?ps, co_extension c)"
    by (simp add: split_once_Some coordinate_text_def)
  have "?ps \<noteq> []" "\<forall>p \<in> set ?ps. CHR '':'' \<notin> set p" using plain by (auto simp: plain_part_def)
  then have parts: "split_on CHR '':'' (join_with CHR '':'' ?ps) = ?ps" by (rule split_join)
  have ok: "\<not> list_ex (\<lambda>p. p = []) ?ps" using plain by (auto simp: plain_part_def list_ex_iff)
  show ?thesis
    unfolding coordinate_parts_def s option.case Let_def prod.case parts
    using ok by (cases "co_classifier c") simp_all
qed

lemma resolve_asset_Inr:
  "resolve_asset uc base_url (logical, object) = Inr a \<Longrightarrow>
   srp_str (rs_logical_path a) = logical \<and> valid_relative_path logical \<and>
   srp_str (rs_object_path a) = ''assets/objects/'' @ take 2 (ao_hash object) @ ''/'' @ ao_hash object \<and>
   fh_wf (rs_hash a) \<and> fh_value (rs_hash a) = to_ascii_lowercase (ao_hash object) \<and>
   fh_algorithm (rs_hash a) = Sha1 \<and> rs_size a = ao_size object \<and> length (ao_hash object) = 40"
  by (auto simp: resolve_asset_def Let_def srp_new_Inr valid_relative_path_def fh_new_Inr fh_wf_def
      expected_len_def split: if_splits)

lemma render_from_join:
  "n > 0 \<Longrightarrow> es \<noteq> [] \<Longrightarrow> render_from c n es r = r @ c # join_with c es"
proof (induction es arbitrary: n r)
  case (Cons e es)
  show ?case
  proof (cases es)
    case (Cons e' es')
    then have "render_from c (Suc n) es (r @ c # e) = (r @ c # e) @ c # join_with c es"
      using Cons.IH [of "Suc n" "r @ c # e"] by simp
    then show ?thesis using Cons.prems Cons by simp
  qed (use Cons.prems in simp)
qed simp

lemma render_for_join: "render_for cp os = join_with (path_separator os) (cp_entries cp)"
proof (cases "cp_entries cp")
  case (Cons e es)
  show ?thesis
  proof (cases es)
    case (Cons e' es')
    then have "render_from (path_separator os) 1 es e = e @ path_separator os # join_with (path_separator os) es"
      by (intro render_from_join) simp_all
    then show ?thesis using \<open>cp_entries cp = e # es\<close> Cons by (simp add: render_for_def)
  qed (simp add: render_for_def \<open>cp_entries cp = e # es\<close>)
qed (simp add: render_for_def)

subsection \<open>Java requirements of old versions\<close>

lemma digits_no_char: "\<not> is_ascii_digit c \<Longrightarrow> c \<notin> set (show_nat n)"
  using show_nat_digits [of n] by (auto simp: list_all_iff)

definition java_generation :: "nat \<Rightarrow> nat \<Rightarrow> u16" where
  "java_generation m p =
     (if m \<ge> 21 then 21 else if m = 20 \<and> p \<ge> 5 then 21 else if m \<ge> 18 then 17 else if m = 17 then 16 else 8)"

lemma legacy_java_parts:
  assumes "split_on CHR ''.'' v = [x, y, z]" "split_on CHR ''-'' z = [z]"
    and "parse_u16 x = Some 1" "parse_u16 y = Some m" "parse_u16 z = Some p"
  shows "legacy_java_requirement v = java_generation m p"
  using assms(3-5) by (simp add: legacy_java_requirement_def assms(1,2) Let_def java_generation_def)

lemma legacy_java_release:
  assumes "m < 65536" "p < 65536"
  shows "legacy_java_requirement (''1.'' @ show_nat m @ ''.'' @ show_nat p) = java_generation m p"
proof (rule legacy_java_parts)
  have dot: "CHR ''.'' \<notin> set (show_nat n)" "CHR ''-'' \<notin> set (show_nat n)" for n
    by (rule digits_no_char, simp add: is_ascii_digit_def byte_def)+
  show "split_on CHR ''.'' (''1.'' @ show_nat m @ ''.'' @ show_nat p) = [''1'', show_nat m, show_nat p]"
    using split_on_append_sep [of "CHR ''.''" "show_nat m" "show_nat p"] dot split_on_no_occurrence by simp
  have u16: "parse_u16 (show_nat n) = Some n" if "n < 65536" for n
    using parse_show_nat [of n 16] that by (simp add: parse_u16_def)
  show "parse_u16 (show_nat m) = Some m" "parse_u16 (show_nat p) = Some p"
    using assms by (simp_all only: u16)
  have "show_nat 1 = ''1''" by code_simp
  then show "parse_u16 ''1'' = Some 1" using u16 [of 1] by simp
  show "split_on CHR ''-'' (show_nat p) = [show_nat p]" using dot by (intro split_on_no_occurrence)
qed

section \<open>Properties\<close>

text \<open>The last rule that matches the host decides: a non-empty list of rules allows exactly when some
  rule matches and the last matching one is an \<open>allow\<close>.\<close>

theorem last_matching_rule_decides:
  "allows rx ctx rules \<longleftrightarrow> rules = [] \<or>
     (\<exists>pre r post. rules = pre @ r # post \<and> rule_matches rx ctx r \<and> ru_action r = Allow \<and>
        (\<forall>q \<in> set post. \<not> rule_matches rx ctx q))"
  by (auto simp: allows_def allows_from_False)

definition sample_rules :: "Rule list" where
  "sample_rules = [\<lparr>ru_action = Allow, ru_os = None, ru_features = []\<rparr>,
     \<lparr>ru_action = Disallow, ru_os = Some \<lparr>ro_name = Some ''osx'', ro_arch = None, ro_version = None\<rparr>,
      ru_features = []\<rparr>]"

definition sample_context :: RuleContext where
  "sample_context = \<lparr>rx_platform = \<lparr>pl_os = Windows, pl_architecture = X86_64\<rparr>, rx_os_version = ''10'', rx_features = []\<rparr>"

text \<open>C39: quoting and splitting are inverse: non-empty words that are quoted, with quotes and backslashes
  escaped, and joined by spaces are split into the same words.\<close>

theorem split_quoted_roundtrip:
  assumes "\<forall>w \<in> set ws. utf8_complete w \<and> w \<noteq> []"
  shows "split_legacy_arguments (join_with CHR '' '' (map quote_argument ws)) = Inr ws"
  using split_quoted_words [OF assms, of "[]"] by (auto simp: split_legacy_arguments_def Let_def split: if_splits)

theorem split_quoted_roundtrip_witness:
  "split_legacy_arguments (join_with CHR '' '' (map quote_argument [''--username'', ''Central Corp''])) =
     Inr [''--username'', ''Central Corp'']"
proof -
  have "utf8_complete ''--username''" "utf8_complete ''Central Corp''"
    by (simp_all add: utf8_complete_def utf8_len_def byte_def)
  then show ?thesis by (intro split_quoted_roundtrip) simp
qed

text \<open>C40: resolution of libraries keeps exactly the allowed ones, in order, and every path it produces is a
  safe relative path, so the file it names in the cache lies strictly below the directory of the
  libraries; every digest is a SHA-1 digest.\<close>

theorem resolve_libraries_sound:
  assumes "resolve_libraries rx uc libraries ctx = Inr ls"
  shows "map rl_name ls = map li_name (filter (\<lambda>l. allows rx ctx (li_rules l)) libraries) \<and>
    (\<forall>l \<in> set ls. \<forall>a. rl_artifact l = Some a \<or> (\<exists>n. rl_native l = Some n \<and> rn_archive n = a) \<longrightarrow>
       artifact_wf a \<and>
       (\<exists>rel. rel \<noteq> [] \<and> resolve_dots (library_cache_path root a) = resolve_dots (path_join root ''libraries'') @ rel))"
proof -
  have all: "list_all2 (\<lambda>l r. resolve_library uc (rx_platform ctx) l = Inr r)
      (filter (\<lambda>l. allows rx ctx (li_rules l)) libraries) ls"
    using assms by (simp add: resolve_libraries_def traverse_Inr_iff)
  then have "map rl_name ls = map li_name (filter (\<lambda>l. allows rx ctx (li_rules l)) libraries)"
    by (induction rule: list_all2_induct) (use resolve_library_Inr in auto)
  moreover have "artifact_wf a"
    if "l \<in> set ls" "rl_artifact l = Some a \<or> (\<exists>n. rl_native l = Some n \<and> rn_archive n = a)" for l a
  proof -
    from that(1) obtain i where i: "i < length ls" "ls ! i = l" by (auto simp: in_set_conv_nth)
    note resolve_library_Inr [OF list_all2_nthD2 [OF all i(1)]]
    with i(2) that(2) show ?thesis by auto
  qed
  ultimately show ?thesis using artifact_path_contained by blast
qed

definition sample_url_crate :: url_crate where
  "sample_url_crate = \<lparr>uc_parse = (\<lambda>s. Inr \<lparr>url_text = s, url_scheme = ''https'', url_username = [], url_password = None,
       url_host = Some ''libraries.minecraft.net'', url_path = ''/'', url_query = None, url_fragment = None\<rparr>),
     uc_join = (\<lambda>u s. Inr (u\<lparr>url_text := url_text u @ s\<rparr>))\<rparr>"

definition sample_library :: Library where
  "sample_library = \<lparr>li_name = ''org.lwjgl:lwjgl:3.3.3'', li_checksums = [], li_downloads = None, li_rules = sample_rules,
     li_natives = [(''windows'', ''natives-windows-${arch}'')], li_extract = None, li_url = None\<rparr>"

lemma sample_library_resolves:
  "is_ok (resolve_libraries (\<lambda>_. None) sample_url_crate [sample_library] sample_context)"
  by code_simp

theorem resolve_libraries_sound_witness:
  "\<exists>l. resolve_libraries (\<lambda>_. None) sample_url_crate [sample_library] sample_context = Inr [l] \<and>
     rl_name l = ''org.lwjgl:lwjgl:3.3.3'' \<and> (\<forall>a. rl_artifact l = Some a \<longrightarrow> artifact_wf a)"
proof -
  from sample_library_resolves obtain ls
    where ls: "resolve_libraries (\<lambda>_. None) sample_url_crate [sample_library] sample_context = Inr ls"
    by (auto simp: is_ok_iff)
  have "allows (\<lambda>_. None) sample_context (li_rules sample_library)" by code_simp
  with resolve_libraries_sound [OF ls] have "map rl_name ls = [''org.lwjgl:lwjgl:3.3.3'']"
    "\<forall>l \<in> set ls. \<forall>a. rl_artifact l = Some a \<longrightarrow> artifact_wf a"
    by (simp_all add: sample_library_def)
  then show ?thesis using ls by auto
qed

text \<open>Assets are content addressed: the assets of an accepted index stand in its order with their
  logical names and sizes, the path of an object is a function of its digest, and two assets with the
  same object path have the same digest.\<close>

theorem assets_content_addressed:
  assumes "resolve_assets uc index base_url = Inr assets"
  shows "length assets = length (ax_objects index) \<and>
    (\<forall>i < length assets. srp_str (rs_logical_path (assets ! i)) = fst (ax_objects index ! i) \<and>
       srp_str (rs_object_path (assets ! i)) =
         ''assets/objects/'' @ take 2 (ao_hash (snd (ax_objects index ! i))) @ ''/'' @ ao_hash (snd (ax_objects index ! i)) \<and>
       fh_wf (rs_hash (assets ! i)) \<and> rs_size (assets ! i) = ao_size (snd (ax_objects index ! i))) \<and>
    (\<forall>a \<in> set assets. \<forall>b \<in> set assets. rs_object_path a = rs_object_path b \<longrightarrow> rs_hash a = rs_hash b)"
proof -
  have all: "list_all2 (\<lambda>x a. resolve_asset uc base_url x = Inr a) (ax_objects index) assets"
    using assms by (simp add: resolve_assets_def traverse_Inr_iff)
  have each: "resolve_asset uc base_url (fst (ax_objects index ! i), snd (ax_objects index ! i)) = Inr (assets ! i)"
    if "i < length assets" for i
    using all that by (simp add: list_all2_conv_all_nth)
  have "rs_hash (assets ! i) = rs_hash (assets ! j)"
    if "i < length assets" "j < length assets" "rs_object_path (assets ! i) = rs_object_path (assets ! j)" for i j
  proof -
    have "ao_hash (snd (ax_objects index ! i)) = ao_hash (snd (ax_objects index ! j))"
      using resolve_asset_Inr [OF each [OF that(1)]] resolve_asset_Inr [OF each [OF that(2)]] that(3) by auto
    then show ?thesis
      using resolve_asset_Inr [OF each [OF that(1)]] resolve_asset_Inr [OF each [OF that(2)]]
      by (intro FileHash.equality) auto
  qed
  then have "\<forall>a \<in> set assets. \<forall>b \<in> set assets. rs_object_path a = rs_object_path b \<longrightarrow> rs_hash a = rs_hash b"
    by (metis in_set_conv_nth)
  moreover have "length assets = length (ax_objects index)" using all by (simp add: list_all2_lengthD)
  ultimately show ?thesis using resolve_asset_Inr [OF each] by blast
qed

end
