(* ===== verification/InstanceStore.thy ===== *)
theory InstanceStore
  imports Trust Instances
begin

text \<open>
  The store of local instances, \<open>InstanceService\<close> of \<^verbatim>\<open>instance/mod.rs\<close>: creating an instance
  directory, loading, listing, replacing and deleting instances, and the installation state that the
  installers record.

  The serialisers of the two documents, the clock and the listing of a directory are parameters
  (\<open>instance_service\<close>).  The main results are that a new instance appears completely or not at all, that
  what was created is what is loaded, and that replacing a specification is not atomic although its
  comment says so.
\<close>

section \<open>Data\<close>

definition INSTANCE_FORMAT_VERSION :: u32 where
  "INSTANCE_FORMAT_VERSION = 1"

record Instance =
  it_spec :: InstanceSpec
  it_path :: path

abbreviation it_id :: "Instance \<Rightarrow> InstanceId" where
  "it_id instance \<equiv> is_id (it_spec instance)"

definition it_minecraft_dir :: "Instance \<Rightarrow> path" where
  "it_minecraft_dir i = it_path i @ [''.minecraft'']"

definition it_with_spec :: "Instance \<Rightarrow> InstanceSpec \<Rightarrow> Instance result" where
  "it_with_spec i spec =
     res_bind (is_validate spec) (\<lambda>_.
     if is_id spec \<noteq> it_id i
     then Inl (InvalidConfig ''transient instance specification changed the instance id'')
     else Inr (i\<lparr>it_spec := spec\<rparr>))"

datatype InstanceStatus =
    Available
  | StatusNotFound
  | StatusNotInstalled
  | StatusInstalling
  | StatusUpdating
  | Recoverable
  | StatusInstalled
  | StatusBroken
  | Running

record InstanceDocument =
  id_format_version :: u32
  id_instance :: InstanceSpec

datatype PersistedInstallStatus = Installing | Updating | Interrupted | Installed | Broken

record InstallStateDocument =
  st_format_version :: u32
  st_status :: PersistedInstallStatus
  st_version_id :: string
  st_error :: "string option"

text \<open>
  The settings of the service with the functions of other crates it calls.  \<open>iv_entries\<close> is the order in
  which the system lists a directory.
\<close>

type_synonym entry_order = "path \<Rightarrow> tree \<Rightarrow> string list"

record instance_service =
  iv_root :: path
  iv_document :: "InstanceDocument codec"
  iv_state :: "InstallStateDocument codec"
  iv_nanos :: "nat option"
  iv_entries :: entry_order

text \<open>
  Opening a directory and reading it to the end, in one operation: nothing happens between the
  entries, and an error at any of them is an error of the whole.
\<close>

definition fs_read_dir :: "entry_order \<Rightarrow> path \<Rightarrow> string list io" where
  "fs_read_dir entries p = io_query (\<lambda>t. case follow 40 t p of
      None \<Rightarrow> Inl (IoOther ''too many levels of symbolic links'')
    | Some q \<Rightarrow> if is_dir t q then Inr (entries q t)
                else if t q = None then Inl IoNotFound else Inl (IoOther ''not a directory''))"

text \<open>What a listing contains: every name of the directory, once.\<close>

definition lists_directory :: "entry_order \<Rightarrow> path \<Rightarrow> tree \<Rightarrow> bool" where
  "lists_directory entries p t \<longleftrightarrow> distinct (entries p t) \<and> set (entries p t) = {n. t (p @ [n]) \<noteq> None}"

section \<open>Operations\<close>

abbreviation json_bytes :: "'doc codec \<Rightarrow> 'doc \<Rightarrow> string result" where
  "json_bytes js doc \<equiv> map_err Error.Json (encode_json js doc)"

abbreviation json_value :: "'doc codec \<Rightarrow> string \<Rightarrow> 'doc result" where
  "json_value js bytes \<equiv> map_err Error.Json (decode_json js bytes)"

text \<open>\<open>symlink_metadata\<close> with a missing entry as a value.\<close>

definition find_node :: "path \<Rightarrow> node option io" where
  "find_node p = io_catch (io_bind (fs_symlink_metadata p) (\<lambda>n. io_return (Some n)))
     (\<lambda>e. if is_not_found e then io_return None else io_fail e)"

text \<open>\<open>create\<close>: a staging directory is filled and then renamed.\<close>

definition instance_children :: "string list" where
  "instance_children = [''.minecraft'', ''mods'', ''config'', ''logs'', ''runtime'']"

fun create_children :: "path \<Rightarrow> string list \<Rightarrow> unit io" where
  "create_children directory [] = io_return ()"
| "create_children directory (c # cs) =
     io_bind (fs_create_dir (directory @ [c])) (\<lambda>_. create_children directory cs)"

definition write_new_instance :: "instance_service \<Rightarrow> path \<Rightarrow> InstanceSpec \<Rightarrow> unit io" where
  "write_new_instance sv directory spec =
     io_bind (create_children directory instance_children) (\<lambda>_.
     io_bind (io_lift (json_bytes (iv_document sv)
        \<lparr>id_format_version = INSTANCE_FORMAT_VERSION, id_instance = spec\<rparr>)) (\<lambda>bytes.
     fs_write (directory @ [''instance.json'']) bytes))"

definition instance_target :: "instance_service \<Rightarrow> InstanceId \<Rightarrow> path" where
  "instance_target sv i = iv_root sv @ [iid_str i]"

definition instance_staging :: "instance_service \<Rightarrow> InstanceId \<Rightarrow> nat \<Rightarrow> path" where
  "instance_staging sv i nonce = iv_root sv @ [''.'' @ iid_str i @ ''.'' @ show_nat nonce @ ''.creating'']"

definition instance_lock :: "InstanceId \<Rightarrow> string" where
  "instance_lock i = ''instance:'' @ iid_str i"

text \<open>Runs an operation and cleans up a directory when it fails; the error of the operation is kept.\<close>

definition or_remove :: "path \<Rightarrow> unit io \<Rightarrow> unit io" where
  "or_remove directory m = io_catch m (\<lambda>e. io_bind (io_ignore (fs_remove_dir_all directory)) (\<lambda>_. io_fail e))"

definition instance_create :: "instance_service \<Rightarrow> InstanceSpec \<Rightarrow> Instance io" where
  "instance_create sv spec =
     io_bind (io_lift (is_validate spec)) (\<lambda>_.
     with_lock (instance_lock (is_id spec)) (
     io_bind (fs_create_dir_all (iv_root sv)) (\<lambda>_.
     let target = instance_target sv (is_id spec) in
     io_bind (find_node target) (\<lambda>found.
     if found \<noteq> None then io_fail (AlreadyExists ''instance'' (iid_str (is_id spec)))
     else
     io_bind (io_lift (ok_or (iv_nanos sv) (InvalidConfig ''system clock precedes Unix epoch''))) (\<lambda>nonce.
     let staging = instance_staging sv (is_id spec) nonce in
     io_bind (fs_create_dir staging) (\<lambda>_.
     io_bind (or_remove staging (write_new_instance sv staging spec)) (\<lambda>_.
     io_bind (or_remove staging (fs_rename staging target)) (\<lambda>_.
     io_bind (emit ''InstanceCreated'' [iid_str (is_id spec)]) (\<lambda>_.
     io_return \<lparr>it_spec = spec, it_path = target\<rparr>)))))))))"

text \<open>\<open>get\<close>.\<close>

definition instance_missing :: "InstanceId \<Rightarrow> Error \<Rightarrow> Error" where
  "instance_missing i e = (if is_not_found e then NotFound ''instance'' (iid_str i) else e)"

definition load_instance_document :: "instance_service \<Rightarrow> InstanceId \<Rightarrow> path \<Rightarrow> InstanceSpec io" where
  "load_instance_document sv i metadata_path =
     io_bind (fs_symlink_metadata metadata_path) (\<lambda>n.
     if \<not> is_file_node n
     then io_fail (UnsafeFilesystemEntry metadata_path ''instance metadata must be a real file'')
     else
     io_bind (fs_read metadata_path) (\<lambda>bytes.
     io_bind (io_lift (json_value (iv_document sv) bytes)) (\<lambda>document.
     if id_format_version document \<noteq> INSTANCE_FORMAT_VERSION
     then io_fail (UnsupportedFormat ''instance'' (id_format_version document))
     else if is_id (id_instance document) \<noteq> i
     then io_fail (InvalidConfig ''instance directory and document identifiers differ'')
     else io_bind (io_lift (is_validate (id_instance document))) (\<lambda>_. io_return (id_instance document)))))"

definition instance_get :: "instance_service \<Rightarrow> string \<Rightarrow> Instance io" where
  "instance_get sv name =
     io_bind (io_lift (iid_new name)) (\<lambda>i.
     let p = instance_target sv i in
     io_bind (io_map_err (instance_missing i) (fs_symlink_metadata p)) (\<lambda>n.
     if n \<noteq> DirNode then io_fail (UnsafeFilesystemEntry p ''instance root must be a real directory'')
     else
     io_bind (load_instance_document sv i (p @ [''instance.json''])) (\<lambda>spec.
     io_return \<lparr>it_spec = spec, it_path = p\<rparr>)))"

text \<open>\<open>replace_spec_unlocked\<close>.\<close>

definition replace_spec_unlocked :: "instance_service \<Rightarrow> Instance \<Rightarrow> InstanceSpec \<Rightarrow> Instance io" where
  "replace_spec_unlocked sv i spec =
     io_bind (io_lift (is_validate spec)) (\<lambda>_.
     if is_id spec \<noteq> it_id i
     then io_fail (InvalidConfig ''replacement instance specification changed the instance id'')
     else
     io_bind (write_remove_rename (it_path i @ [''instance.json.tmp'']) (it_path i @ [''instance.json''])
        (json_bytes (iv_document sv) \<lparr>id_format_version = INSTANCE_FORMAT_VERSION, id_instance = spec\<rparr>)) (\<lambda>_.
     io_return \<lparr>it_spec = spec, it_path = it_path i\<rparr>))"

text \<open>\<open>list\<close>: names that are no identifiers are skipped, and the first instance that cannot be loaded ends it.\<close>

fun get_all :: "instance_service \<Rightarrow> InstanceId list \<Rightarrow> Instance list io" where
  "get_all sv [] = io_return []"
| "get_all sv (i # ids) =
     io_bind (instance_get sv (iid_str i)) (\<lambda>x. io_bind (get_all sv ids) (\<lambda>xs. io_return (x # xs)))"

definition listed_ids :: "string list \<Rightarrow> InstanceId list" where
  "listed_ids names = sort (List.map_filter (\<lambda>n. res_ok (iid_new n)) names)"

definition instance_list :: "instance_service \<Rightarrow> Instance list io" where
  "instance_list sv =
     io_bind (fs_create_dir_all (iv_root sv)) (\<lambda>_.
     io_bind (fs_read_dir (iv_entries sv) (iv_root sv)) (\<lambda>names.
     get_all sv (listed_ids names)))"

text \<open>\<open>delete\<close>.\<close>

definition instance_delete :: "instance_service \<Rightarrow> string \<Rightarrow> unit io" where
  "instance_delete sv name =
     io_bind (io_lift (iid_new name)) (\<lambda>i.
     with_lock (instance_lock i) (
     let p = instance_target sv i in
     io_bind (io_map_err (instance_missing i) (fs_symlink_metadata p)) (\<lambda>n.
     if n \<noteq> DirNode
     then io_fail (UnsafeFilesystemEntry p ''refusing to recursively delete a non-directory or symbolic link'')
     else
     io_bind (fs_remove_dir_all p) (\<lambda>_.
     emit ''InstanceDeleted'' [iid_str i]))))"

text \<open>\<open>status\<close>: the document that the installers write.\<close>

definition state_path :: "path \<Rightarrow> path" where
  "state_path root = root @ [''runtime'', ''install-state.json'']"

fun shown_status :: "PersistedInstallStatus \<Rightarrow> InstanceStatus" where
  "shown_status Installing = StatusInstalling"
| "shown_status Updating = StatusUpdating"
| "shown_status Interrupted = Recoverable"
| "shown_status Installed = StatusInstalled"
| "shown_status Broken = StatusBroken"

definition read_state :: "instance_service \<Rightarrow> path \<Rightarrow> InstallStateDocument io" where
  "read_state sv p = io_bind (fs_read p) (\<lambda>bytes. io_lift (json_value (iv_state sv) bytes))"

definition instance_status :: "instance_service \<Rightarrow> string \<Rightarrow> InstanceStatus io" where
  "instance_status sv name =
     io_bind (io_lift (iid_new name)) (\<lambda>i.
     let root = instance_target sv i in
     io_bind (find_node root) (\<lambda>found.
     case found of
       None \<Rightarrow> io_return StatusNotFound
     | Some n \<Rightarrow>
         if n \<noteq> DirNode then io_fail (UnsafeFilesystemEntry root ''instance root must be a real directory'')
         else
         io_bind (find_node (state_path root)) (\<lambda>state.
         case state of
           None \<Rightarrow> io_return StatusNotInstalled
         | Some m \<Rightarrow>
             if \<not> is_file_node m
             then io_fail (UnsafeFilesystemEntry (state_path root) ''installation state must be a real file'')
             else
             io_bind (read_state sv (state_path root)) (\<lambda>document.
             if st_format_version document \<noteq> 1
             then io_fail (UnsupportedFormat ''installation state'' (st_format_version document))
             else io_return (shown_status (st_status document))))))"

definition installed_version :: "instance_service \<Rightarrow> Instance \<Rightarrow> string option io" where
  "installed_version sv i =
     io_bind (instance_status sv (iid_str (it_id i))) (\<lambda>status.
     if status \<noteq> StatusInstalled then io_return None
     else io_bind (read_state sv (state_path (it_path i))) (\<lambda>document. io_return (Some (st_version_id document))))"

text \<open>\<open>write_install_state\<close> and the marks.\<close>

definition ensure_runtime :: "path \<Rightarrow> unit io" where
  "ensure_runtime runtime =
     io_bind (find_node runtime) (\<lambda>found.
     case found of
       None \<Rightarrow> fs_create_dir runtime
     | Some n \<Rightarrow> if n = DirNode then io_return ()
                 else io_fail (UnsafeFilesystemEntry runtime ''instance runtime must be a real directory''))"

definition require_real_file :: "path \<Rightarrow> string \<Rightarrow> unit io" where
  "require_real_file p reason =
     io_bind (fs_symlink_metadata p) (\<lambda>n. if is_file_node n then io_return () else io_fail (UnsafeFilesystemEntry p reason))"

definition write_install_state ::
    "instance_service \<Rightarrow> Instance \<Rightarrow> PersistedInstallStatus \<Rightarrow> string \<Rightarrow> string option \<Rightarrow> unit io" where
  "write_install_state sv i status version_id err =
     (let runtime = it_path i @ [''runtime''];
          destination = runtime @ [''install-state.json''];
          temporary = runtime @ [''install-state.json.tmp'']
      in
      io_bind (ensure_runtime runtime) (\<lambda>_.
      io_bind (fs_try_exists temporary) (\<lambda>leftover.
      io_bind (if leftover then require_real_file temporary ''temporary installation state must be a real file''
               else io_return ()) (\<lambda>_.
      io_bind (io_lift (json_bytes (iv_state sv)
          \<lparr>st_format_version = 1, st_status = status, st_version_id = version_id, st_error = err\<rparr>)) (\<lambda>bytes.
      io_bind (fs_write temporary bytes) (\<lambda>_.
      io_bind (fs_try_exists destination) (\<lambda>present.
      io_bind (if present
               then io_bind (require_real_file destination ''installation state must be a real file'') (\<lambda>_.
                    fs_remove_file destination)
               else io_return ()) (\<lambda>_.
      fs_rename temporary destination))))))))"

abbreviation mark :: "instance_service \<Rightarrow> PersistedInstallStatus \<Rightarrow> string option \<Rightarrow> Instance \<Rightarrow> unit io" where
  "mark sv status err i \<equiv> write_install_state sv i status (mc_version (is_minecraft (it_spec i))) err"

definition mark_installing :: "instance_service \<Rightarrow> Instance \<Rightarrow> unit io" where
  "mark_installing sv i = mark sv Installing None i"

definition mark_installed :: "instance_service \<Rightarrow> Instance \<Rightarrow> unit io" where
  "mark_installed sv i = mark sv Installed None i"

definition mark_updating :: "instance_service \<Rightarrow> Instance \<Rightarrow> unit io" where
  "mark_updating sv i = mark sv Updating None i"

definition mark_broken :: "instance_service \<Rightarrow> Instance \<Rightarrow> string \<Rightarrow> unit io" where
  "mark_broken sv i err = mark sv Broken (Some err) i"

definition mark_interrupted :: "instance_service \<Rightarrow> Instance \<Rightarrow> string \<Rightarrow> unit io" where
  "mark_interrupted sv i err = mark sv Interrupted (Some err) i"

section \<open>A new instance appears completely\<close>

text \<open>
  The subtree that \<open>create\<close> builds, by paths relative to its root: the directories made so far and,
  once it is written, the document.
\<close>

definition layout :: "string list \<Rightarrow> string option \<Rightarrow> path \<Rightarrow> node option" where
  "layout cs doc r =
     (if r = [] \<or> r \<in> (\<lambda>c. [c]) ` set cs then Some DirNode
      else if r = [''instance.json''] then map_option FileNode doc else None)"

definition staged :: "path \<Rightarrow> string list \<Rightarrow> string option \<Rightarrow> tree \<Rightarrow> bool" where
  "staged p cs doc t \<longleftrightarrow> (\<forall>r. t (p @ r) = layout cs doc r)"

definition complete_at :: "path \<Rightarrow> string \<Rightarrow> tree \<Rightarrow> bool" where
  "complete_at p bytes t \<longleftrightarrow> staged p instance_children (Some bytes) t"

definition unchanged_at :: "path \<Rightarrow> tree \<Rightarrow> tree \<Rightarrow> bool" where
  "unchanged_at p t0 t \<longleftrightarrow> (\<forall>r. t (p @ r) = t0 (p @ r))"

text \<open>Every entry lies in a directory.\<close>

definition tree_wf :: "tree \<Rightarrow> bool" where
  "tree_wf t \<longleftrightarrow> (\<forall>p. p \<noteq> [] \<longrightarrow> t p \<noteq> None \<longrightarrow> is_dir t (butlast p))"

lemma tree_wf_absent: "tree_wf t \<Longrightarrow> t p = None \<Longrightarrow> \<not> is_root p \<Longrightarrow> t (p @ r) = None"
proof (induction r rule: rev_induct)
  case (snoc x r)
  then have "t (p @ r) = None" by simp
  moreover have "\<not> is_root (p @ r)" using snoc.prems(3) by (cases p; cases r) (auto simp: is_root_def)
  ultimately have "\<not> is_dir t (butlast (p @ r @ [x]))" by (simp add: is_dir_def butlast_append)
  with snoc.prems(1) show ?case unfolding tree_wf_def by (metis append_is_Nil_conv not_Cons_self2)
qed simp

lemma unchanged_at_update:
  "(\<And>r. q \<noteq> p @ r) \<Longrightarrow> unchanged_at p t0 (t(q := n)) = unchanged_at p t0 t"
  unfolding unchanged_at_def by (metis fun_upd_other)

lemma staged_root: "staged p cs doc t \<Longrightarrow> t p = Some DirNode"
  unfolding staged_def by (drule spec [of _ "[]"]) (simp add: layout_def)

lemma staged_dir: "staged p cs None t \<Longrightarrow> staged p (c # cs) None (t(p @ [c] \<mapsto> DirNode))"
  using staged_root [of p cs None t] by (auto simp: staged_def layout_def)

lemma staged_document:
  "staged p cs None t \<Longrightarrow> ''instance.json'' \<notin> set cs \<Longrightarrow>
   staged p cs (Some b) (t(p @ [''instance.json''] \<mapsto> FileNode b))"
  using staged_root [of p cs None t] by (auto simp: staged_def layout_def)

lemma staged_set: "set cs = set ds \<Longrightarrow> staged p cs doc t = staged p ds doc t"
  by (simp add: staged_def layout_def)

lemma staged_new: "(\<And>r. t (p @ r) = None) \<Longrightarrow> staged p [] None (t(p \<mapsto> DirNode))"
  by (simp add: staged_def layout_def)

text \<open>Two entries of one directory.\<close>

lemma siblings_apart: "a \<noteq> b \<Longrightarrow> root @ [a] @ r \<noteq> root @ [b] @ r'"
  by simp

lemma move_tree_staged:
  assumes "staged (root @ [a]) cs doc t" "a \<noteq> b"
  shows "staged (root @ [b]) cs doc (move_tree (root @ [a]) (root @ [b]) t)"
  using assms by (simp add: staged_def move_tree_def below_def)

text \<open>The steps of \<open>create\<close>, on the target and the staging directory below one root.\<close>

lemma io_valid_create_dir:
  assumes "\<And>t. P t \<Longrightarrow> t p = None \<Longrightarrow> J (t(p \<mapsto> DirNode)) \<and> Q () (t(p \<mapsto> DirNode))" "\<And>t. P t \<Longrightarrow> E t"
  shows "io_valid J P (fs_create_dir p) Q E"
  unfolding fs_create_dir_def by (rule io_valid_step) (use assms in \<open>auto simp: create_dir_tree_def split: if_splits\<close>)

lemma create_children_valid:
  assumes "a \<noteq> b" "\<And>t. unchanged_at (root @ [b]) t0 t \<Longrightarrow> J t"
  shows "io_valid J (\<lambda>t. unchanged_at (root @ [b]) t0 t \<and> staged (root @ [a]) made None t)
    (create_children (root @ [a]) cs)
    (\<lambda>_ t. unchanged_at (root @ [b]) t0 t \<and> staged (root @ [a]) (rev cs @ made) None t) (unchanged_at (root @ [b]) t0)"
proof (induction cs arbitrary: made)
  case Nil
  show ?case unfolding create_children.simps by (rule io_valid_return) simp
next
  case (Cons c cs)
  have "io_valid J (\<lambda>t. unchanged_at (root @ [b]) t0 t \<and> staged (root @ [a]) made None t)
    (fs_create_dir ((root @ [a]) @ [c]))
    (\<lambda>_ t. unchanged_at (root @ [b]) t0 t \<and> staged (root @ [a]) (c # made) None t) (unchanged_at (root @ [b]) t0)"
  proof (rule io_valid_create_dir)
    fix t assume t: "unchanged_at (root @ [b]) t0 t \<and> staged (root @ [a]) made None t"
    have "unchanged_at (root @ [b]) t0 (t((root @ [a]) @ [c] \<mapsto> DirNode))"
      using t assms(1) by (subst unchanged_at_update) auto
    with t staged_dir show "J (t((root @ [a]) @ [c] \<mapsto> DirNode)) \<and> unchanged_at (root @ [b]) t0 (t((root @ [a]) @ [c] \<mapsto> DirNode)) \<and>
        staged (root @ [a]) (c # made) None (t((root @ [a]) @ [c] \<mapsto> DirNode))"
      using assms(2) by blast
  qed simp
  from io_valid_bind [OF this Cons.IH] show ?case by simp
qed

lemma write_new_instance_valid:
  assumes "a \<noteq> b" "\<And>t. unchanged_at (root @ [b]) t0 t \<Longrightarrow> J t"
    and "\<And>bytes. encode_json (iv_document sv) \<lparr>id_format_version = INSTANCE_FORMAT_VERSION, id_instance = spec\<rparr> = Inr bytes \<Longrightarrow>
      bytes = b'"
  shows "io_valid J (\<lambda>t. unchanged_at (root @ [b]) t0 t \<and> staged (root @ [a]) [] None t)
    (write_new_instance sv (root @ [a]) spec)
    (\<lambda>_ t. unchanged_at (root @ [b]) t0 t \<and> complete_at (root @ [a]) b' t) (unchanged_at (root @ [b]) t0)"
proof -
  let ?U = "unchanged_at (root @ [b]) t0" and ?d = "(root @ [a]) @ [''instance.json'']"
  let ?S = "\<lambda>t. ?U t \<and> staged (root @ [a]) (rev instance_children) None t"
  note children = create_children_valid [OF assms(1,2), where made = "[]", simplified append_Nil2]
  have keep: "?U (t(?d := n))" if "?U t" for t n using that assms(1) by (subst unchanged_at_update) auto
  have wr: "io_valid J ?S (fs_write ?d b') (\<lambda>_ t. ?U t \<and> complete_at (root @ [a]) b' t) ?U"
  proof (rule io_valid_write)
    fix t q assume t: "?S t" and q: "write_target ?d t = Inr q"
    have "t ?d = None" using t by (simp add: staged_def layout_def instance_children_def)
    with q have [simp]: "q = ?d" by (intro write_target_plain [of t]) auto
    show "J (t(q \<mapsto> FileNode (take k b'))) \<and> ?U (t(q \<mapsto> FileNode (take k b')))" for k
      using keep t assms(2) by simp
    have "staged (root @ [a]) (rev instance_children) (Some b') (t(?d \<mapsto> FileNode b'))"
      using t by (intro staged_document) (auto simp: instance_children_def)
    then have "complete_at (root @ [a]) b' (t(?d \<mapsto> FileNode b'))"
      unfolding complete_at_def by (subst staged_set [of _ "rev instance_children"]) auto
    then show "?U (t(q \<mapsto> FileNode b')) \<and> complete_at (root @ [a]) b' (t(q \<mapsto> FileNode b'))" using keep t by simp
  qed simp
  show ?thesis
    unfolding write_new_instance_def
  proof (rule io_valid_bind [OF children])
    show "io_valid J ?S (io_bind (io_lift (json_bytes (iv_document sv)
        \<lparr>id_format_version = INSTANCE_FORMAT_VERSION, id_instance = spec\<rparr>)) (fs_write ?d))
      (\<lambda>_ t. ?U t \<and> complete_at (root @ [a]) b' t) ?U"
    proof (rule io_valid_bind [where R = "\<lambda>x t. ?S t \<and> x = b'"])
      show "io_valid J ?S (io_lift (json_bytes (iv_document sv)
        \<lparr>id_format_version = INSTANCE_FORMAT_VERSION, id_instance = spec\<rparr>)) (\<lambda>x t. ?S t \<and> x = b') ?U"
        using assms(3) by (intro io_valid_lift) auto
      show "io_valid J (\<lambda>t. ?S t \<and> x = b') (fs_write ?d x) (\<lambda>_ t. ?U t \<and> complete_at (root @ [a]) b' t) ?U" for x
      proof (cases "x = b'")
        case True
        with wr show ?thesis by simp
      qed (simp add: io_valid_def)
    qed
  qed
qed

lemma find_node_valid:
  "io_valid J P (find_node p) (\<lambda>x t. P t \<and> (\<not> is_root p \<longrightarrow> x = t p)) P"
proof (rule io_valid_frame_result)
  show "io_frame (find_node p)" unfolding find_node_def by (intro io_frame_catch io_frame_bind) auto
  show "\<not> is_root p \<longrightarrow> x = w_tree w p" if "find_node p w = (Inr x, w')" for w x w'
    using that next_fault_kind next_fault_simps
    by (auto simp: find_node_def io_catch_eq_Inr io_bind_eq_Inr fs_symlink_metadata_def io_query_def io_bind_def
        is_not_found_def map_err_def split: prod.splits sum.splits option.splits if_splits)
qed

lemma or_remove_valid:
  assumes "a \<noteq> b" "\<And>t. unchanged_at (root @ [b]) t0 t \<Longrightarrow> J t"
    and "io_valid J P m Q (unchanged_at (root @ [b]) t0)"
  shows "io_valid J P (or_remove (root @ [a]) m) Q (unchanged_at (root @ [b]) t0)"
  unfolding or_remove_def
proof (rule io_valid_catch [OF assms(3)])
  let ?U = "unchanged_at (root @ [b]) t0"
  have "io_valid J ?U (fs_remove_dir_all (root @ [a])) (\<lambda>_. ?U) ?U"
    unfolding fs_remove_dir_all_def
  proof (rule io_valid_step)
    fix t t' assume t: "?U t" and t': "remove_dir_all_tree (root @ [a]) t = Inr t'"
    have "\<not> below (root @ [a]) ((root @ [b]) @ r)" for r using assms(1) by (simp add: below_def)
    then have "t' ((root @ [b]) @ r) = t ((root @ [b]) @ r)" for r
      using t' by (auto simp: remove_dir_all_tree_def split: option.splits node.splits)
    with t have "?U t'" by (simp add: unchanged_at_def)
    with assms(2) show "J t' \<and> ?U t'" by simp
  qed simp
  then have "io_valid J ?U (io_ignore (fs_remove_dir_all (root @ [a]))) (\<lambda>_. ?U) ?U" by (rule io_valid_ignore)
  then show "io_valid J ?U (io_bind (io_ignore (fs_remove_dir_all (root @ [a]))) (\<lambda>_. io_fail e)) Q ?U" for e
    by (rule io_valid_bind) (rule io_valid_fail, simp)
qed

text \<open>
  \<open>create\<close> as a whole: what lies at the target is what was there before, or the target was free and now
  has the complete instance; and on an error it is what was there before.
\<close>

definition untouched_or_created :: "path \<Rightarrow> string \<Rightarrow> tree \<Rightarrow> tree \<Rightarrow> bool" where
  "untouched_or_created p bytes t0 t \<longleftrightarrow>
     unchanged_at p t0 t \<or> (\<forall>r. t0 (p @ r) = None) \<and> complete_at p bytes t"

lemma rename_staged_valid:
  assumes "a \<noteq> b" "\<And>t. unchanged_at (root @ [b]) t0 t \<Longrightarrow> J t"
    and "\<And>t. complete_at (root @ [b]) bytes t \<Longrightarrow> J t"
  shows "io_valid J (\<lambda>t. unchanged_at (root @ [b]) t0 t \<and> complete_at (root @ [a]) bytes t)
    (fs_rename (root @ [a]) (root @ [b])) (\<lambda>_. complete_at (root @ [b]) bytes) (unchanged_at (root @ [b]) t0)"
  unfolding fs_rename_def
proof (rule io_valid_step)
  fix t t' assume t: "unchanged_at (root @ [b]) t0 t \<and> complete_at (root @ [a]) bytes t"
    and t': "rename_tree (root @ [a]) (root @ [b]) t = Inr t'"
  have "t (root @ [a]) = Some DirNode" using t unfolding complete_at_def by (auto dest: staged_root)
  with t' have "t' = move_tree (root @ [a]) (root @ [b]) t" by (auto simp: rename_tree_def split: if_splits)
  with t move_tree_staged [OF _ assms(1)] have "complete_at (root @ [b]) bytes t'" by (simp add: complete_at_def)
  with assms(3) show "J t' \<and> complete_at (root @ [b]) bytes t'" by blast
qed simp

lemma staging_differs:
  assumes "iid_valid s"
  shows "CHR ''.'' # r \<noteq> s"
  using assms by (auto simp: iid_valid_def is_ascii_alphanumeric_def is_ascii_lowercase_def is_ascii_uppercase_def
      is_ascii_digit_def byte_def)

lemma instance_create_valid:
  fixes sv spec t0
  defines "T \<equiv> instance_target sv (is_id spec)"
  assumes wf: "tree_wf t0" and id: "iid_valid (iid_str (is_id spec))" and root: "iv_root sv \<noteq> []"
    and bytes: "\<And>b. encode_json (iv_document sv) \<lparr>id_format_version = INSTANCE_FORMAT_VERSION, id_instance = spec\<rparr> = Inr b \<Longrightarrow>
      b = bytes"
  shows "io_valid (untouched_or_created T bytes t0) (\<lambda>t. t = t0) (instance_create sv spec)
     (\<lambda>i t. complete_at T bytes t \<and> (\<forall>r. t0 (T @ r) = None) \<and> i = \<lparr>it_spec = spec, it_path = T\<rparr>) (unchanged_at T t0)"
proof -
  let ?J = "untouched_or_created T bytes t0" and ?U = "unchanged_at T t0"
  define b where "b = iid_str (is_id spec)"
  have T: "T = iv_root sv @ [b]" by (simp add: T_def instance_target_def b_def)
  have J: "?J t" if "?U t" for t using that by (simp add: untouched_or_created_def)
  have J': "unchanged_at (iv_root sv @ [b]) t0 t \<Longrightarrow> ?J t" for t using J by (simp add: T)
  have Uroot: "\<not> is_root T" using root by (auto simp: T is_root_def append_eq_Cons_conv)
  let ?F = "\<lambda>t. ?U t \<and> (\<forall>r. t0 (T @ r) = None)"
  have mk: "io_valid ?J (\<lambda>t. t = t0) (fs_create_dir_all (iv_root sv))
      (\<lambda>_ t. \<forall>q. length (iv_root sv) < length q \<longrightarrow> t q = t0 q) ?U"
    by (rule io_valid_create_dir_all) (auto simp: T unchanged_at_def untouched_or_created_def)
  let ?B = "\<lambda>t :: tree. \<forall>q. length (iv_root sv) < length q \<longrightarrow> t q = t0 q"
  have BU: "?B t \<Longrightarrow> ?U t" for t by (auto simp: T unchanged_at_def)
  have found: "io_valid ?J ?B (find_node T) (\<lambda>x t. ?B t \<and> (\<not> is_root T \<longrightarrow> x = t T)) ?U"
    by (rule io_valid_conseq [OF find_node_valid [where P = ?B]]) (use BU in auto)
  have free: "\<forall>r. t0 (T @ r) = None" if "?B t" "t T = None" for t
    using tree_wf_absent [OF wf, of T] that(2) that(1) [rule_format, of T] Uroot by (simp add: T)
  have build: "io_valid ?J (\<lambda>t. ?B t \<and> t T = None)
     (let staging = instance_staging sv (is_id spec) nonce in
      io_bind (fs_create_dir staging) (\<lambda>_.
      io_bind (or_remove staging (write_new_instance sv staging spec)) (\<lambda>_.
      io_bind (or_remove staging (fs_rename staging T)) (\<lambda>_.
      io_bind (emit ''InstanceCreated'' [iid_str (is_id spec)]) (\<lambda>_.
      io_return \<lparr>it_spec = spec, it_path = T\<rparr>)))))
     (\<lambda>i t. complete_at T bytes t \<and> (\<forall>r. t0 (T @ r) = None) \<and> i = \<lparr>it_spec = spec, it_path = T\<rparr>) ?U" for nonce
  proof -
    define a where "a = ''.'' @ iid_str (is_id spec) @ ''.'' @ show_nat nonce @ ''.creating''"
    define S where "S = iv_root sv @ [a]"
    have ab: "a \<noteq> b" using staging_differs [OF id] by (simp add: a_def b_def)
    have staging: "instance_staging sv (is_id spec) nonce = S" by (simp add: instance_staging_def S_def a_def)
    have Sroot: "\<not> is_root S" using root by (auto simp: S_def is_root_def append_eq_Cons_conv)
    have 1: "io_valid ?J (\<lambda>t. ?B t \<and> t T = None) (fs_create_dir S) (\<lambda>_ t. ?U t \<and> staged S [] None t \<and> (\<forall>r. t0 (T @ r) = None)) ?U"
    proof (rule io_valid_create_dir)
      fix t assume t: "?B t \<and> t T = None" "t S = None"
      have "t0 S = None" using t by (simp add: S_def)
      then have "t (S @ r) = None" for r using tree_wf_absent [OF wf _ Sroot] t(1) by (simp add: S_def)
      then have "staged S [] None (t(S \<mapsto> DirNode))" by (rule staged_new)
      moreover have "?U (t(S \<mapsto> DirNode))"
        using BU t(1) ab by (subst unchanged_at_update) (auto simp: S_def T)
      ultimately show "?J (t(S \<mapsto> DirNode)) \<and> ?U (t(S \<mapsto> DirNode)) \<and> staged S [] None (t(S \<mapsto> DirNode)) \<and>
          (\<forall>r. t0 (T @ r) = None)" using J free t(1) by blast
    qed (use BU in auto)
    show ?thesis
    proof (cases "\<forall>r. t0 (T @ r) = None")
      case False
      then show ?thesis using free by (auto simp: io_valid_def)
    next
      case True
      have fin: "complete_at (iv_root sv @ [b]) bytes t \<Longrightarrow> ?J t" for t
        using True by (simp add: untouched_or_created_def T)
      note keep = J' [unfolded T] and fin = fin [unfolded T]
      have 2: "io_valid ?J (\<lambda>t. ?U t \<and> staged S [] None t) (or_remove S (write_new_instance sv S spec))
          (\<lambda>_ t. ?U t \<and> complete_at S bytes t) ?U"
        unfolding S_def T by (rule or_remove_valid [OF ab keep write_new_instance_valid [OF ab keep bytes]])
      have 3: "io_valid ?J (\<lambda>t. ?U t \<and> complete_at S bytes t) (or_remove S (fs_rename S T))
          (\<lambda>_. complete_at T bytes) ?U"
        unfolding S_def T by (rule or_remove_valid [OF ab keep rename_staged_valid [OF ab keep fin]])
      have 4: "io_valid ?J (complete_at T bytes) (emit ''InstanceCreated'' [iid_str (is_id spec)])
        (\<lambda>_. complete_at T bytes) ?U" by (rule io_valid_emit)
      have 5: "io_valid ?J (complete_at T bytes) (io_return \<lparr>it_spec = spec, it_path = T\<rparr>)
        (\<lambda>i t. complete_at T bytes t \<and> (\<forall>r. t0 (T @ r) = None) \<and> i = \<lparr>it_spec = spec, it_path = T\<rparr>) ?U"
        by (rule io_valid_return) (use True in simp)
      have opened: "io_valid ?J (\<lambda>t. ?B t \<and> t T = None) (fs_create_dir S) (\<lambda>_ t. ?U t \<and> staged S [] None t) ?U"
        by (rule io_valid_conseq [OF 1]) auto
      show ?thesis
        unfolding Let_def staging
        by (rule io_valid_bind [OF opened io_valid_bind [OF 2 io_valid_bind [OF 3 io_valid_bind [OF 4 5]]]])
    qed
  qed
  let ?Q = "\<lambda>i t. complete_at T bytes t \<and> (\<forall>r. t0 (T @ r) = None) \<and> i = \<lparr>it_spec = spec, it_path = T\<rparr>"
  have clock: "io_valid ?J (\<lambda>t. ?B t \<and> t T = None) (io_lift r) (\<lambda>_ t. ?B t \<and> t T = None) ?U" for r
    by (rule io_valid_lift) (use BU in auto)
  have taken: "io_valid ?J (\<lambda>t. ?B t \<and> (\<not> is_root T \<longrightarrow> x = t T)) (if x \<noteq> None then io_fail e
      else io_bind (io_lift r) (\<lambda>nonce. let staging = instance_staging sv (is_id spec) nonce in
      io_bind (fs_create_dir staging) (\<lambda>_.
      io_bind (or_remove staging (write_new_instance sv staging spec)) (\<lambda>_.
      io_bind (or_remove staging (fs_rename staging T)) (\<lambda>_.
      io_bind (emit ''InstanceCreated'' [iid_str (is_id spec)]) (\<lambda>_.
      io_return \<lparr>it_spec = spec, it_path = T\<rparr>)))))) ?Q ?U" for x e r
  proof (cases "x = None")
    case True
    have "io_valid ?J (\<lambda>t. ?B t \<and> (\<not> is_root T \<longrightarrow> x = t T)) (io_bind (io_lift r)
      (\<lambda>nonce. let staging = instance_staging sv (is_id spec) nonce in
      io_bind (fs_create_dir staging) (\<lambda>_.
      io_bind (or_remove staging (write_new_instance sv staging spec)) (\<lambda>_.
      io_bind (or_remove staging (fs_rename staging T)) (\<lambda>_.
      io_bind (emit ''InstanceCreated'' [iid_str (is_id spec)]) (\<lambda>_.
      io_return \<lparr>it_spec = spec, it_path = T\<rparr>)))))) ?Q ?U"
      by (rule io_valid_conseq [OF io_valid_bind [OF clock build]]) (use Uroot True in auto)
    with True show ?thesis by (simp only: simp_thms if_False)
  qed (auto intro!: io_valid_fail BU)
  have body: "io_valid ?J (\<lambda>t. t = t0) (with_lock l (io_bind (fs_create_dir_all (iv_root sv)) (\<lambda>_.
      io_bind (find_node T) (\<lambda>x. if x \<noteq> None then io_fail e
      else io_bind (io_lift r) (\<lambda>nonce. let staging = instance_staging sv (is_id spec) nonce in
      io_bind (fs_create_dir staging) (\<lambda>_.
      io_bind (or_remove staging (write_new_instance sv staging spec)) (\<lambda>_.
      io_bind (or_remove staging (fs_rename staging T)) (\<lambda>_.
      io_bind (emit ''InstanceCreated'' [iid_str (is_id spec)]) (\<lambda>_.
      io_return \<lparr>it_spec = spec, it_path = T\<rparr>))))))))) ?Q ?U" for l e r
    by (rule io_valid_with_lock [OF io_valid_bind [OF mk io_valid_bind [OF found taken]]]) (simp add: unchanged_at_def)
  have "io_valid ?J (\<lambda>t. t = t0) (io_lift (is_validate spec)) (\<lambda>_ t. t = t0) ?U"
    by (rule io_valid_lift) (auto simp: unchanged_at_def)
  from io_valid_bind [OF this body] show ?thesis
    unfolding instance_create_def Let_def T_def .
qed

section \<open>Loading and listing\<close>

lemma symlink_metadata_run:
  "w_faults w = [] \<Longrightarrow> w_tree w p = Some n \<Longrightarrow> fs_symlink_metadata p w = (Inr n, w)"
  "w_faults w = [] \<Longrightarrow> w_tree w p = None \<Longrightarrow> \<not> is_root p \<Longrightarrow> fs_symlink_metadata p w = (Inl (Error.Io IoNotFound), w)"
  by (simp_all add: fs_symlink_metadata_def io_query_run)

lemma read_file_run: "w_faults w = [] \<Longrightarrow> w_tree w p = Some (FileNode c) \<Longrightarrow> fs_read p w = (Inr c, w)"
  by (simp add: fs_read_def io_query_run)

lemma find_node_run:
  assumes "w_faults w = []" "\<not> is_root p"
  shows "find_node p w = (Inr (w_tree w p), w)"
  using assms by (cases "w_tree w p")
    (simp_all add: find_node_def io_catch_def io_bind_def symlink_metadata_run is_not_found_def)

text \<open>What \<open>get\<close> returns for a directory with a document.\<close>

lemma instance_get_run:
  assumes w: "w_faults w = []" and id: "iid_new name = Inr i"
    and dir: "w_tree w (instance_target sv i) = Some DirNode"
    and node: "w_tree w (instance_target sv i @ [''instance.json'']) = Some (FileNode bytes)"
    and doc: "decode_json (iv_document sv) bytes = Inr \<lparr>id_format_version = INSTANCE_FORMAT_VERSION, id_instance = spec\<rparr>"
    and spec: "is_id spec = i" "is_validate spec = Inr ()"
  shows "instance_get sv name w = (Inr \<lparr>it_spec = spec, it_path = instance_target sv i\<rparr>, w)"
  using assms
  by (simp add: instance_get_def load_instance_document_def Let_def io_bind_def io_map_err_def symlink_metadata_run read_file_run
      is_file_node_def)

lemma instance_get_path: "instance_get sv name w = (Inr x, w') \<Longrightarrow>
   \<exists>i. iid_new name = Inr i \<and> it_id x = i \<and> it_path x = instance_target sv i \<and> is_validate (it_spec x) = Inr ()"
  by (auto simp: instance_get_def load_instance_document_def io_bind_eq_Inr Let_def
      split: if_splits dest!: arg_cong [of _ _ fst])

text \<open>A directory whose document is missing cannot be loaded, and then no instance can be listed.\<close>

lemma instance_get_no_document:
  assumes w: "w_faults w = []" and id: "iid_new name = Inr i"
    and dir: "w_tree w (instance_target sv i) = Some DirNode"
    and node: "w_tree w (instance_target sv i @ [''instance.json'']) = None"
  shows "instance_get sv name w = (Inl (Error.Io IoNotFound), w)"
  using assms
  by (simp add: instance_get_def load_instance_document_def Let_def io_bind_def io_map_err_def symlink_metadata_run is_root_def
      instance_target_def append_eq_Cons_conv)

lemma io_frame_instance_get: "io_frame (instance_get sv name)"
  unfolding instance_get_def load_instance_document_def Let_def
  by (intro io_frame_bind io_frame_if io_frame_map_err) auto

lemma io_frame_read_dir: "io_frame (fs_read_dir entries p)"
  unfolding fs_read_dir_def by (rule io_frame_query)

lemma io_frame_get_all: "io_frame (get_all sv ids)"
proof (induction ids)
  case Nil
  show ?case unfolding get_all.simps by (rule io_frame_basic)
next
  case (Cons i ids)
  then show ?case unfolding get_all.simps by (intro io_frame_bind io_frame_instance_get io_frame_basic)
qed

lemma iid_new_Inr_iff: "iid_new name = Inr i \<longleftrightarrow> iid_valid name \<and> iid_str i = name"
proof -
  have "iid_str i = name \<Longrightarrow> iid_valid name \<Longrightarrow> iid_new name = Inr i"
    using iid.new_valid [of name] by (auto intro: InstanceId.expand)
  then show ?thesis using iid.new_as_str iid.new_Inr_valid by blast
qed

lemma res_ok_Some: "res_ok r = Some x \<longleftrightarrow> r = Inr x"
  by (cases r) simp_all

lemma set_map_filter: "set (List.map_filter f xs) = {y. \<exists>x \<in> set xs. f x = Some y}"
  by (induction xs) (auto simp: map_filter_simps split: option.split)

lemma listed_ids_iff: "i \<in> set (listed_ids names) \<longleftrightarrow> iid_str i \<in> set names \<and> iid_valid (iid_str i)"
  by (auto simp: listed_ids_def set_map_filter iid_new_Inr_iff res_ok_Some)

lemma listed_ids_sorted: "sorted (listed_ids names)"
  by (simp add: listed_ids_def)

lemma map_filter_distinct:
  assumes "distinct xs" "\<And>x y z. f x = Some z \<Longrightarrow> f y = Some z \<Longrightarrow> x = y"
  shows "distinct (List.map_filter f xs)"
  using assms(1) by (induction xs) (auto simp: map_filter_simps set_map_filter split: option.split dest: assms(2))

lemma listed_ids_distinct: "distinct names \<Longrightarrow> distinct (listed_ids names)"
  unfolding listed_ids_def distinct_sort
  by (rule map_filter_distinct) (auto simp: res_ok_Some iid_new_Inr_iff)

lemma get_all_Inr:
  "get_all sv ids w = (Inr is, w') \<Longrightarrow> \<forall>i \<in> set ids. iid_valid (iid_str i) \<Longrightarrow>
   map it_id is = ids \<and> (\<forall>x \<in> set is. it_path x = instance_target sv (it_id x) \<and> is_validate (it_spec x) = Inr ())"
proof (induction ids arbitrary: "is" w)
  case (Cons i ids)
  from Cons.prems(1) obtain x xs w1 where
    x: "instance_get sv (iid_str i) w = (Inr x, w1)" "get_all sv ids w1 = (Inr xs, w')" "is = x # xs"
    by (auto simp: io_bind_eq_Inr)
  from instance_get_path [OF x(1)] have "it_id x = i" "it_path x = instance_target sv i" "is_validate (it_spec x) = Inr ()"
    by (auto simp: iid_new_Inr_iff dest: InstanceId.expand)
  with Cons.IH [OF x(2)] Cons.prems(2) x(3) show ?case by auto
qed simp

text \<open>Operations that leave a world without faults as it is.\<close>

definition same_world :: "'a io \<Rightarrow> bool" where
  "same_world m \<longleftrightarrow> (\<forall>w. w_faults w = [] \<longrightarrow> snd (m w) = w)"

lemma same_world_bind:
  assumes "same_world m" "\<And>x. same_world (f x)"
  shows "same_world (io_bind m f)"
  unfolding same_world_def
proof (intro allI impI)
  fix w :: world assume w: "w_faults w = []"
  obtain r w1 where m: "m w = (r, w1)" by fastforce
  with assms(1) w have "w1 = w" unfolding same_world_def by (metis snd_conv)
  with m assms(2) w show "snd (io_bind m f w) = w" by (cases r) (simp_all add: io_bind_def same_world_def)
qed

lemma same_world_basic: "same_world (io_return x)" "same_world (io_lift y)" "same_world (io_fail e)" "same_world (io_query q)"
  by (simp_all add: same_world_def io_query_run)

lemma same_world_map_err: "same_world m \<Longrightarrow> same_world (io_map_err g m)"
  by (simp add: same_world_def io_map_err_def case_prod_beta)

lemma same_world_if: "same_world a \<Longrightarrow> same_world b \<Longrightarrow> same_world (if c then a else b)"
  by simp

lemma same_world_instance_get: "same_world (instance_get sv name)"
  unfolding instance_get_def load_instance_document_def Let_def fs_symlink_metadata_def fs_read_def
  by (intro same_world_bind same_world_if same_world_map_err same_world_basic)

lemma instance_get_quiet:
  assumes "w_faults w = []"
  shows "snd (instance_get sv name w) = w"
  using same_world_instance_get assms unfolding same_world_def by blast

lemma get_all_fails:
  assumes "w_faults w = []" "i \<in> set ids"
    and "instance_get sv (iid_str i) w = (Inl e, w)"
  shows "\<exists>e. get_all sv ids w = (Inl e, w)"
  using assms(2)
proof (induction ids)
  case (Cons j ids)
  obtain r where r: "instance_get sv (iid_str j) w = (r, w)"
    using instance_get_quiet [OF assms(1)] by (metis prod.collapse)
  show ?case
  proof (cases r)
    case (Inr x)
    with r assms(3) Cons.prems have "i \<in> set ids" by auto
    with Cons.IH obtain e' where "get_all sv ids w = (Inl e', w)" by auto
    with r Inr show ?thesis by (simp add: io_bind_def)
  qed (use r in \<open>simp add: io_bind_def\<close>)
qed simp

section \<open>The installation state\<close>

lemma ensure_runtime_valid:
  fixes root :: path
  defines "R \<equiv> root @ [''runtime'']" and "M \<equiv> root @ [''runtime'', ''install-state.json.tmp'']"
  assumes "root \<noteq> []"
  shows "io_valid (\<lambda>_. True) (\<lambda>t. t root = Some DirNode \<and> (\<forall>q. t M \<noteq> Some (SymlinkNode q))) (ensure_runtime R)
     (\<lambda>_ t. (t root = Some DirNode \<and> t R = Some DirNode) \<and> (\<forall>q. t M \<noteq> Some (SymlinkNode q))) (\<lambda>_. True)"
  unfolding ensure_runtime_def
proof (rule io_valid_bind)
  let ?P = "\<lambda>t :: tree. t root = Some DirNode \<and> (\<forall>q. t M \<noteq> Some (SymlinkNode q))"
  have R: "\<not> is_root R" using assms(3) by (auto simp: R_def is_root_def append_eq_Cons_conv)
  show "io_valid (\<lambda>_. True) ?P (find_node R) (\<lambda>x t. ?P t \<and> (\<not> is_root R \<longrightarrow> x = t R)) (\<lambda>_. True)"
    by (rule io_valid_conseq [OF find_node_valid [where P = ?P]]) auto
  show "io_valid (\<lambda>_. True) (\<lambda>t. ?P t \<and> (\<not> is_root R \<longrightarrow> x = t R))
     (case x of None \<Rightarrow> fs_create_dir R | Some n \<Rightarrow> if n = DirNode then io_return ()
        else io_fail (UnsafeFilesystemEntry R ''instance runtime must be a real directory''))
     (\<lambda>_ t. (t root = Some DirNode \<and> t R = Some DirNode) \<and> (\<forall>q. t M \<noteq> Some (SymlinkNode q))) (\<lambda>_. True)" for x
  proof (cases x)
    case None
    then show ?thesis by (auto intro!: io_valid_create_dir simp: R_def M_def)
  next
    case (Some n)
    show ?thesis
    proof (cases "n = DirNode")
      case True
      show ?thesis unfolding Some option.case True if_P [OF refl]
        by (rule io_valid_return) (use R in auto)
    next
      case False
      show ?thesis unfolding Some option.case if_not_P [OF False] by (rule io_valid_fail) simp
    qed
  qed
qed

lemma require_real_file_frame: "io_frame (require_real_file p reason)"
  unfolding require_real_file_def by (intro io_frame_bind io_frame_if) auto

text \<open>A recorded state is the one that is read, whatever was there before.\<close>

lemma write_install_state_sets:
  assumes "it_path i \<noteq> []"
    and bytes: "\<And>b. encode_json (iv_state sv)
      \<lparr>st_format_version = 1, st_status = status, st_version_id = version_id, st_error = err\<rparr> = Inr b \<Longrightarrow> b = bytes"
  shows "io_valid (\<lambda>_. True) (\<lambda>t. t (it_path i) = Some DirNode \<and>
       (\<forall>q. t (it_path i @ [''runtime'', ''install-state.json.tmp'']) \<noteq> Some (SymlinkNode q)))
     (write_install_state sv i status version_id err)
     (\<lambda>_ t. t (it_path i) = Some DirNode \<and> t (state_path (it_path i)) = Some (FileNode bytes)) (\<lambda>_. True)"
proof -
  define R where "R = it_path i @ [''runtime'']"
  let ?d = "R @ [''install-state.json'']" and ?m = "R @ [''install-state.json.tmp'']"
  let ?T = "\<lambda>_ :: tree. True"
  let ?K = "\<lambda>t :: tree. t (it_path i) = Some DirNode \<and> t R = Some DirNode"
  let ?S = "\<lambda>t. ?K t \<and> (\<forall>q. t ?m \<noteq> Some (SymlinkNode q))" and ?M = "\<lambda>t. ?K t \<and> t ?m = Some (FileNode bytes)"
  have m: "it_path i @ [''runtime'', ''install-state.json.tmp''] = ?m" by (simp add: R_def)
  have run: "io_valid ?T (\<lambda>t. t (it_path i) = Some DirNode \<and> (\<forall>q. t ?m \<noteq> Some (SymlinkNode q))) (ensure_runtime R) (\<lambda>_. ?S) ?T"
    using ensure_runtime_valid [OF assms(1)] by (simp only: R_def [symmetric] m)
  have ex: "io_valid ?T P (fs_try_exists p) (\<lambda>_. P) ?T" for P p
    by (rule io_valid_frame) auto
  have left: "io_valid ?T P (if b then require_real_file p r else io_return ()) (\<lambda>_. P) ?T" for P b p r
    by (rule io_valid_frame) (auto intro: require_real_file_frame)
  have lift: "io_valid ?T ?S (io_lift (json_bytes (iv_state sv)
      \<lparr>st_format_version = 1, st_status = status, st_version_id = version_id, st_error = err\<rparr>)) (\<lambda>x t. ?S t \<and> x = bytes) ?T"
    using bytes by (intro io_valid_lift) auto
  have wr: "io_valid ?T (\<lambda>t. ?S t \<and> x = bytes) (fs_write ?m x) (\<lambda>_. ?M) ?T" for x
  proof (rule io_valid_write)
    fix t q assume t: "?S t \<and> x = bytes" "write_target ?m t = Inr q"
    then have "q = ?m" using write_target_plain [of t ?m q] by blast
    with t show "?M (t(q \<mapsto> FileNode x))" by (auto simp: R_def)
  qed auto
  have rm: "io_valid ?T ?M (if b then io_bind (require_real_file ?d r) (\<lambda>_. fs_remove_file ?d) else io_return ()) (\<lambda>_. ?M) ?T" for b r
  proof (cases b)
    case True
    have "io_valid ?T ?M (fs_remove_file ?d) (\<lambda>_. ?M) ?T"
      unfolding fs_remove_file_def by (rule io_valid_step) (auto simp: R_def dest!: remove_file_tree_Inr)
    moreover have "io_valid ?T ?M (require_real_file ?d r) (\<lambda>_. ?M) ?T"
      by (rule io_valid_frame) (auto intro: require_real_file_frame)
    ultimately show ?thesis unfolding if_P [OF True] by (intro io_valid_bind)
  next
    case False
    show ?thesis unfolding if_not_P [OF False] by (rule io_valid_return) simp
  qed
  have ren: "io_valid ?T ?M (fs_rename ?m ?d)
      (\<lambda>_ t. t (it_path i) = Some DirNode \<and> t (state_path (it_path i)) = Some (FileNode bytes)) ?T"
    by (rule io_valid_rename_file) (auto simp: R_def state_path_def)
  show ?thesis
    unfolding write_install_state_def Let_def R_def [symmetric] m
    by (rule io_valid_bind [OF run io_valid_bind [OF ex io_valid_bind [OF left io_valid_bind [OF lift io_valid_bind [OF wr
      io_valid_bind [OF ex io_valid_bind [OF rm ren]]]]]]])
qed

section \<open>Properties\<close>

abbreviation new_document :: "InstanceSpec \<Rightarrow> InstanceDocument" where
  "new_document spec \<equiv> \<lparr>id_format_version = INSTANCE_FORMAT_VERSION, id_instance = spec\<rparr>"

text \<open>C30: creating an instance is atomic: whatever fails and wherever the process stops, what lies at the
  place of the instance is what was there before, or the place was free and has the complete instance,
  five directories and the document.  On success it is there; on an error nothing has changed.\<close>

theorem instance_create_atomic:
  assumes "instance_create sv spec w = (r, w')" "w_crash w = []"
    and "tree_wf (w_tree w)" "iv_root sv \<noteq> []" "iid_valid (iid_str (is_id spec))"
    and "encode_json (iv_document sv) (new_document spec) = Inr bytes"
  shows "(\<forall>t \<in> set (w_crash w'). untouched_or_created (instance_target sv (is_id spec)) bytes (w_tree w) t) \<and>
    (case r of
       Inr i \<Rightarrow> it_spec i = spec \<and> it_path i = instance_target sv (is_id spec) \<and>
                complete_at (it_path i) bytes (w_tree w') \<and> (\<forall>q. w_tree w (it_path i @ q) = None)
     | Inl e \<Rightarrow> unchanged_at (instance_target sv (is_id spec)) (w_tree w) (w_tree w'))"
proof -
  have b: "encode_json (iv_document sv) (new_document spec) = Inr x \<Longrightarrow> x = bytes" for x using assms(6) by simp
  from io_valid_run [OF instance_create_valid [OF assms(3,5,4) b] refl assms(2,1)] show ?thesis
    by (cases r) simp_all
qed

definition sample_instance_spec :: InstanceSpec where
  "sample_instance_spec = \<lparr>is_id = InstanceId ''one'', is_name = ''One'', is_minecraft = MinecraftConfig ''1.20.1'',
     is_java = java_instance_default, is_loader = None, is_mods = [], is_server = None,
     is_authentication = auth_policy_default, is_metadata = []\<rparr>"

definition sample_instance_codec :: "InstanceDocument codec" where
  "sample_instance_codec = \<lparr>decode_json = (\<lambda>_. Inr (new_document sample_instance_spec)), encode_json = (\<lambda>_. Inr ''d'')\<rparr>"

definition sample_state_codec :: "InstallStateDocument codec" where
  "sample_state_codec =
     \<lparr>decode_json = (\<lambda>_. Inr \<lparr>st_format_version = 1, st_status = Installed, st_version_id = ''1.20.1'', st_error = None\<rparr>),
      encode_json = (\<lambda>_. Inr ''s'')\<rparr>"

definition sample_service :: instance_service where
  "sample_service = \<lparr>iv_root = [''i''], iv_document = sample_instance_codec, iv_state = sample_state_codec,
     iv_nanos = Some 7, iv_entries = (\<lambda>_ _. [''one''])\<rparr>"

definition sample_store :: world where
  "sample_store = \<lparr>w_tree = [[''i''] \<mapsto> DirNode], w_faults = [], w_crash = [], w_locks = {}, w_events = [],
     w_net = [], w_sent = [], w_cancel = None\<rparr>"

lemma sample_instance_created: "is_ok (fst (instance_create sample_service sample_instance_spec sample_store))"
  by code_simp

lemma sample_store_wf: "tree_wf (w_tree sample_store)"
  by (auto simp: sample_store_def tree_wf_def is_dir_def is_root_def)

lemma sample_spec_valid: "iid_valid (iid_str (is_id sample_instance_spec))" "is_validate sample_instance_spec = Inr ()"
  by code_simp+

theorem instance_create_atomic_witness:
  "\<exists>w'. instance_create sample_service sample_instance_spec sample_store =
      (Inr \<lparr>it_spec = sample_instance_spec, it_path = [''i'', ''one'']\<rparr>, w') \<and>
     complete_at [''i'', ''one''] ''d'' (w_tree w')"
proof -
  obtain i w' where run: "instance_create sample_service sample_instance_spec sample_store = (Inr i, w')"
    using sample_instance_created by (auto simp: is_ok_iff prod_eq_iff)
  have e: "encode_json (iv_document sample_service) (new_document sample_instance_spec) = Inr ''d''"
    by (simp add: sample_service_def sample_instance_codec_def)
  have c: "w_crash sample_store = []" "iv_root sample_service \<noteq> []" by (simp_all add: sample_store_def sample_service_def)
  have "it_spec i = sample_instance_spec" "it_path i = instance_target sample_service (is_id sample_instance_spec)"
    "complete_at (it_path i) ''d'' (w_tree w')"
    using instance_create_atomic [OF run c(1) sample_store_wf c(2) sample_spec_valid(1) e] by auto
  moreover have "instance_target sample_service (is_id sample_instance_spec) = [''i'', ''one'']"
    by (simp add: instance_target_def sample_service_def sample_instance_spec_def)
  ultimately show ?thesis using run by (intro exI [of _ w']) (auto intro!: Instance.equality)
qed

text \<open>C31: an instance that was created is loaded as it was: on any later world with the same files, \<open>get\<close>
  returns the specification and the directory that \<open>create\<close> returned, when decoding inverts encoding.\<close>

theorem create_then_get:
  assumes "instance_create sv spec w = (Inr i, w')"
    and "tree_wf (w_tree w)" "iv_root sv \<noteq> []" "iid_valid (iid_str (is_id spec))"
    and "encode_json (iv_document sv) (new_document spec) = Inr bytes"
    and "decode_json (iv_document sv) bytes = Inr (new_document spec)"
    and "w_tree v = w_tree w'" "w_faults v = []"
  shows "instance_get sv (iid_str (is_id spec)) v = (Inr i, v) \<and> i = \<lparr>it_spec = spec, it_path = instance_target sv (is_id spec)\<rparr>"
proof -
  have b: "encode_json (iv_document sv) (new_document spec) = Inr x \<Longrightarrow> x = bytes" for x using assms(5) by simp
  let ?T = "instance_target sv (is_id spec)"
  from io_validD(2) [OF instance_create_valid [OF assms(2,4,3) b] refl assms(1)]
  have done': "complete_at ?T bytes (w_tree v)" "i = \<lparr>it_spec = spec, it_path = ?T\<rparr>" using assms(7) by auto
  have node: "w_tree v (?T @ [''instance.json'']) = Some (FileNode bytes)" "w_tree v ?T = Some DirNode"
    using done'(1) staged_root [of ?T instance_children "Some bytes" "w_tree v"]
    unfolding complete_at_def by (simp_all add: staged_def layout_def instance_children_def)
  have "is_validate spec = Inr ()"
    using assms(1) by (auto simp: instance_create_def io_bind_eq_Inr)
  moreover have "iid_new (iid_str (is_id spec)) = Inr (is_id spec)" using assms(4) by (simp add: iid_new_Inr_iff)
  ultimately show ?thesis using instance_get_run [OF assms(8) _ node(2,1) assms(6)] done'(2) by simp
qed

theorem create_then_get_witness:
  "\<exists>i w'. instance_create sample_service sample_instance_spec sample_store = (Inr i, w') \<and>
     instance_get sample_service ''one'' (sample_store\<lparr>w_tree := w_tree w'\<rparr>) = (Inr i, sample_store\<lparr>w_tree := w_tree w'\<rparr>)"
proof -
  obtain i w' where run: "instance_create sample_service sample_instance_spec sample_store = (Inr i, w')"
    using sample_instance_created by (auto simp: is_ok_iff prod_eq_iff)
  have e: "encode_json (iv_document sample_service) (new_document sample_instance_spec) = Inr ''d''"
    "decode_json (iv_document sample_service) ''d'' = Inr (new_document sample_instance_spec)"
    by (simp_all add: sample_service_def sample_instance_codec_def)
  have c: "iv_root sample_service \<noteq> []" by (simp add: sample_service_def)
  have "iid_str (is_id sample_instance_spec) = ''one''" by (simp add: sample_instance_spec_def)
  with create_then_get [OF run sample_store_wf c sample_spec_valid(1) e, of "sample_store\<lparr>w_tree := w_tree w'\<rparr>"]
  have "instance_get sample_service ''one'' (sample_store\<lparr>w_tree := w_tree w'\<rparr>) = (Inr i, sample_store\<lparr>w_tree := w_tree w'\<rparr>)"
    by (simp add: sample_store_def)
  with run show ?thesis by blast
qed

text \<open>C32: replacing a specification is not atomic: a successful run passes through a state in which the
  document is missing.  If the process stops there, the instance cannot be loaded, and neither can the
  list of all instances.\<close>

theorem replace_spec_crash_window:
  assumes "is_validate spec = Inr ()" "is_id spec = it_id i" "iid_valid (iid_str (it_id i))"
    and "iv_root sv \<noteq> []" "it_path i = instance_target sv (it_id i)"
    and "encode_json (iv_document sv) (new_document spec) = Inr new"
    and "w_faults w = []" "w_tree w (iv_root sv) = Some DirNode" "w_tree w (it_path i) = Some DirNode"
    and "w_tree w (it_path i @ [''instance.json'']) = Some (FileNode old)"
    and "w_tree w (it_path i @ [''instance.json.tmp'']) = None"
    and "\<forall>q \<in> set (ancestors (iv_root sv)). w_tree w q = Some DirNode"
    and "lists_directory (iv_entries sv) (iv_root sv) ((w_tree w)(it_path i @ [''instance.json.tmp''] \<mapsto> FileNode new,
           it_path i @ [''instance.json''] := None))"
  shows "\<exists>w'. replace_spec_unlocked sv i spec w = (Inr \<lparr>it_spec = spec, it_path = it_path i\<rparr>, w') \<and>
    (\<exists>t \<in> set (w_crash w'). \<forall>v. w_tree v = t \<longrightarrow> w_faults v = [] \<longrightarrow>
       instance_get sv (iid_str (it_id i)) v = (Inl (Error.Io IoNotFound), v) \<and> (\<exists>e v'. instance_list sv v = (Inl e, v')))"
proof -
  let ?d = "it_path i @ [''instance.json'']" and ?m = "it_path i @ [''instance.json.tmp'']"
  let ?t = "(w_tree w)(?m \<mapsto> FileNode new, ?d := None)"
  have p: "it_path i = iv_root sv @ [iid_str (it_id i)]" using assms(5) by (simp add: instance_target_def)
  have nd: "\<not> is_root ?d" using assms(4) p by (auto simp: is_root_def append_eq_Cons_conv)
  have ne: "?d \<noteq> ?m" "it_path i \<noteq> ?m" by simp_all
  have parents: "butlast ?m = it_path i" "butlast ?d = it_path i" by simp_all
  have dirs: "is_dir (w_tree w) (butlast ?m)" "is_dir (w_tree w) (butlast ?d)" "butlast ?d \<noteq> ?m"
    using assms(9) unfolding parents by (simp_all add: is_dir_def)
  have "\<not> is_dir (w_tree w) ?m" using nd assms(11) p by (auto simp: is_dir_def is_root_def append_eq_Cons_conv)
  moreover have "w_tree w ?m \<noteq> Some (SymlinkNode q)" for q using assms(11) by simp
  ultimately obtain w' where w': "write_remove_rename ?m ?d (Inr new) w = (Inr (), w')" "?t \<in> set (w_crash w')"
    using write_remove_rename_run [OF ne(1) assms(7,10) _ _ dirs nd, of new] by blast
  have run: "replace_spec_unlocked sv i spec w = (Inr \<lparr>it_spec = spec, it_path = it_path i\<rparr>, w')"
    using assms(1,2,6) w'(1) by (simp add: replace_spec_unlocked_def io_bind_def)
  have id: "iid_new (iid_str (it_id i)) = Inr (it_id i)" using assms(3) by (simp add: iid_new_Inr_iff)
  have "instance_get sv (iid_str (it_id i)) v = (Inl (Error.Io IoNotFound), v) \<and> (\<exists>e v'. instance_list sv v = (Inl e, v'))"
    if v: "w_tree v = ?t" "w_faults v = []" for v
  proof
    have lost: "instance_get sv (iid_str (it_id i)) u = (Inl (Error.Io IoNotFound), u)"
      if "w_tree u = ?t" "w_faults u = []" for u
      using instance_get_no_document [OF that(2) id] that(1) assms(5,9) by simp
    then show "instance_get sv (iid_str (it_id i)) v = (Inl (Error.Io IoNotFound), v)" using v .
    have dirs: "\<forall>q \<in> set (ancestors (iv_root sv)). w_tree v q = Some DirNode"
    proof
      fix q assume q: "q \<in> set (ancestors (iv_root sv))"
      then have "length q \<le> length (iv_root sv)" by (auto simp: ancestors_def)
      then have "q \<noteq> ?m" "q \<noteq> ?d" using p by auto
      with q assms(12) v(1) show "w_tree v q = Some DirNode" by simp
    qed
    let ?u = "set_tree (w_tree v) v"
    have mk: "fs_create_dir_all (iv_root sv) v = (Inr (), ?u)"
      using create_dir_all_existing [OF dirs] v(2) by (simp add: fs_create_dir_all_def io_step_run)
    have u: "w_tree ?u = ?t" "w_faults ?u = []" using v by (simp_all add: set_tree_def)
    have "?t (iv_root sv) = Some DirNode" using assms(8) p by simp
    then have ls: "fs_read_dir (iv_entries sv) (iv_root sv) ?u = (Inr (iv_entries sv (iv_root sv) ?t), ?u)"
      using u by (simp add: fs_read_dir_def io_query_run follow_plain is_dir_def)
    have "?t (iv_root sv @ [iid_str (it_id i)]) \<noteq> None" using assms(9) p by simp
    then have "iid_str (it_id i) \<in> set (iv_entries sv (iv_root sv) ?t)"
      using assms(13) by (simp add: lists_directory_def)
    then have "it_id i \<in> set (listed_ids (iv_entries sv (iv_root sv) ?t))" using assms(3) by (simp add: listed_ids_iff)
    from get_all_fails [OF u(2) this lost [OF u]] show "\<exists>e v'. instance_list sv v = (Inl e, v')"
      unfolding instance_list_def by (auto simp: io_bind_def mk ls)
  qed
  with run w'(2) show ?thesis by blast
qed

definition sample_listed :: world where
  "sample_listed = sample_store\<lparr>w_tree := [[''i''] \<mapsto> DirNode, [''i'', ''one''] \<mapsto> DirNode,
     [''i'', ''one'', ''instance.json''] \<mapsto> FileNode ''old'']\<rparr>"

theorem replace_spec_crash_window_witness:
  "\<exists>w'. replace_spec_unlocked sample_service \<lparr>it_spec = sample_instance_spec, it_path = [''i'', ''one'']\<rparr> sample_instance_spec
       sample_listed = (Inr \<lparr>it_spec = sample_instance_spec, it_path = [''i'', ''one'']\<rparr>, w') \<and>
    (\<exists>t \<in> set (w_crash w'). \<forall>v. w_tree v = t \<longrightarrow> w_faults v = [] \<longrightarrow> (\<exists>e v'. instance_list sample_service v = (Inl e, v')))"
proof -
  let ?i = "\<lparr>it_spec = sample_instance_spec, it_path = [''i'', ''one'']\<rparr>"
  have "lists_directory (iv_entries sample_service) (iv_root sample_service)
      ((w_tree sample_listed)(it_path ?i @ [''instance.json.tmp''] \<mapsto> FileNode ''d'', it_path ?i @ [''instance.json''] := None))"
    by (auto simp: lists_directory_def sample_service_def sample_listed_def)
  from replace_spec_crash_window [OF sample_spec_valid(2) _ _ _ _ _ _ _ _ _ _ _ this, of "''old''"] show ?thesis
    using sample_spec_valid(1)
    by (simp add: sample_service_def sample_listed_def sample_store_def sample_instance_codec_def instance_target_def
        sample_instance_spec_def ancestors_def) blast
qed

text \<open>\<open>list\<close> returns the instances in the order of their identifiers, one for every entry of the root
  whose name is an identifier, each with its own directory and a valid specification.\<close>

theorem instance_list_sorted:
  assumes "instance_list sv w = (Inr is, w')"
    and "\<forall>q. w_tree w' (iv_root sv) \<noteq> Some (SymlinkNode q)"
    and "lists_directory (iv_entries sv) (iv_root sv) (w_tree w')"
  shows "sorted (map it_id is) \<and> distinct (map it_id is) \<and>
    iid_str ` it_id ` set is = {n. iid_valid n \<and> w_tree w' (iv_root sv @ [n]) \<noteq> None} \<and>
    (\<forall>x \<in> set is. it_path x = instance_target sv (it_id x) \<and> is_validate (it_spec x) = Inr ())"
proof -
  from assms(1) obtain w1 names w2 where run: "fs_read_dir (iv_entries sv) (iv_root sv) w1 = (Inr names, w2)"
    "get_all sv (listed_ids names) w2 = (Inr is, w')"
    by (auto simp: instance_list_def io_bind_eq_Inr)
  have same: "w_tree w2 = w_tree w'" "w_tree w1 = w_tree w'"
    using io_frameD [OF io_frame_get_all run(2)] io_frameD [OF io_frame_read_dir run(1)] by simp_all
  obtain g w3 where n: "next_fault w1 = (g, w3)" by fastforce
  have "w_tree w3 = w_tree w'" using next_fault_simps(1) [OF n] same by simp
  moreover have "follow 40 (w_tree w') (iv_root sv) = Some (iv_root sv)" using assms(2) by (intro follow_plain) blast
  ultimately have names: "names = iv_entries sv (iv_root sv) (w_tree w')"
    using run(1) by (auto simp: fs_read_dir_def io_query_def n split: option.splits if_splits)
  have all: "map it_id is = listed_ids names"
    "\<forall>x \<in> set is. it_path x = instance_target sv (it_id x) \<and> is_validate (it_spec x) = Inr ()"
    using get_all_Inr [OF run(2)] by (auto simp: listed_ids_iff)
  have "it_id ` set is = {i. iid_valid (iid_str i) \<and> w_tree w' (iv_root sv @ [iid_str i]) \<noteq> None}"
    using all(1) assms(3) by (auto simp: set_map [symmetric] listed_ids_iff names lists_directory_def simp del: set_map)
  then have "iid_str ` it_id ` set is = {n. iid_valid n \<and> w_tree w' (iv_root sv @ [n]) \<noteq> None}"
    by (auto simp: image_iff) (metis InstanceId.sel)
  then show ?thesis
    using all listed_ids_sorted [of names] listed_ids_distinct [of names] assms(3) by (simp add: names lists_directory_def)
qed

lemma single_identifier:
  assumes "distinct ids" "iid_str ` set ids = {n}"
  shows "ids = [InstanceId n]"
proof -
  have "i = InstanceId n" if "i \<in> set ids" for i
    using assms(2) that by (cases i) (metis InstanceId.sel imageI singletonD)
  moreover from assms(2) obtain i js where "ids = i # js" by (cases ids) auto
  ultimately show ?thesis using assms(1) by (cases js) auto
qed

text \<open>A recorded installation state is the one that \<open>status\<close> reports afterwards, whatever was recorded
  before; the installed version is known exactly in the installed state.\<close>

theorem mark_then_status:
  assumes "write_install_state sv i status version_id err w = (Inr (), w')"
    and "iid_valid (iid_str (it_id i))" "iv_root sv \<noteq> []" "it_path i = instance_target sv (it_id i)"
    and "w_tree w (it_path i) = Some DirNode"
    and "\<forall>q. w_tree w (it_path i @ [''runtime'', ''install-state.json.tmp'']) \<noteq> Some (SymlinkNode q)"
    and "encode_json (iv_state sv) doc = Inr bytes" "decode_json (iv_state sv) bytes = Inr doc"
    and "doc = \<lparr>st_format_version = 1, st_status = status, st_version_id = version_id, st_error = err\<rparr>"
    and "w_tree v = w_tree w'" "w_faults v = []"
  shows "instance_status sv (iid_str (it_id i)) v = (Inr (shown_status status), v) \<and>
    installed_version sv i v = (Inr (if status = Installed then Some version_id else None), v)"
proof -
  let ?T = "instance_target sv (it_id i)"
  have ne: "it_path i \<noteq> []" using assms(4) by (simp add: instance_target_def)
  have b: "encode_json (iv_state sv) \<lparr>st_format_version = 1, st_status = status, st_version_id = version_id, st_error = err\<rparr> = Inr x
      \<Longrightarrow> x = bytes" for x using assms(7,9) by simp
  have "w_tree v (it_path i) = Some DirNode \<and> w_tree v (state_path (it_path i)) = Some (FileNode bytes)"
    using io_validD(2) [OF write_install_state_sets [OF ne b] _ assms(1) refl] assms(5,6,10) by simp
  then have v: "w_tree v ?T = Some DirNode" "w_tree v (state_path ?T) = Some (FileNode bytes)" using assms(4) by simp_all
  have roots: "\<not> is_root ?T" "\<not> is_root (state_path ?T)"
    using assms(3) by (auto simp: instance_target_def state_path_def is_root_def append_eq_Cons_conv)
  have id: "iid_new (iid_str (it_id i)) = Inr (it_id i)" using assms(2) by (simp add: iid_new_Inr_iff)
  have rd: "read_state sv (state_path ?T) v = (Inr doc, v)"
    using read_file_run [OF assms(11) v(2)] assms(8) by (simp add: read_state_def io_bind_def)
  have status: "instance_status sv (iid_str (it_id i)) v = (Inr (shown_status status), v)"
    using find_node_run [OF assms(11) roots(1)] find_node_run [OF assms(11) roots(2)] rd
    by (simp add: instance_status_def io_bind_def id v assms(9) is_file_node_def Let_def)
  moreover have "shown_status status = StatusInstalled \<longleftrightarrow> status = Installed" by (cases status) simp_all
  ultimately show ?thesis
    using rd assms(4,9) by (simp add: installed_version_def io_bind_def)
qed

text \<open>The check of the temporary state file follows links: a symbolic link to a file that does not
  exist passes it, and the state is written through the link, outside the instance.\<close>

theorem install_state_written_through_link:
  assumes "it_path i \<noteq> []" "w_faults w = []"
    and "w_tree w (it_path i @ [''runtime'']) = Some DirNode"
    and "w_tree w (it_path i @ [''runtime'', ''install-state.json.tmp'']) = Some (SymlinkNode q)"
    and "w_tree w q = None" "is_dir (w_tree w) (butlast q)" "\<not> is_root q" "q \<noteq> state_path (it_path i)"
    and "encode_json (iv_state sv)
      \<lparr>st_format_version = 1, st_status = status, st_version_id = version_id, st_error = err\<rparr> = Inr bytes"
    and "write_install_state sv i status version_id err w = (r, w')"
  shows "w_tree w' q = Some (FileNode bytes)"
proof -
  define R where "R = it_path i @ [''runtime'']"
  let ?d = "R @ [''install-state.json'']" and ?m = "R @ [''install-state.json.tmp'']"
  let ?I = "\<lambda>t :: tree. t q = Some (FileNode bytes)"
  define w1 where "w1 = snd (fs_write ?m bytes w)"
  have R: "w_tree w R = Some DirNode" "\<not> is_root R" "w_tree w ?m = Some (SymlinkNode q)" "q \<noteq> ?d"
    using assms(1,3,4,8) by (auto simp: R_def is_root_def append_eq_Cons_conv state_path_def)
  have fol: "follow 40 (w_tree w) ?m = Some q" using R(3) assms(5) by (simp add: numeral_eq_Suc)
  have rt: "ensure_runtime R w = (Inr (), w)"
    using find_node_run [OF assms(2) R(2)] R(1) by (simp add: ensure_runtime_def io_bind_def)
  have ex: "fs_try_exists ?m w = (Inr False, w)"
    by (simp add: fs_try_exists_def io_query_run [OF assms(2)] fol assms(5))
  have wr: "fs_write ?m bytes w = (Inr (), w1)" and I: "?I (w_tree w1)"
    unfolding w1_def using fol assms(2,5,6,7)
    by (simp_all add: fs_write_def next_fault_def write_target_def is_dir_def set_tree_def Let_def)
  let ?rest = "io_bind (fs_try_exists ?d) (\<lambda>present.
      io_bind (if present
               then io_bind (require_real_file ?d ''installation state must be a real file'') (\<lambda>_. fs_remove_file ?d)
               else io_return ()) (\<lambda>_. fs_rename ?m ?d))"
  have run: "?rest w1 = (r, w')"
    using assms(10) rt ex wr by (simp add: write_install_state_def Let_def R_def [symmetric] io_bind_def assms(9))
  let ?T = "\<lambda>_ :: tree. True" and ?L = "\<lambda>t :: tree. ?I t \<and> t ?m = Some (SymlinkNode q)"
  have rm: "io_valid ?T ?L (fs_remove_file ?d) (\<lambda>_. ?L) ?I"
    unfolding fs_remove_file_def by (rule io_valid_step) (use R(4) in \<open>auto dest!: remove_file_tree_Inr\<close>)
  have rq: "io_valid ?T ?L (require_real_file ?d s) (\<lambda>_. ?L) ?I" for s
    by (rule io_valid_frame) (auto intro: require_real_file_frame)
  have old: "io_valid ?T ?L (if b then io_bind (require_real_file ?d s) (\<lambda>_. fs_remove_file ?d) else io_return ()) (\<lambda>_. ?L) ?I" for b s
  proof (cases b)
    case True
    from io_valid_bind [OF rq rm] show ?thesis unfolding if_P [OF True] .
  next
    case False
    show ?thesis unfolding if_not_P [OF False] by (rule io_valid_return) simp
  qed
  have ren: "io_valid ?T ?L (fs_rename ?m ?d) (\<lambda>_. ?I) ?I"
    unfolding fs_rename_def by (rule io_valid_step) (use R(4) in \<open>auto simp: rename_tree_def split: if_splits\<close>)
  have ex': "io_valid ?T ?L (fs_try_exists ?d) (\<lambda>_. ?L) ?I" by (rule io_valid_frame) auto
  have "?L (w_tree w1)" unfolding w1_def using fol R(3) assms(2,5,6,7)
    by (auto simp: fs_write_def next_fault_def write_target_def is_dir_def set_tree_def Let_def)
  from io_validD(2,3) [OF io_valid_bind [OF ex' io_valid_bind [OF old ren]] this run] show ?thesis
    by (cases r) auto
qed

end
