(* ===== verification/DirectoryScan.thy ===== *)
theory DirectoryScan
  imports InstanceStore
begin

text \<open>
  The walk over a directory that four functions of \<^verbatim>\<open>cache/mod.rs\<close> share (\<open>scan_status\<close>,
  \<open>find_temporary_files\<close>, \<open>find_unindexed_files\<close>, \<open>find_unindexed_instance_natives\<close>): a stack of
  pending directories, symbolic links skipped, the regular files visited.  Each function is a fold over
  the files in the order of the walk.

  The loop runs with fuel for the directories it opens.  The main result is that fuel for the number of
  directories suffices, and that every regular file below the root is then visited once.
\<close>

section \<open>The walk\<close>

fun visit_entries :: "path \<Rightarrow> string list \<Rightarrow> path list \<Rightarrow> (path \<times> nat) list \<Rightarrow> (path list \<times> (path \<times> nat) list) io" where
  "visit_entries directory [] pending found = io_return (pending, found)"
| "visit_entries directory (n # names) pending found =
     io_bind (fs_symlink_metadata (directory @ [n])) (\<lambda>node.
     case node of
       SymlinkNode _ \<Rightarrow> visit_entries directory names pending found
     | DirNode \<Rightarrow> visit_entries directory names ((directory @ [n]) # pending) found
     | FileNode c \<Rightarrow> visit_entries directory names pending (found @ [(directory @ [n], length c)]))"

fun scan_directories :: "entry_order \<Rightarrow> nat \<Rightarrow> path list \<Rightarrow> (path \<times> nat) list \<Rightarrow> (path \<times> nat) list io" where
  "scan_directories entries fuel [] found = io_return found"
| "scan_directories entries 0 (d # pending) found = io_fail (Panic ''directory walk out of fuel'')"
| "scan_directories entries (Suc fuel) (d # pending) found =
     io_bind (fs_read_dir entries d) (\<lambda>names.
     io_bind (visit_entries d names pending found) (\<lambda>(pending', found').
     scan_directories entries fuel pending' found'))"

text \<open>\<open>Path::exists\<close> answers false on an error.\<close>

definition path_exists :: "path \<Rightarrow> bool io" where
  "path_exists p = io_catch (fs_try_exists p) (\<lambda>_. io_return False)"

definition scan_below :: "entry_order \<Rightarrow> nat \<Rightarrow> path \<Rightarrow> (path \<times> nat) list io" where
  "scan_below entries fuel root =
     io_bind (path_exists root) (\<lambda>present.
     if present then scan_directories entries fuel [root] [] else io_return [])"

text \<open>The relative path of an entry, with slashes.\<close>

definition relative_text :: "path \<Rightarrow> path \<Rightarrow> string" where
  "relative_text root p = map (\<lambda>c. if c = CHR 0x5C then CHR ''/'' else c) (join_with CHR ''/'' (drop (length root) p))"

section \<open>The walk reads every file once\<close>

definition dirs_below :: "tree \<Rightarrow> path \<Rightarrow> path set" where
  "dirs_below t p = {q. t (p @ q) = Some DirNode}"

definition files_below :: "tree \<Rightarrow> path \<Rightarrow> (path \<times> nat) set" where
  "files_below t p = {(p @ q, length c) | q c. q \<noteq> [] \<and> t (p @ q) = Some (FileNode c)}"

definition incomparable :: "path \<Rightarrow> path \<Rightarrow> bool" where
  "incomparable p q \<longleftrightarrow> (\<forall>r. p \<noteq> q @ r \<and> q \<noteq> p @ r)"

definition file_here :: "tree \<Rightarrow> path \<Rightarrow> (path \<times> nat) list" where
  "file_here t p = (case t p of Some (FileNode c) \<Rightarrow> [(p, length c)] | _ \<Rightarrow> [])"

lemma set_file_here: "x \<in> set (file_here t p) \<longleftrightarrow> (\<exists>c. t p = Some (FileNode c) \<and> x = (p, length c))"
  by (cases "t p"; cases "the (t p)") (auto simp: file_here_def)

definition kids :: "tree \<Rightarrow> path \<Rightarrow> string list \<Rightarrow> path list" where
  "kids t d names = [d @ [n]. n \<leftarrow> names, t (d @ [n]) = Some DirNode]"

definition files_in :: "tree \<Rightarrow> path \<Rightarrow> string list \<Rightarrow> (path \<times> nat) list" where
  "files_in t d names = concat [file_here t (d @ [n]). n \<leftarrow> names]"

lemma visit_entries_run:
  assumes "w_faults w = []" "\<And>n. n \<in> set names \<Longrightarrow> w_tree w (d @ [n]) \<noteq> None"
  shows "visit_entries d names pending found w =
    (Inr (rev (kids (w_tree w) d names) @ pending, found @ files_in (w_tree w) d names), w)"
  using assms(2)
proof (induction names arbitrary: pending found)
  case (Cons n names)
  obtain node where node: "w_tree w (d @ [n]) = Some node" using Cons.prems by fastforce
  note run = symlink_metadata_run(1) [OF assms(1) node]
  have IH: "visit_entries d names p f w = (Inr (rev (kids (w_tree w) d names) @ p, f @ files_in (w_tree w) d names), w)" for p f
    by (rule Cons.IH) (use Cons.prems in simp)
  show ?case
    by (cases node) (simp_all add: io_bind_def run node IH file_here_def kids_def files_in_def)
qed (simp add: kids_def files_in_def)

lemma tree_wf_parent:
  "tree_wf t \<Longrightarrow> \<not> is_root p \<Longrightarrow> r \<noteq> [] \<Longrightarrow> t (p @ r) \<noteq> None \<Longrightarrow> t p = Some DirNode"
proof (induction r rule: rev_induct)
  case (snoc x r)
  have "is_dir t (butlast (p @ r @ [x]))" using snoc.prems(1,4) unfolding tree_wf_def by (metis append_is_Nil_conv list.discI)
  then have d: "is_dir t (p @ r)" by (simp add: butlast_append)
  show ?case
  proof (cases "r = []")
    case True
    with d snoc.prems(2) show ?thesis by (simp add: is_dir_def)
  next
    case False
    have "\<not> is_root (p @ r)" using snoc.prems(2) by (cases p; cases r) (auto simp: is_root_def)
    with d have "t (p @ r) = Some DirNode" by (simp add: is_dir_def)
    with snoc.IH [OF snoc.prems(1,2) False] show ?thesis by simp
  qed
qed simp

abbreviation subdirs :: "tree \<Rightarrow> path \<Rightarrow> string set" where
  "subdirs t d \<equiv> {n. t (d @ [n]) = Some DirNode}"

lemma child_not_root: "\<not> is_root d \<Longrightarrow> \<not> is_root (d @ [n])"
  by (cases d) (auto simp: is_root_def)

lemma dirs_below_step:
  assumes "tree_wf t" "\<not> is_root d" "t d = Some DirNode"
  shows "dirs_below t d = insert [] (\<Union>n \<in> subdirs t d. (#) n ` dirs_below t (d @ [n]))"
proof (rule set_eqI)
  fix q
  show "q \<in> dirs_below t d \<longleftrightarrow> q \<in> insert [] (\<Union>n \<in> subdirs t d. (#) n ` dirs_below t (d @ [n]))"
  proof (cases q)
    case Nil
    with assms(3) show ?thesis by (simp add: dirs_below_def)
  next
    case (Cons n r)
    have "t (d @ [n]) = Some DirNode" if "t ((d @ [n]) @ r) = Some DirNode"
      using tree_wf_parent [OF assms(1) child_not_root [OF assms(2)], of r n] that by (cases "r = []") auto
    with Cons show ?thesis by (auto simp: dirs_below_def image_iff)
  qed
qed

lemma finite_dirs_below: "finite (dom t) \<Longrightarrow> finite (dirs_below t p)"
  by (rule finite_imageD [of "(@) p"]) (auto simp: dirs_below_def inj_on_def intro: finite_subset [of _ "dom t"])

lemma finite_subdirs: "finite (dom t) \<Longrightarrow> finite (subdirs t d)"
  by (rule finite_imageD [of "\<lambda>n. d @ [n]"]) (auto simp: inj_on_def intro: finite_subset [of _ "dom t"])

lemma card_dirs_below:
  assumes "tree_wf t" "finite (dom t)" "\<not> is_root d" "t d = Some DirNode"
  shows "card (dirs_below t d) = Suc (\<Sum>n \<in> subdirs t d. card (dirs_below t (d @ [n])))"
proof -
  let ?U = "\<Union>n \<in> subdirs t d. (#) n ` dirs_below t (d @ [n])"
  have "card ?U = (\<Sum>n \<in> subdirs t d. card ((#) n ` dirs_below t (d @ [n])))"
    using finite_subdirs [OF assms(2)] finite_dirs_below [OF assms(2)] by (intro card_UN_disjoint) auto
  also have "\<dots> = (\<Sum>n \<in> subdirs t d. card (dirs_below t (d @ [n])))"
    by (intro sum.cong refl card_image) simp
  moreover have "finite ?U" using finite_subdirs [OF assms(2)] finite_dirs_below [OF assms(2)] by auto
  moreover have "[] \<notin> ?U" by auto
  ultimately show ?thesis by (simp add: dirs_below_step [OF assms(1,3,4)])
qed

lemma files_below_step:
  assumes "tree_wf t" "\<not> is_root d"
  shows "files_below t d = {(d @ [n], length c) | n c. t (d @ [n]) = Some (FileNode c)} \<union>
    (\<Union>n \<in> subdirs t d. files_below t (d @ [n]))" (is "?L = ?R")
proof
  show "?L \<subseteq> ?R"
  proof
    fix x assume "x \<in> ?L"
    then obtain q c where x: "x = (d @ q, length c)" "q \<noteq> []" "t (d @ q) = Some (FileNode c)"
      by (auto simp: files_below_def)
    then obtain n r where q: "q = n # r" by (cases q) auto
    show "x \<in> ?R"
    proof (cases "r = []")
      case True
      with x q show ?thesis by blast
    next
      case False
      then have "t (d @ [n]) = Some DirNode"
        using tree_wf_parent [OF assms(1) child_not_root [OF assms(2)], of r n] x(3) q by simp
      moreover have "x \<in> files_below t (d @ [n])"
        unfolding files_below_def using x q False by (intro CollectI exI [of _ r] exI [of _ c]) simp
      ultimately show ?thesis by blast
    qed
  qed
  show "?R \<subseteq> ?L" by (force simp: files_below_def)
qed

text \<open>The stack holds directories none of which lies below another.\<close>

definition stack_ok :: "tree \<Rightarrow> path list \<Rightarrow> bool" where
  "stack_ok t pending \<longleftrightarrow> distinct pending \<and> (\<forall>p \<in> set pending. t p = Some DirNode \<and> \<not> is_root p) \<and>
     (\<forall>p \<in> set pending. \<forall>q \<in> set pending. p \<noteq> q \<longrightarrow> incomparable p q)"

lemma set_kids: "lists_directory entries d t \<Longrightarrow> set (kids t d (entries d t)) = (\<lambda>n. d @ [n]) ` subdirs t d"
  by (auto simp: lists_directory_def kids_def)

lemma distinct_kids: "distinct names \<Longrightarrow> distinct (kids t d names)"
  unfolding kids_def by (induction names) auto

lemma set_files_in:
  assumes "lists_directory entries d t"
  shows "set (files_in t d (entries d t)) = {(d @ [n], length c) | n c. t (d @ [n]) = Some (FileNode c)}"
proof -
  have names: "set (entries d t) = {n. t (d @ [n]) \<noteq> None}" using assms by (simp add: lists_directory_def)
  have "x \<in> set (files_in t d (entries d t)) \<longleftrightarrow> (\<exists>n c. x = (d @ [n], length c) \<and> t (d @ [n]) = Some (FileNode c))" for x
  proof -
    have "x \<in> set (files_in t d (entries d t)) \<longleftrightarrow> (\<exists>n. t (d @ [n]) \<noteq> None \<and> x \<in> set (file_here t (d @ [n])))"
      by (simp add: names files_in_def)
    then show ?thesis unfolding set_file_here by auto
  qed
  then show ?thesis by blast
qed

lemma distinct_files_in: "distinct names \<Longrightarrow> distinct (map fst (files_in t d names))"
  unfolding files_in_def by (induction names) (auto simp: file_here_def split: option.splits node.splits)

lemma incomparable_child:
  assumes "incomparable d q"
  shows "incomparable (d @ [n]) q"
  unfolding incomparable_def
proof (intro allI conjI)
  fix r
  show "d @ [n] \<noteq> q @ r"
  proof
    assume "d @ [n] = q @ r"
    then obtain s where "d = q @ s \<or> q = d @ [n]" by (cases r rule: rev_cases) auto
    with assms show False unfolding incomparable_def by auto
  qed
  show "q \<noteq> (d @ [n]) @ r" using assms unfolding incomparable_def by simp
qed

lemma incomparable_sym: "incomparable p q \<Longrightarrow> incomparable q p"
  by (auto simp: incomparable_def)

lemma stack_ok_push:
  assumes "stack_ok t (d # pending)" "lists_directory entries d t"
  shows "stack_ok t (rev (kids t d (entries d t)) @ pending)"
proof -
  have K: "set (kids t d (entries d t)) = (\<lambda>n. d @ [n]) ` subdirs t d" by (rule set_kids [OF assms(2)])
  have far: "incomparable (d @ [n]) p" if "p \<in> set pending" for n p
    using assms(1) that by (intro incomparable_child) (auto simp: stack_ok_def)
  have notin: "d @ [n] \<notin> set pending" for n
    using far [of "d @ [n]" n] by (auto simp: incomparable_def)
  have sib: "n \<noteq> m \<Longrightarrow> incomparable (d @ [n]) (d @ [m])" for n m by (auto simp: incomparable_def)
  have "distinct (rev (kids t d (entries d t)) @ pending)"
    using assms distinct_kids [of "entries d t" t d] notin K by (auto simp: stack_ok_def lists_directory_def)
  moreover have "\<forall>p \<in> set (kids t d (entries d t)) \<union> set pending. t p = Some DirNode \<and> \<not> is_root p"
    using assms(1) unfolding K by (auto simp: stack_ok_def child_not_root)
  moreover have "incomparable p q"
    if "p \<in> set (kids t d (entries d t)) \<union> set pending" "q \<in> set (kids t d (entries d t)) \<union> set pending" "p \<noteq> q" for p q
  proof -
    have "p \<in> set pending \<or> (\<exists>n. p = d @ [n])" "q \<in> set pending \<or> (\<exists>n. q = d @ [n])"
      using that(1,2) unfolding K by auto
    moreover have "p \<in> set pending \<Longrightarrow> q \<in> set pending \<Longrightarrow> incomparable p q"
      using assms(1) that(3) by (simp add: stack_ok_def)
    ultimately show ?thesis using far sib that(3) incomparable_sym by metis
  qed
  ultimately show ?thesis unfolding stack_ok_def set_append set_rev by blast
qed

lemma weight_push:
  assumes "tree_wf t" "finite (dom t)" "stack_ok t (d # pending)" "lists_directory entries d t"
  shows "Suc (sum_list (map (\<lambda>p. card (dirs_below t p)) (rev (kids t d (entries d t)) @ pending))) =
    sum_list (map (\<lambda>p. card (dirs_below t p)) (d # pending))"
proof -
  have "sum_list (map (\<lambda>p. card (dirs_below t p)) (kids t d (entries d t))) =
      (\<Sum>p \<in> set (kids t d (entries d t)). card (dirs_below t p))"
    using assms(4) by (intro sum_list_distinct_conv_sum_set distinct_kids) (simp add: lists_directory_def)
  also have "\<dots> = (\<Sum>n \<in> subdirs t d. card (dirs_below t (d @ [n])))"
    unfolding set_kids [OF assms(4)] by (subst sum.reindex) (auto simp: inj_on_def)
  finally show ?thesis
    using card_dirs_below [OF assms(1,2), of d] assms(3) by (simp add: stack_ok_def rev_map [symmetric])
qed

lemma scan_directories_run:
  assumes w: "w_faults w = []" and t: "tree_wf (w_tree w)" "finite (dom (w_tree w))"
    and ls: "\<And>p. w_tree w p = Some DirNode \<Longrightarrow> lists_directory entries p (w_tree w)"
    and "stack_ok (w_tree w) pending" "sum_list (map (\<lambda>p. card (dirs_below (w_tree w) p)) pending) \<le> fuel"
  shows "\<exists>new. scan_directories entries fuel pending found w = (Inr (found @ new), w) \<and> distinct (map fst new) \<and>
    set new = (\<Union>p \<in> set pending. files_below (w_tree w) p)"
  using assms(5,6)
proof (induction fuel arbitrary: pending found)
  case 0
  have "pending = []"
  proof (cases pending)
    case (Cons d ds)
    with 0 card_dirs_below [OF t, of d] show ?thesis by (simp add: stack_ok_def)
  qed
  then show ?case by simp
next
  case (Suc fuel)
  show ?case
  proof (cases pending)
    case (Cons d ds)
    let ?t = "w_tree w" and ?names = "entries d (w_tree w)"
    have d: "?t d = Some DirNode" "\<not> is_root d" "stack_ok ?t (d # ds)" using Suc.prems(1) Cons by (auto simp: stack_ok_def)
    note ld = ls [OF d(1)]
    have rd: "fs_read_dir entries d w = (Inr ?names, w)"
      using d(1) w by (simp add: fs_read_dir_def io_query_run follow_plain is_dir_def)
    have "\<And>n. n \<in> set ?names \<Longrightarrow> ?t (d @ [n]) \<noteq> None" using ld by (auto simp: lists_directory_def)
    note visit = visit_entries_run [OF w this]
    have "Suc (sum_list (map (\<lambda>p. card (dirs_below ?t p)) (rev (kids ?t d ?names) @ ds))) \<le> Suc fuel"
      using weight_push [OF t d(3) ld] Suc.prems(2) Cons by simp
    then obtain new where new: "scan_directories entries fuel (rev (kids ?t d ?names) @ ds) (found @ files_in ?t d ?names) w =
        (Inr ((found @ files_in ?t d ?names) @ new), w)" "distinct (map fst new)"
      "set new = (\<Union>p \<in> set (rev (kids ?t d ?names) @ ds). files_below ?t p)"
      using Suc.IH [OF stack_ok_push [OF d(3) ld], of "found @ files_in ?t d ?names"] by auto
    have "scan_directories entries (Suc fuel) pending found w = (Inr (found @ files_in ?t d ?names @ new), w)"
      using rd visit new(1) by (simp add: Cons io_bind_def)
    moreover have "set (files_in ?t d ?names @ new) = (\<Union>p \<in> set pending. files_below ?t p)"
      unfolding set_append new(3) set_files_in [OF ld] Cons
      using files_below_step [OF t(1) d(2)] set_kids [OF ld] by auto
    moreover have "distinct (map fst (files_in ?t d ?names @ new))"
    proof -
      have apart: "d @ [n] \<noteq> p @ q" if q: "p \<in> set (kids ?t d ?names) \<union> set ds" "q \<noteq> []" for n p q
      proof
        assume eq: "d @ [n] = p @ q"
        show False
        proof (cases "p \<in> set (kids ?t d ?names)")
          case True
          with eq q(2) show False by (auto simp: set_kids [OF ld])
        next
          case False
          with q(1) d(3) have "incomparable d p" by (auto simp: stack_ok_def)
          moreover obtain r where "d = p @ r" using eq q(2) by (cases q rule: rev_cases) auto
          ultimately show False unfolding incomparable_def by blast
        qed
      qed
      have "fst ` set (files_in ?t d ?names) \<inter> fst ` set new = {}"
      proof -
        have here: "\<exists>n. x = d @ [n]" if "x \<in> fst ` set (files_in ?t d ?names)" for x
          using that unfolding set_files_in [OF ld] by auto
        have deeper: "\<exists>p q. x = p @ q \<and> q \<noteq> [] \<and> p \<in> set (kids ?t d ?names) \<union> set ds" if "x \<in> fst ` set new" for x
        proof -
          from that obtain y where y: "y \<in> set new" "x = fst y" by blast
          from y(1) obtain p where p: "p \<in> set (kids ?t d ?names) \<union> set ds" "y \<in> files_below ?t p"
            unfolding new(3) set_append set_rev by blast
          from p(2) obtain q c where "q \<noteq> []" "y = (p @ q, c)" unfolding files_below_def by blast
          with y(2) have "x = p @ q" by simp
          with \<open>q \<noteq> []\<close> p(1) show ?thesis by blast
        qed
        have False if x: "x \<in> fst ` set (files_in ?t d ?names)" "x \<in> fst ` set new" for x
        proof -
          from here [OF x(1)] obtain n where n: "x = d @ [n]" ..
          from deeper [OF x(2)] obtain p q where q: "x = p @ q" "q \<noteq> []" "p \<in> set (kids ?t d ?names) \<union> set ds" by (elim exE conjE)
          from apart [OF q(3,2)] n q(1) show False by blast
        qed
        then show ?thesis by (intro Int_emptyI)
      qed
      moreover have "distinct (map fst (files_in ?t d ?names))"
        using ld by (intro distinct_files_in) (simp add: lists_directory_def)
      ultimately show ?thesis using new(2) by simp
    qed
    ultimately show ?thesis by blast
  qed simp
qed

text \<open>The walk as a whole.\<close>

lemma scan_below_run:
  assumes "w_faults w = []" "tree_wf (w_tree w)" "finite (dom (w_tree w))"
    and "\<And>p. w_tree w p = Some DirNode \<Longrightarrow> lists_directory entries p (w_tree w)"
    and "w_tree w root = Some DirNode" "\<not> is_root root" "card (dirs_below (w_tree w) root) \<le> fuel"
  shows "\<exists>files. scan_below entries fuel root w = (Inr files, w) \<and> distinct (map fst files) \<and>
    set files = files_below (w_tree w) root"
proof -
  have "stack_ok (w_tree w) [root]" using assms(5,6) by (simp add: stack_ok_def)
  from scan_directories_run [OF assms(1-4) this, of fuel "[]"] assms(7) obtain new where
    "scan_directories entries fuel [root] [] w = (Inr new, w)" "distinct (map fst new)" "set new = files_below (w_tree w) root"
    by auto
  moreover have "path_exists root w = (Inr True, w)"
    using assms(1,5) by (simp add: path_exists_def io_catch_def fs_try_exists_def io_query_run follow_plain)
  ultimately show ?thesis by (simp add: scan_below_def io_bind_def)
qed

lemma scan_below_missing:
  assumes "w_faults w = []" "w_tree w root = None"
  shows "scan_below entries fuel root w = (Inr [], w)"
  using assms
  by (simp add: scan_below_def path_exists_def io_catch_def fs_try_exists_def io_query_run follow_plain io_bind_def)

lemma io_frame_visit_entries: "io_frame (visit_entries d names pending found)"
proof (induction names arbitrary: pending found)
  case Nil
  show ?case unfolding visit_entries.simps by (rule io_frame_basic)
next
  case (Cons n names)
  show ?case unfolding visit_entries.simps
    by (rule io_frame_bind [OF io_frame_reads(3)]) (use Cons.IH in \<open>auto split: node.split\<close>)
qed

lemma io_frame_scan_directories: "io_frame (scan_directories entries fuel pending found)"
proof (induction entries fuel pending found rule: scan_directories.induct)
  case (3 entries fuel d pending found)
  show ?case unfolding scan_directories.simps
    by (rule io_frame_bind [OF io_frame_read_dir], rule io_frame_bind [OF io_frame_visit_entries])
      (use 3 in \<open>auto split: prod.split\<close>)
qed (unfold scan_directories.simps, (rule io_frame_basic)+)

lemma io_frame_scan_below: "io_frame (scan_below entries fuel root)"
  unfolding scan_below_def path_exists_def
  by (intro io_frame_bind io_frame_catch io_frame_if io_frame_scan_directories io_frame_reads io_frame_basic)

end
