(* ===== verification/Cache.thy ===== *)
theory Cache
  imports DirectoryScan Download
begin

text \<open>
  The shared cache (\<^verbatim>\<open>cache/mod.rs\<close>): the index of managed files that every instance keeps, the index of the
  cache, verification of both, disk usage, and pruning.

  Parameters are the serialisers, the digests, the modification times and the sizes the system reports
  for entries that are not regular files, the clock and the process id.  The files of a stream that
  the code verifies concurrently are verified in order here.
\<close>

section \<open>Data\<close>

definition CACHE_INDEX_VERSION :: u32 where "CACHE_INDEX_VERSION = 1"

definition MANAGED_INDEX_VERSION :: u32 where "MANAGED_INDEX_VERSION = 1"

datatype ManagedFileOrigin =
    OriginMinecraft
  | OriginLoader
  | OriginProvider
  | OriginComponent string
  | UserOptional

datatype ManagedFileLocation = InCache | InInstance

datatype ManagedFileKind =
    KindVersionMetadata
  | KindClient
  | KindLibrary
  | KindAssetIndex
  | KindAsset
  | KindNativeArchive
  | KindExtractedNative
  | KindLogging
  | KindOther

record ManagedFile =
  mf_id :: string
  mf_location :: ManagedFileLocation
  mf_path :: SafeRelativePath
  mf_kind :: ManagedFileKind
  mf_origin :: ManagedFileOrigin
  mf_expected_size :: "u64 option"
  mf_expected_hash :: "FileHash option"
  mf_source :: "Url option"
  mf_source_path :: "path option"
  mf_repair_from :: "SafeRelativePath option"
  mf_verified_size :: u64
  mf_verified_modified :: "nat option"

record ManagedExtraction =
  me_archive :: SafeRelativePath
  me_exclusions :: "string list"

record ManagedFileIndex =
  mx_format_version :: u32
  mx_instance_id :: string
  mx_version_id :: string
  mx_files :: "ManagedFile list"
  mx_native_archives :: "ManagedExtraction list"

definition mx_new :: "string \<Rightarrow> string \<Rightarrow> ManagedFile list \<Rightarrow> ManagedFileIndex" where
  "mx_new instance_id version_id managed =
     \<lparr>mx_format_version = MANAGED_INDEX_VERSION, mx_instance_id = instance_id, mx_version_id = version_id,
      mx_files = managed, mx_native_archives = []\<rparr>"

datatype FileState = Valid | Missing | Corrupted | Unexpected

record FileCheck =
  fk_id :: string
  fk_path :: string
  fk_location :: ManagedFileLocation
  fk_kind :: ManagedFileKind
  fk_state :: FileState
  fk_expected_size :: "u64 option"
  fk_actual_size :: "u64 option"

record VerificationMetrics =
  vm_files_checked :: u64
  vm_bytes_checked :: u64
  vm_duration_millis :: u64

record VerificationReport =
  vr_subject :: string
  vr_checks :: "FileCheck list"
  vr_valid :: u64
  vr_missing :: u64
  vr_corrupted :: u64
  vr_unexpected :: u64
  vr_metrics :: VerificationMetrics

definition is_healthy :: "VerificationReport \<Rightarrow> bool" where
  "is_healthy r \<longleftrightarrow> vr_missing r = 0 \<and> vr_corrupted r = 0 \<and> vr_unexpected r = 0"

record CacheCategoryStats =
  cs_files :: u64
  cs_bytes :: u64

definition no_stats :: CacheCategoryStats where
  "no_stats = \<lparr>cs_files = 0, cs_bytes = 0\<rparr>"

record CacheStatus =
  cu_versions :: CacheCategoryStats
  cu_libraries :: CacheCategoryStats
  cu_assets :: CacheCategoryStats
  cu_metadata :: CacheCategoryStats
  cu_temporary :: CacheCategoryStats
  cu_other :: CacheCategoryStats
  cu_total_files :: u64
  cu_total_bytes :: u64

definition no_usage :: CacheStatus where
  "no_usage = \<lparr>cu_versions = no_stats, cu_libraries = no_stats, cu_assets = no_stats, cu_metadata = no_stats,
     cu_temporary = no_stats, cu_other = no_stats, cu_total_files = 0, cu_total_bytes = 0\<rparr>"

text \<open>Durations are in nanoseconds.\<close>

record CachePolicy =
  cy_max_size :: "u64 option"
  cy_max_age :: "nat option"

record CachePruneEntry =
  ce_path :: string
  ce_bytes :: u64
  ce_temporary :: bool

record CachePruneReport =
  cr_candidates :: "CachePruneEntry list"
  cr_removed_files :: u64
  cr_removed_bytes :: u64
  cr_skipped_locked :: u64
  cr_dry_run :: bool

record CacheIndex =
  ci_format_version :: u32
  ci_files :: "(string, ManagedFile) btree"

definition cache_index_default :: CacheIndex where
  "cache_index_default = \<lparr>ci_format_version = CACHE_INDEX_VERSION, ci_files = []\<rparr>"

record cache_manager =
  cm_root :: path
  cm_instances :: instance_service
  cm_index_json :: "CacheIndex codec"
  cm_managed_json :: "ManagedFileIndex codec"
  cm_digests :: digests
  cm_modified :: "path \<Rightarrow> tree \<Rightarrow> int option"
  cm_len :: "node \<Rightarrow> nat"
  cm_now :: int
  cm_elapsed_millis :: nat
  cm_process :: nat
  cm_fuel :: nat

section \<open>Documents\<close>

text \<open>\<open>atomic_json\<close>: the destination is removed before the new document is renamed to it.\<close>

definition cache_atomic_json :: "cache_manager \<Rightarrow> path \<Rightarrow> string \<Rightarrow> string result \<Rightarrow> unit io" where
  "cache_atomic_json cm root name bytes =
     (let destination = root @ [name];
          temporary = root @ [name @ ''.'' @ show_nat (cm_process cm) @ ''.tmp'']
      in
      io_bind (fs_create_dir_all root) (\<lambda>_.
      io_bind (fs_symlink_metadata root) (\<lambda>n.
      if n \<noteq> DirNode then io_fail (UnsafeFilesystemEntry root ''metadata root must be a real directory'')
      else
      io_bind (io_lift bytes) (\<lambda>b.
      io_bind (fs_write temporary b) (\<lambda>_.
      io_bind (fs_try_exists destination) (\<lambda>present.
      io_bind (if present
               then io_bind (require_real_file destination ''metadata destination must be a real file'') (\<lambda>_.
                    fs_remove_file destination)
               else io_return ()) (\<lambda>_.
      fs_rename temporary destination)))))))"

definition load_cache_index :: "cache_manager \<Rightarrow> CacheIndex io" where
  "load_cache_index cm =
     io_bind (io_catch (io_bind (fs_read (cm_root cm @ [''cache-index.json''])) (\<lambda>bytes. io_return (Some bytes)))
                (\<lambda>e. if is_not_found e then io_return None else io_fail e)) (\<lambda>found.
     case found of
       None \<Rightarrow> io_return cache_index_default
     | Some bytes \<Rightarrow>
         io_bind (io_lift (json_value (cm_index_json cm) bytes)) (\<lambda>index.
         if ci_format_version index \<noteq> CACHE_INDEX_VERSION
         then io_fail (UnsupportedFormat ''cache index'' (ci_format_version index))
         else io_return index))"

definition write_cache_index :: "cache_manager \<Rightarrow> CacheIndex \<Rightarrow> unit io" where
  "write_cache_index cm index = cache_atomic_json cm (cm_root cm) ''cache-index.json'' (json_bytes (cm_index_json cm) index)"

definition load_managed_index :: "cache_manager \<Rightarrow> Instance \<Rightarrow> ManagedFileIndex io" where
  "load_managed_index cm i =
     io_bind (io_map_err (\<lambda>e. if is_not_found e then CacheErr (MissingManagedIndex (iid_str (it_id i))) else e)
        (fs_read (it_path i @ [''runtime'', ''managed-files.json'']))) (\<lambda>bytes.
     io_bind (io_lift (json_value (cm_managed_json cm) bytes)) (\<lambda>index.
     if mx_format_version index \<noteq> MANAGED_INDEX_VERSION
     then io_fail (UnsupportedFormat ''managed file index'' (mx_format_version index))
     else if mx_instance_id index \<noteq> iid_str (it_id i)
     then io_fail (CacheErr (IndexIdentity (iid_str (it_id i)) (mx_instance_id index)))
     else io_return index))"

definition write_managed_index :: "cache_manager \<Rightarrow> Instance \<Rightarrow> ManagedFileIndex \<Rightarrow> unit io" where
  "write_managed_index cm i index =
     cache_atomic_json cm (it_path i @ [''runtime'']) ''managed-files.json'' (json_bytes (cm_managed_json cm) index)"

text \<open>\<open>register\<close> and \<open>object\<close>.\<close>

definition registered_files :: "ManagedFile list \<Rightarrow> (string, ManagedFile) btree \<Rightarrow> (string, ManagedFile) btree" where
  "registered_files managed index =
     foldl (\<lambda>m f. bt_insert (srp_str (mf_path f)) f m) index (filter (\<lambda>f. mf_location f = InCache) managed)"

definition cache_register :: "cache_manager \<Rightarrow> ManagedFileIndex \<Rightarrow> unit io" where
  "cache_register cm managed =
     with_lock ''cache:index'' (
     io_bind (load_cache_index cm) (\<lambda>index.
     write_cache_index cm (index\<lparr>ci_files := registered_files (mx_files managed) (ci_files index)\<rparr>)))"

definition cache_object :: "cache_manager \<Rightarrow> SafeRelativePath \<Rightarrow> ManagedFile option io" where
  "cache_object cm p = io_bind (load_cache_index cm) (\<lambda>index. io_return (bt_get (ci_files index) (srp_str p)))"

text \<open>The comparison of lengths, on binary numbers.\<close>

lemma u64_of_length_code [code]: "u64_of_length n = (if int n < 2 ^ 64 then of_int (int n) else - 1)"
  by (simp add: u64_of_length_def)

section \<open>Verification\<close>

text \<open>One call of \<open>symlink_metadata\<close> with the modification time; a missing entry is a value.\<close>

definition find_stat :: "cache_manager \<Rightarrow> path \<Rightarrow> (node \<times> int option) option io" where
  "find_stat cm p = io_catch
     (io_query (\<lambda>t. case t p of
          Some n \<Rightarrow> Inr (Some (n, cm_modified cm p t))
        | None \<Rightarrow> if is_root p then Inr (Some (DirNode, cm_modified cm p t)) else Inl IoNotFound))
     (\<lambda>e. if is_not_found e then io_return None else io_fail e)"

definition node_len :: "cache_manager \<Rightarrow> node \<Rightarrow> u64" where
  "node_len cm n = (case n of FileNode c \<Rightarrow> u64_of_length (length c) | _ \<Rightarrow> u64_of_length (cm_len cm n))"

definition modified_nanos :: "int option \<Rightarrow> nat option" where
  "modified_nanos m = (case m of None \<Rightarrow> None | Some x \<Rightarrow> if x < 0 then None else Some (nat x))"

definition check :: "ManagedFile \<Rightarrow> FileState \<Rightarrow> u64 option \<Rightarrow> FileCheck" where
  "check f state actual =
     \<lparr>fk_id = mf_id f, fk_path = srp_str (mf_path f), fk_location = mf_location f, fk_kind = mf_kind f,
      fk_state = state, fk_expected_size = mf_expected_size f, fk_actual_size = actual\<rparr>"

definition snapshot_managed_file :: "cache_manager \<Rightarrow> path \<Rightarrow> ManagedFile \<Rightarrow> ManagedFile io" where
  "snapshot_managed_file cm base f =
     (let p = join_under (mf_path f) base in
      io_bind (find_stat cm p) (\<lambda>found.
      case found of
        None \<Rightarrow> io_fail (Error.Io IoNotFound)
      | Some (n, modified) \<Rightarrow>
          if \<not> is_file_node n then io_fail (UnsafeFilesystemEntry p ''managed file must be a real file'')
          else io_return (f\<lparr>mf_verified_size := node_len cm n, mf_verified_modified := modified_nanos modified\<rparr>)))"

definition file_base :: "path \<Rightarrow> path \<Rightarrow> ManagedFile \<Rightarrow> path" where
  "file_base cache_root instance_root f = (case mf_location f of InCache \<Rightarrow> cache_root | InInstance \<Rightarrow> instance_root)"

definition verify_entry :: "cache_manager \<Rightarrow> path \<Rightarrow> bool \<Rightarrow> ManagedFile \<Rightarrow> node \<Rightarrow> int option \<Rightarrow> FileCheck io" where
  "verify_entry cm p full f n modified =
     (let len = node_len cm n in
      if \<not> is_file_node n then io_return (check f Corrupted (Some len))
      else if mf_expected_size f \<notin> {None, Some len} then io_return (check f Corrupted (Some len))
      else
      io_bind (if \<not> full \<and> mf_verified_size f = len \<and> mf_verified_modified f = modified_nanos modified
               then io_return True
               else io_bind (io_try (verify_file (cm_digests cm) p (mf_expected_size f) (mf_expected_hash f))) (\<lambda>v.
                    io_return (is_ok v))) (\<lambda>valid.
      io_return (check f (if valid then Valid else Corrupted) (Some len))))"

definition verify_managed_file :: "cache_manager \<Rightarrow> path \<Rightarrow> path \<Rightarrow> bool \<Rightarrow> ManagedFile \<Rightarrow> FileCheck io" where
  "verify_managed_file cm cache_root instance_root full f =
     (let p = join_under (mf_path f) (file_base cache_root instance_root f) in
      io_bind (find_stat cm p) (\<lambda>found.
      case found of
        None \<Rightarrow> io_return (check f Missing None)
      | Some (n, modified) \<Rightarrow> verify_entry cm p full f n modified))"

text \<open>A stream collected completely before its first error is returned.\<close>

fun collect_all :: "('a \<Rightarrow> 'b io) \<Rightarrow> 'a list \<Rightarrow> 'b result list io" where
  "collect_all f [] = io_return []"
| "collect_all f (x # xs) = io_bind (io_try (f x)) (\<lambda>r. io_bind (collect_all f xs) (\<lambda>rs. io_return (r # rs)))"

definition collect_results :: "('a \<Rightarrow> 'b io) \<Rightarrow> 'a list \<Rightarrow> 'b list io" where
  "collect_results f xs = io_bind (collect_all f xs) (\<lambda>rs. io_lift (traverse (\<lambda>r. r) rs))"

definition count_state :: "FileState \<Rightarrow> FileCheck list \<Rightarrow> u64" where
  "count_state s checks = of_nat (length (filter (\<lambda>c. fk_state c = s) checks))"

definition build_report :: "string \<Rightarrow> FileCheck list \<Rightarrow> nat \<Rightarrow> VerificationReport" where
  "build_report subject checks millis =
     \<lparr>vr_subject = subject, vr_checks = checks,
      vr_valid = count_state Valid checks, vr_missing = count_state Missing checks,
      vr_corrupted = count_state Corrupted checks, vr_unexpected = count_state Unexpected checks,
      vr_metrics = \<lparr>vm_files_checked = of_nat (length checks),
        vm_bytes_checked = sum_list (List.map_filter fk_actual_size checks),
        vm_duration_millis = u64_of_length millis\<rparr>\<rparr>"

definition is_temporary :: "string \<Rightarrow> bool" where
  "is_temporary p \<longleftrightarrow> ends_with p ''.part'' \<or> ends_with p ''.tmp'' \<or> contains_str p ''.staging/''"

text \<open>The walks: what is collected of each file.\<close>

abbreviation cm_scan :: "cache_manager \<Rightarrow> path \<Rightarrow> (path \<times> nat) list io" where
  "cm_scan cm root \<equiv> scan_below (iv_entries (cm_instances cm)) (cm_fuel cm) root"

definition unexpected_file :: "ManagedFileLocation \<Rightarrow> ManagedFileKind \<Rightarrow> string \<Rightarrow> string \<Rightarrow> nat \<Rightarrow> FileCheck" where
  "unexpected_file location kind i relative len =
     \<lparr>fk_id = i, fk_path = relative, fk_location = location, fk_kind = kind, fk_state = Unexpected,
      fk_expected_size = None, fk_actual_size = Some (u64_of_length len)\<rparr>"

definition unindexed_checks :: "path \<Rightarrow> string set \<Rightarrow> (path \<times> nat) list \<Rightarrow> FileCheck list" where
  "unindexed_checks root indexed found =
     [unexpected_file InCache KindOther
        ((if is_temporary (relative_text root p) then ''temporary:'' else ''unindexed:'') @ relative_text root p)
        (relative_text root p) len.
      (p, len) \<leftarrow> found, relative_text root p \<noteq> ''cache-index.json'' \<and> relative_text root p \<notin> indexed]"

definition find_unindexed_files :: "cache_manager \<Rightarrow> string set \<Rightarrow> FileCheck list io" where
  "find_unindexed_files cm indexed =
     io_bind (cm_scan cm (cm_root cm)) (\<lambda>found. io_return (unindexed_checks (cm_root cm) indexed found))"

definition native_checks :: "path \<Rightarrow> string set \<Rightarrow> (path \<times> nat) list \<Rightarrow> FileCheck list" where
  "native_checks instance_root expected found =
     [unexpected_file InInstance KindExtractedNative (''unexpected-native:'' @ relative_text instance_root p)
        (relative_text instance_root p) len.
      (p, len) \<leftarrow> found, relative_text instance_root p \<notin> expected]"

definition find_unindexed_instance_natives :: "cache_manager \<Rightarrow> path \<Rightarrow> string set \<Rightarrow> FileCheck list io" where
  "find_unindexed_instance_natives cm instance_root expected =
     io_bind (cm_scan cm (instance_root @ [''runtime'', ''natives''])) (\<lambda>found.
     io_return (native_checks instance_root expected found))"

definition verify_index :: "cache_manager \<Rightarrow> Instance \<Rightarrow> path \<Rightarrow> ManagedFileIndex \<Rightarrow> bool \<Rightarrow> VerificationReport io" where
  "verify_index cm i cache_root index full =
     io_bind (collect_results (verify_managed_file cm cache_root (it_path i) full) (mx_files index)) (\<lambda>checks.
     io_bind (find_unindexed_instance_natives cm (it_path i)
       (srp_str ` mf_path ` set (filter (\<lambda>f. mf_location f = InInstance) (mx_files index)))) (\<lambda>natives.
     io_return (build_report (iid_str (it_id i)) (checks @ natives) (cm_elapsed_millis cm))))"

definition show_bool :: "bool \<Rightarrow> string" where
  "show_bool b = (if b then ''true'' else ''false'')"

definition cache_verify :: "cache_manager \<Rightarrow> bool \<Rightarrow> VerificationReport io" where
  "cache_verify cm full =
     io_bind (emit ''CacheVerificationStarted'' [show_bool full]) (\<lambda>_.
     io_bind (load_cache_index cm) (\<lambda>index.
     io_bind (collect_results (verify_managed_file cm (cm_root cm) (cm_root cm) full) (map snd (ci_files index))) (\<lambda>checks.
     io_bind (find_unindexed_files cm (set (bt_keys (ci_files index)))) (\<lambda>unindexed.
     let report = build_report ''cache'' (checks @ unindexed) (cm_elapsed_millis cm) in
     io_bind (emit ''CacheVerificationCompleted''
       [show_nat (unat (vr_valid report)), show_nat (unat (vr_missing report)), show_nat (unat (vr_corrupted report))]) (\<lambda>_.
     io_return report)))))"

section \<open>Disk usage\<close>

definition add_file :: "u64 \<Rightarrow> CacheCategoryStats \<Rightarrow> CacheCategoryStats" where
  "add_file len c = \<lparr>cs_files = cs_files c + 1, cs_bytes = cs_bytes c + len\<rparr>"

definition count_file :: "string \<Rightarrow> nat \<Rightarrow> CacheStatus \<Rightarrow> CacheStatus" where
  "count_file relative filesize s =
     (let len = u64_of_length filesize;
          s' = (if is_temporary relative then s\<lparr>cu_temporary := add_file len (cu_temporary s)\<rparr>
                else if starts_with relative ''versions/'' then s\<lparr>cu_versions := add_file len (cu_versions s)\<rparr>
                else if starts_with relative ''libraries/'' then s\<lparr>cu_libraries := add_file len (cu_libraries s)\<rparr>
                else if starts_with relative ''assets/'' then s\<lparr>cu_assets := add_file len (cu_assets s)\<rparr>
                else if ends_with relative ''.json'' then s\<lparr>cu_metadata := add_file len (cu_metadata s)\<rparr>
                else s\<lparr>cu_other := add_file len (cu_other s)\<rparr>)
      in s'\<lparr>cu_total_files := cu_total_files s + 1, cu_total_bytes := cu_total_bytes s + len\<rparr>)"

definition usage_of :: "path \<Rightarrow> (path \<times> nat) list \<Rightarrow> CacheStatus" where
  "usage_of root found = foldl (\<lambda>s (p, len). count_file (relative_text root p) len s) no_usage found"

definition cache_status :: "cache_manager \<Rightarrow> CacheStatus io" where
  "cache_status cm = io_bind (cm_scan cm (cm_root cm)) (\<lambda>found. io_return (usage_of (cm_root cm) found))"

section \<open>Pruning\<close>

definition cache_lock_key :: "string \<Rightarrow> string" where
  "cache_lock_key p = ''cache:'' @ (case strip_suffix ''.part'' p of None \<Rightarrow> p | Some q \<Rightarrow> q)"

definition find_temporary_files :: "cache_manager \<Rightarrow> CachePruneEntry list io" where
  "find_temporary_files cm =
     io_bind (cm_scan cm (cm_root cm)) (\<lambda>found.
     io_return [\<lparr>ce_path = relative_text (cm_root cm) p, ce_bytes = u64_of_length len, ce_temporary = True\<rparr>.
       (p, len) \<leftarrow> found, is_temporary (relative_text (cm_root cm) p)])"

text \<open>
  \<open>referenced_cache_paths\<close>: an instance whose index cannot be loaded contributes nothing.
\<close>

fun referenced_by :: "cache_manager \<Rightarrow> Instance list \<Rightarrow> string list io" where
  "referenced_by cm [] = io_return []"
| "referenced_by cm (i # is) =
     io_bind (io_try (load_managed_index cm i)) (\<lambda>r.
     io_bind (referenced_by cm is) (\<lambda>paths.
     io_return ((case r of Inl _ \<Rightarrow> []
       | Inr index \<Rightarrow> map (\<lambda>f. srp_str (mf_path f)) (filter (\<lambda>f. mf_location f = InCache) (mx_files index))) @ paths)))"

definition referenced_cache_paths :: "cache_manager \<Rightarrow> string list io" where
  "referenced_cache_paths cm = io_bind (instance_list (cm_instances cm)) (referenced_by cm)"

definition too_young :: "cache_manager \<Rightarrow> CachePolicy \<Rightarrow> int option \<Rightarrow> bool" where
  "too_young cm policy modified =
     (case (cy_max_age policy, modified) of
        (Some age, Some m) \<Rightarrow> m \<le> cm_now cm \<and> cm_now cm - m < int age
      | _ \<Rightarrow> False)"

fun indexed_candidates ::
    "cache_manager \<Rightarrow> CachePolicy \<Rightarrow> string list \<Rightarrow> (string, ManagedFile) btree \<Rightarrow> CachePruneEntry list io" where
  "indexed_candidates cm policy referenced [] = io_return []"
| "indexed_candidates cm policy referenced ((p, f) # index) =
     (if p \<in> set referenced then indexed_candidates cm policy referenced index
      else
      io_bind (io_try (find_stat cm (join_under (mf_path f) (cm_root cm)))) (\<lambda>stat.
      io_bind (indexed_candidates cm policy referenced index) (\<lambda>candidates.
      io_return (case stat of
          Inr (Some (n, modified)) \<Rightarrow>
            if \<not> is_file_node n \<or> too_young cm policy modified then candidates
            else \<lparr>ce_path = p, ce_bytes = node_len cm n, ce_temporary = False\<rparr> # candidates
        | _ \<Rightarrow> candidates))))"

text \<open>\<open>dedup_by\<close>: of equal neighbours the first stays.\<close>

fun dedup_paths :: "CachePruneEntry list \<Rightarrow> CachePruneEntry list" where
  "dedup_paths (a # b # cs) = (if ce_path b = ce_path a then dedup_paths (a # cs) else a # dedup_paths (b # cs))"
| "dedup_paths cs = cs"

fun retain_excess :: "u64 \<Rightarrow> CachePruneEntry list \<Rightarrow> CachePruneEntry list" where
  "retain_excess excess [] = []"
| "retain_excess excess (c # cs) =
     (if ce_temporary c \<or> excess > 0 then c # retain_excess (saturating_sub excess (ce_bytes c)) cs
      else retain_excess excess cs)"

definition prune_candidates :: "cache_manager \<Rightarrow> CachePolicy \<Rightarrow> CachePruneEntry list io" where
  "prune_candidates cm policy =
     io_bind (load_cache_index cm) (\<lambda>index.
     io_bind (referenced_cache_paths cm) (\<lambda>referenced.
     io_bind (indexed_candidates cm policy referenced (ci_files index)) (\<lambda>indexed.
     io_bind (find_temporary_files cm) (\<lambda>temporary.
     let candidates = dedup_paths (sort_key ce_path (indexed @ temporary)) in
     case cy_max_size policy of
       None \<Rightarrow> io_return candidates
     | Some max_size \<Rightarrow>
         io_bind (cache_status cm) (\<lambda>usage.
         io_return (retain_excess (saturating_sub (cu_total_bytes usage) max_size) candidates))))))"

text \<open>One candidate: skipped when its lock is taken, and looked at again before it is removed.\<close>

definition remove_candidate :: "CachePruneEntry \<Rightarrow> path \<Rightarrow> CachePruneReport \<times> string list \<Rightarrow>
    (CachePruneReport \<times> string list) io" where
  "remove_candidate candidate p acc =
     io_bind (find_node p) (\<lambda>found.
     case found of
       Some (FileNode c) \<Rightarrow>
         io_bind (fs_remove_file p) (\<lambda>_.
         io_return ((fst acc)\<lparr>cr_removed_files := cr_removed_files (fst acc) + 1,
             cr_removed_bytes := cr_removed_bytes (fst acc) + u64_of_length (length c)\<rparr>,
           if ce_temporary candidate then snd acc else snd acc @ [ce_path candidate]))
     | _ \<Rightarrow> io_return acc)"

definition unless_locked :: "string \<Rightarrow> 'a io \<Rightarrow> 'a io \<Rightarrow> 'a io" where
  "unless_locked r busy m w = (if r \<in> w_locks w then busy w else with_lock r m w)"

definition prune_one :: "cache_manager \<Rightarrow> CachePruneEntry \<Rightarrow> CachePruneReport \<times> string list \<Rightarrow>
    (CachePruneReport \<times> string list) io" where
  "prune_one cm candidate acc =
     io_bind (io_lift (srp_new (ce_path candidate))) (\<lambda>relative.
     unless_locked (cache_lock_key (ce_path candidate))
       (io_return ((fst acc)\<lparr>cr_skipped_locked := cr_skipped_locked (fst acc) + 1\<rparr>, snd acc))
       (remove_candidate candidate (join_under relative (cm_root cm)) acc))"

fun prune_all :: "cache_manager \<Rightarrow> CachePruneEntry list \<Rightarrow> CachePruneReport \<times> string list \<Rightarrow>
    (CachePruneReport \<times> string list) io" where
  "prune_all cm [] acc = io_return acc"
| "prune_all cm (c # cs) acc = io_bind (prune_one cm c acc) (prune_all cm cs)"

definition prune_apply :: "cache_manager \<Rightarrow> bool \<Rightarrow> CachePruneEntry list \<Rightarrow> CachePruneReport io" where
  "prune_apply cm dry_run candidates =
     (let report = \<lparr>cr_candidates = candidates, cr_removed_files = 0, cr_removed_bytes = 0, cr_skipped_locked = 0,
                    cr_dry_run = dry_run\<rparr> in
      if dry_run then io_return report
      else
      io_bind (prune_all cm candidates (report, [])) (\<lambda>(report', removed).
      io_bind (if removed = [] then io_return ()
               else with_lock ''cache:index'' (
                    io_bind (load_cache_index cm) (\<lambda>latest.
                    write_cache_index cm (latest\<lparr>ci_files := foldl (\<lambda>m p. bt_remove p m) (ci_files latest) removed\<rparr>)))) (\<lambda>_.
      io_return report')))"

definition cache_prune :: "cache_manager \<Rightarrow> CachePolicy \<Rightarrow> bool \<Rightarrow> CachePruneReport io" where
  "cache_prune cm policy dry_run = io_bind (prune_candidates cm policy) (prune_apply cm dry_run)"

section \<open>Lemmas on counting\<close>

lemma usage_step:
  "cu_total_files (count_file r n s) = cu_total_files s + 1"
  "cu_total_bytes (count_file r n s) = cu_total_bytes s + u64_of_length n"
  by (simp_all add: count_file_def Let_def)

definition category_files :: "CacheStatus \<Rightarrow> u64" where
  "category_files s = cs_files (cu_versions s) + cs_files (cu_libraries s) + cs_files (cu_assets s) +
     cs_files (cu_metadata s) + cs_files (cu_temporary s) + cs_files (cu_other s)"

definition category_bytes :: "CacheStatus \<Rightarrow> u64" where
  "category_bytes s = cs_bytes (cu_versions s) + cs_bytes (cu_libraries s) + cs_bytes (cu_assets s) +
     cs_bytes (cu_metadata s) + cs_bytes (cu_temporary s) + cs_bytes (cu_other s)"

lemma category_step:
  "category_files (count_file r n s) = category_files s + 1"
  "category_bytes (count_file r n s) = category_bytes s + u64_of_length n"
  by (simp_all add: count_file_def category_files_def category_bytes_def add_file_def Let_def algebra_simps)

lemma usage_fold:
  defines "run \<equiv> (\<lambda>root found s. foldl (\<lambda>s (p, len). count_file (relative_text root p) len s) s found)"
  shows "cu_total_files (run root found s) = cu_total_files s + of_nat (length found)"
    and "cu_total_bytes (run root found s) = cu_total_bytes s + sum_list (map (\<lambda>x. u64_of_length (snd x)) found)"
    and "category_files (run root found s) = category_files s + of_nat (length found)"
    and "category_bytes (run root found s) = category_bytes s + sum_list (map (\<lambda>x. u64_of_length (snd x)) found)"
  unfolding run_def by (induction found arbitrary: s) (auto simp: usage_step category_step algebra_simps)

lemma no_usage_zero:
  "cu_total_files no_usage = 0" "cu_total_bytes no_usage = 0" "category_files no_usage = 0" "category_bytes no_usage = 0"
  by (simp_all add: no_usage_def category_files_def category_bytes_def no_stats_def)

lemma usage_of_totals:
  "cu_total_files (usage_of root found) = of_nat (length found)"
  "cu_total_bytes (usage_of root found) = sum_list (map (\<lambda>x. u64_of_length (snd x)) found)"
  "category_files (usage_of root found) = of_nat (length found)"
  "category_bytes (usage_of root found) = sum_list (map (\<lambda>x. u64_of_length (snd x)) found)"
  unfolding usage_of_def usage_fold no_usage_zero by simp_all

lemma count_state_total:
  "count_state Valid cs + count_state Missing cs + count_state Corrupted cs + count_state Unexpected cs = of_nat (length cs)"
proof (induction cs)
  case (Cons c cs)
  then show ?case by (cases "fk_state c") (auto simp: count_state_def algebra_simps)
qed (simp add: count_state_def)

text \<open>With fewer than \<open>2 ^ 64\<close> checks a healthy report has only valid ones.\<close>

lemma count_state_zero:
  assumes "length cs < 2 ^ 64" "count_state s cs = 0" "c \<in> set cs"
  shows "fk_state c \<noteq> s"
proof
  assume "fk_state c = s"
  with assms(3) have "0 < length (filter (\<lambda>c. fk_state c = s) cs)" by (auto simp: length_greater_0_conv filter_empty_conv)
  moreover have "length (filter (\<lambda>c. fk_state c = s) cs) < 2 ^ 64" using assms(1) length_filter_le le_less_trans by blast
  ultimately have "unat (count_state s cs) > 0" by (simp add: count_state_def unat_of_nat)
  with assms(2) show False by simp
qed

lemma healthy_checks:
  assumes "is_healthy (build_report subject cs millis)" "length cs < 2 ^ 64" "c \<in> set cs"
  shows "fk_state c = Valid"
  using assms count_state_zero [OF assms(2) _ assms(3)]
  by (cases "fk_state c") (auto simp: is_healthy_def build_report_def)

section \<open>Lemmas on verification\<close>

lemma io_frame_find_stat: "io_frame (find_stat cm p)"
  unfolding find_stat_def by (intro io_frame_catch io_frame_query io_frame_if io_frame_basic)

lemma io_frame_verify_file: "io_frame (verify_file dg p es eh)"
  unfolding verify_file_def by (intro io_frame_bind io_frame_map_err io_frame_reads io_frame_basic)

lemma find_stat_result:
  assumes "find_stat cm p w = (Inr x, w')"
  shows "x = (case w_tree w p of Some n \<Rightarrow> Some (n, cm_modified cm p (w_tree w))
     | None \<Rightarrow> if is_root p then Some (DirNode, cm_modified cm p (w_tree w)) else None)"
proof -
  obtain g w1 where n: "next_fault w = (g, w1)" by fastforce
  have "w_tree w1 = w_tree w" using next_fault_simps [OF n] by simp
  then show ?thesis
    using assms n next_fault_kind [of w]
    by (auto simp: find_stat_def io_catch_eq_Inr io_query_def is_not_found_def map_err_def
        split: option.splits sum.splits if_splits)
qed

text \<open>A file that a full verification calls valid has the expected content.\<close>

lemma cached_read_result:
  assumes "fs_read p w = (Inr c, w')"
  shows "read_tree p (w_tree w) = Inr c"
proof -
  obtain g w1 where n: "next_fault w = (g, w1)" by fastforce
  have "w_tree w1 = w_tree w" using next_fault_simps [OF n] by simp
  then show ?thesis
    using assms n by (cases "read_tree p (w_tree w)") (auto simp: fs_read_def io_query_def split: option.splits)
qed

lemma verify_file_ok:
  assumes "verify_file dg p es eh w = (Inr n, w')"
  shows "\<exists>c. read_tree p (w_tree w) = Inr c \<and> verify_content dg p es eh c = Inr ()"
proof -
  from assms obtain c w1 u where "dl_io (fs_read p) w = (Inr c, w1)" "verify_content dg p es eh c = Inr u"
    unfolding verify_file_def io_bind_eq_Inr io_run_simps prod.inject map_err_eq_Inr by blast
  then show ?thesis using cached_read_result by (auto simp: io_map_err_eq_Inr)
qed

lemma verify_entry_valid:
  assumes "verify_entry cm p True f n modified w = (Inr c, w')" "fk_state c = Valid" "w_tree w p = Some n"
  shows "\<exists>content. n = FileNode content \<and>
    verify_content (cm_digests cm) p (mf_expected_size f) (mf_expected_hash f) content = Inr ()"
proof (cases n)
  case (FileNode content)
  with assms(1,2) obtain v w2 where
    v: "io_try (verify_file (cm_digests cm) p (mf_expected_size f) (mf_expected_hash f)) w = (Inr v, w2)" "is_ok v"
    by (auto simp: verify_entry_def Let_def check_def is_file_node_def io_bind_eq_Inr split: if_splits)
  then obtain k where "verify_file (cm_digests cm) p (mf_expected_size f) (mf_expected_hash f) w = (Inr k, w2)"
    by (auto simp: io_try_def is_ok_iff split: prod.splits)
  from verify_file_ok [OF this] assms(3) FileNode show ?thesis by auto
qed (use assms(1,2) in \<open>auto simp: verify_entry_def Let_def check_def is_file_node_def\<close>)

lemma verify_managed_file_valid:
  fixes cache_root instance_root f
  defines "p \<equiv> join_under (mf_path f) (file_base cache_root instance_root f)"
  assumes "verify_managed_file cm cache_root instance_root True f w = (Inr c, w')" "fk_state c = Valid" "\<not> is_root p"
  shows "\<exists>content. w_tree w p = Some (FileNode content) \<and>
    verify_content (cm_digests cm) p (mf_expected_size f) (mf_expected_hash f) content = Inr ()"
proof -
  from assms(2) obtain x w1 where x: "find_stat cm p w = (Inr x, w1)"
    and rest: "(case x of None \<Rightarrow> io_return (check f Missing None)
      | Some (n, modified) \<Rightarrow> verify_entry cm p True f n modified) w1 = (Inr c, w')"
    unfolding verify_managed_file_def Let_def p_def [symmetric] io_bind_eq_Inr by blast
  have t: "w_tree w1 = w_tree w" using io_frameD [OF io_frame_find_stat x] by simp
  show ?thesis
  proof (cases "w_tree w p")
    case None
    with find_stat_result [OF x] assms(4) have "x = None" by simp
    with rest assms(3) show ?thesis by (auto simp: check_def)
  next
    case (Some n)
    with find_stat_result [OF x] rest
    have "verify_entry cm p True f n (cm_modified cm p (w_tree w)) w1 = (Inr c, w')" by simp
    from verify_entry_valid [OF this assms(3)] t Some show ?thesis by auto
  qed
qed

text \<open>All files of a collected verification.\<close>

lemma io_frame_Pair [simp]: "io_frame (Pair r)"
  by (simp add: io_frame_def)

lemma io_frame_verify_managed_file: "io_frame (verify_managed_file cm a b full f)"
  unfolding verify_managed_file_def verify_entry_def Let_def
  by (intro io_frame_bind io_frame_find_stat)
    (auto split: option.split prod.split intro!: io_frame_bind io_frame_if io_frame_basic io_frame_try io_frame_verify_file)

lemma io_frame_collect_all:
  assumes "\<And>x. io_frame (f x)"
  shows "io_frame (collect_all f xs)"
proof (induction xs)
  case Nil
  show ?case unfolding collect_all.simps by (rule io_frame_basic)
next
  case (Cons x xs)
  then show ?case unfolding collect_all.simps by (intro io_frame_bind io_frame_try assms io_frame_basic)
qed

lemma collect_results_Inr:
  assumes "\<And>x. io_frame (f x)" "collect_results f xs w = (Inr ys, w')"
  shows "length ys = length xs \<and> (\<forall>i < length xs. \<exists>v v'. w_tree v = w_tree w \<and> f (xs ! i) v = (Inr (ys ! i), v'))"
proof -
  from assms(2) obtain rs where rs: "collect_all f xs w = (Inr rs, w')" "traverse (\<lambda>r. r) rs = Inr ys"
    by (auto simp: collect_results_def io_bind_eq_Inr)
  then show ?thesis
  proof (induction xs arbitrary: rs ys w)
    case (Cons x xs)
    from Cons.prems(1) obtain r w1 rs' where r: "f x w = (r, w1)" "collect_all f xs w1 = (Inr rs', w')" "rs = r # rs'"
      by (auto simp: io_bind_eq_Inr io_try_def split: prod.splits)
    from Cons.prems(2) r(3) obtain y ys' where y: "r = Inr y" "traverse (\<lambda>r. r) rs' = Inr ys'" "ys = y # ys'"
      by (cases r) (auto simp: res_bind_eq_Inr)
    have t: "w_tree w1 = w_tree w" using io_frameD [OF assms(1) r(1)] by simp
    note IH = Cons.IH [OF r(2) y(2)]
    have "\<exists>v v'. w_tree v = w_tree w \<and> f ((x # xs) ! i) v = (Inr (ys ! i), v')" if "i < length (x # xs)" for i
    proof (cases i)
      case 0
      with r(1) y show ?thesis by auto
    next
      case (Suc k)
      with IH that t y(3) show ?thesis by simp
    qed
    with IH y(3) show ?case by simp
  qed simp
qed

section \<open>Lemmas on pruning\<close>

text \<open>Every candidate is temporary or an entry of the index that no loaded index refers to.\<close>

definition candidate_ok :: "string list \<Rightarrow> CachePruneEntry \<Rightarrow> bool" where
  "candidate_ok referenced c \<longleftrightarrow> (if ce_temporary c then is_temporary (ce_path c) else ce_path c \<notin> set referenced)"

lemma set_dedup_paths: "set (dedup_paths cs) \<subseteq> set cs"
  by (induction cs rule: dedup_paths.induct) auto

lemma set_retain_excess: "set (retain_excess n cs) \<subseteq> set cs"
  by (induction n cs rule: retain_excess.induct) auto

lemma indexed_candidates_ok:
  "indexed_candidates cm policy referenced index w = (Inr cs, w') \<Longrightarrow> c \<in> set cs \<Longrightarrow>
   \<not> ce_temporary c \<and> ce_path c \<notin> set referenced"
proof (induction cm policy referenced index arbitrary: cs w rule: indexed_candidates.induct)
  case (2 cm policy referenced p f index)
  show ?case
  proof (cases "p \<in> set referenced")
    case True
    with 2 show ?thesis by simp
  next
    case False
    with "2.prems"(1) obtain stat :: "(node \<times> int option) option result" and w1 cs' w2
      where step: "indexed_candidates cm policy referenced index w1 = (Inr cs', w2)"
      and cs: "(case stat of Inr (Some (n, modified)) \<Rightarrow>
            if \<not> is_file_node n \<or> too_young cm policy modified then cs'
            else \<lparr>ce_path = p, ce_bytes = node_len cm n, ce_temporary = False\<rparr> # cs' | _ \<Rightarrow> cs') = cs"
      and w2: "w2 = w'"
      unfolding indexed_candidates.simps if_not_P [OF False] io_bind_eq_Inr io_run_simps prod.inject sum.inject by blast
    note rest = step [unfolded w2]
    note IH = "2.IH"(2) [OF False rest]
    from cs "2.prems"(2) have "c \<in> set cs' \<or> ce_path c = p \<and> \<not> ce_temporary c"
      by (auto split: sum.splits option.splits if_splits prod.splits)
    with IH False show ?thesis by blast
  qed
qed simp

lemma load_cache_index_quiet: "w_faults w = [] \<Longrightarrow> snd (load_cache_index cm w) = w"
  by (auto simp: load_cache_index_def io_bind_def io_catch_def fs_read_def io_query_run split: sum.split prod.split option.split)

lemma temporary_entries_ok:
  assumes "find_temporary_files cm w = (Inr cs, w')" "c \<in> set cs"
  shows "ce_temporary c \<and> is_temporary (ce_path c)"
  using assms by (auto simp: find_temporary_files_def io_bind_eq_Inr)

lemma prune_candidates_ok:
  assumes "w_faults w = []" "prune_candidates cm policy w = (Inr cs, w')"
  shows "\<exists>referenced w1. referenced_cache_paths cm w = (Inr referenced, w1) \<and> (\<forall>c \<in> set cs. candidate_ok referenced c)"
proof -
  from assms(2) obtain index w0 referenced w1 indexed w2 temporary w3 where
    "load_cache_index cm w = (Inr index, w0)" and refs: "referenced_cache_paths cm w0 = (Inr referenced, w1)"
    and i: "indexed_candidates cm policy referenced (ci_files index) w1 = (Inr indexed, w2)"
    and t: "find_temporary_files cm w2 = (Inr temporary, w3)"
    and rest: "(let candidates = dedup_paths (sort_key ce_path (indexed @ temporary)) in
     case cy_max_size policy of
       None \<Rightarrow> io_return candidates
     | Some max_size \<Rightarrow>
         io_bind (cache_status cm) (\<lambda>usage.
         io_return (retain_excess (saturating_sub (cu_total_bytes usage) max_size) candidates))) w3 = (Inr cs, w')"
    unfolding prune_candidates_def io_bind_eq_Inr by blast
  have w0: "w0 = w" using load_cache_index_quiet [OF assms(1), of cm] \<open>load_cache_index cm w = _\<close> by simp
  have "set cs \<subseteq> set (dedup_paths (sort_key ce_path (indexed @ temporary)))"
    using rest set_retain_excess by (auto simp: Let_def io_bind_eq_Inr split: option.splits)
  then have "set cs \<subseteq> set indexed \<union> set temporary"
    using set_dedup_paths [of "sort_key ce_path (indexed @ temporary)"] by auto
  then have "candidate_ok referenced c" if "c \<in> set cs" for c
    using that indexed_candidates_ok [OF i, of c] temporary_entries_ok [OF t, of c] by (auto simp: candidate_ok_def)
  with refs w0 show ?thesis by blast
qed

text \<open>Removing the candidates leaves every other path alone.\<close>

lemma io_valid_unless_locked:
  assumes "io_valid J P busy Q E" "io_valid J P m Q E" "\<And>t. P t \<Longrightarrow> E t"
  shows "io_valid J P (unless_locked r busy m) Q E"
proof (rule io_validI)
  fix w x w' assume w: "P (w_tree w)" and run: "unless_locked r busy m w = (x, w')"
  show "crash_grows J w w' \<and> (case x of Inr x \<Rightarrow> Q x (w_tree w') | Inl e \<Rightarrow> E (w_tree w'))"
  proof (cases "r \<in> w_locks w")
    case True
    with run have "busy w = (x, w')" by (simp add: unless_locked_def)
    from io_validD [OF assms(1) w this] show ?thesis by (cases x) auto
  next
    case False
    with run have "with_lock r m w = (x, w')" by (simp add: unless_locked_def)
    from io_validD [OF io_valid_with_lock [OF assms(2,3)] w this] show ?thesis by (cases x) auto
  qed
qed

text \<open>
  What pruning keeps: a file at another path, and no link where the index is staged.
\<close>

definition kept :: "path \<Rightarrow> path \<Rightarrow> string \<Rightarrow> tree \<Rightarrow> bool" where
  "kept q m c t \<longleftrightarrow> t q = Some (FileNode c) \<and> (\<forall>r. t m \<noteq> Some (SymlinkNode r))"

lemma kept_file: "kept q m c t \<Longrightarrow> t q = Some (FileNode c)"
  by (simp add: kept_def)

lemma kept_remove: "kept q m c t \<Longrightarrow> p \<noteq> q \<Longrightarrow> remove_file_tree p t = Inr t' \<Longrightarrow> kept q m c t'"
  by (auto simp: kept_def dest!: remove_file_tree_Inr split: if_splits)

lemma io_valid_kept_frame: "io_frame m \<Longrightarrow> io_valid (kept q s c) (kept q s c) m (\<lambda>_. kept q s c) (kept q s c)"
  by (rule io_valid_frame)

lemma kept_remove_file:
  assumes "p \<noteq> q"
  shows "io_valid (kept q s c) (kept q s c) (fs_remove_file p) (\<lambda>_. kept q s c) (kept q s c)"
  unfolding fs_remove_file_def by (rule io_valid_step) (use kept_remove assms in blast)+

lemma remove_candidate_valid:
  assumes "p \<noteq> q"
  shows "io_valid (kept q s b) (kept q s b) (remove_candidate c p acc) (\<lambda>_. kept q s b) (kept q s b)"
  unfolding remove_candidate_def
proof (rule io_valid_bind)
  have ret: "io_valid (kept q s b) (kept q s b) (io_return x) (\<lambda>_. kept q s b) (kept q s b)"
    for x :: "CachePruneReport \<times> string list" by (rule io_valid_return)
  show "io_valid (kept q s b) (kept q s b) (find_node p) (\<lambda>_. kept q s b) (kept q s b)"
    by (rule io_valid_conseq [OF find_node_valid [where P = "kept q s b"]]) auto
  show "io_valid (kept q s b) (kept q s b) (case found of Some (FileNode b) \<Rightarrow>
         io_bind (fs_remove_file p) (\<lambda>_.
         io_return ((fst acc)\<lparr>cr_removed_files := cr_removed_files (fst acc) + 1,
             cr_removed_bytes := cr_removed_bytes (fst acc) + u64_of_length (length b)\<rparr>,
           if ce_temporary c then snd acc else snd acc @ [ce_path c]))
     | _ \<Rightarrow> io_return acc) (\<lambda>_. kept q s b) (kept q s b)" for found
  proof (cases found)
    case None
    show ?thesis unfolding None option.case by (rule ret)
  next
    case (Some n)
    show ?thesis
    proof (cases n)
      case (FileNode b)
      show ?thesis unfolding Some FileNode option.case node.case
        by (rule io_valid_bind [OF kept_remove_file [OF assms] ret])
    next
      case DirNode
      show ?thesis unfolding Some DirNode option.case node.case by (rule ret)
    next
      case (SymlinkNode q)
      show ?thesis unfolding Some SymlinkNode option.case node.case by (rule ret)
    qed
  qed
qed

lemma prune_one_valid:
  assumes far: "\<And>r. srp_new (ce_path c) = Inr r \<Longrightarrow> join_under r (cm_root cm) \<noteq> q"
  shows "io_valid (kept q s b) (kept q s b) (prune_one cm c acc) (\<lambda>_. kept q s b) (kept q s b)"
  unfolding prune_one_def
proof (rule io_valid_bind)
  let ?I = "kept q s b"
  show "io_valid ?I ?I (io_lift (srp_new (ce_path c))) (\<lambda>r t. ?I t \<and> srp_new (ce_path c) = Inr r) ?I"
    by (rule io_valid_lift) auto
  show "io_valid ?I (\<lambda>t. ?I t \<and> srp_new (ce_path c) = Inr r) (unless_locked (cache_lock_key (ce_path c))
       (io_return ((fst acc)\<lparr>cr_skipped_locked := cr_skipped_locked (fst acc) + 1\<rparr>, snd acc))
       (remove_candidate c (join_under r (cm_root cm)) acc)) (\<lambda>_. ?I) ?I" for r
  proof (cases "srp_new (ce_path c) = Inr r")
    case True
    show ?thesis
      by (rule io_valid_unless_locked, rule io_valid_return, simp,
          rule io_valid_conseq [OF remove_candidate_valid [OF far [OF True]]]) auto
  qed (simp add: io_valid_def)
qed

lemma prune_all_valid:
  assumes "\<And>c r. c \<in> set cs \<Longrightarrow> srp_new (ce_path c) = Inr r \<Longrightarrow> join_under r (cm_root cm) \<noteq> q"
  shows "io_valid (kept q s b) (kept q s b) (prune_all cm cs acc) (\<lambda>_. kept q s b) (kept q s b)"
  using assms
proof (induction cs arbitrary: acc)
  case Nil
  show ?case unfolding prune_all.simps by (rule io_valid_return)
next
  case (Cons c cs)
  show ?case unfolding prune_all.simps
    by (rule io_valid_bind [OF prune_one_valid]) (use Cons in auto)
qed

lemma kept_create_dir_all:
  "io_valid (kept q s c) (kept q s c) (fs_create_dir_all p) (\<lambda>_. kept q s c) (kept q s c)"
  unfolding fs_create_dir_all_def
  by (rule io_valid_step) (auto simp: kept_def create_dir_all_tree_def split: if_splits)

lemma kept_write:
  assumes "q \<noteq> m"
  shows "io_valid (kept q m c) (kept q m c) (fs_write m b) (\<lambda>_. kept q m c) (kept q m c)"
proof (rule io_valid_write)
  fix t r and k :: nat assume t: "kept q m c t" "write_target m t = Inr r"
  then have "r = m" using write_target_plain [of t m r] by (auto simp: kept_def)
  then show "kept q m c (t(r \<mapsto> FileNode (take k b))) \<and> kept q m c (t(r \<mapsto> FileNode (take k b)))"
    "kept q m c (t(r \<mapsto> FileNode b))"
    using t(1) assms by (simp_all add: kept_def)
qed

lemma kept_rename:
  assumes "\<not> below d q" "\<not> below m q" "\<not> below d m"
  shows "io_valid (kept q m c) (kept q m c) (fs_rename m d) (\<lambda>_. kept q m c) (kept q m c)"
  unfolding fs_rename_def
proof (rule io_valid_step)
  fix t t' assume t: "kept q m c t" "rename_tree m d t = Inr t'"
  have "t' q = t q" using rename_tree_elsewhere [OF t(2) assms(2,1)] .
  moreover have "t' m = None \<or> t' m = t m"
    using t(2) assms(3) by (auto simp: rename_tree_def move_tree_def split: if_splits)
  ultimately show "kept q m c t' \<and> kept q m c t'" using t(1) by (auto simp: kept_def)
qed

text \<open>A file that is not the document that is replaced survives the replacement.\<close>

lemma cache_atomic_json_elsewhere:
  fixes cm root name
  defines "d \<equiv> root @ [name]" and "m \<equiv> root @ [name @ ''.'' @ show_nat (cm_process cm) @ ''.tmp'']"
  assumes far: "\<not> below d q" "\<not> below m q"
  shows "io_valid (kept q m c) (kept q m c) (cache_atomic_json cm root name bytes) (\<lambda>_. kept q m c) (kept q m c)"
proof -
  have ne: "d \<noteq> q" "q \<noteq> m" using far by (auto simp: below_def)
  have apart: "\<not> below d m" by (simp add: below_def d_def m_def)
  let ?I = "kept q m c"
  note frame = io_valid_kept_frame
  have stat: "io_valid ?I ?I (fs_symlink_metadata root) (\<lambda>_. ?I) ?I" by (rule frame) auto
  have lift: "io_valid ?I ?I (io_lift bytes) (\<lambda>_. ?I) ?I" by (rule io_valid_lift) auto
  have ex: "io_valid ?I ?I (fs_try_exists d) (\<lambda>_. ?I) ?I" by (rule frame) auto
  have rq: "io_valid ?I ?I (require_real_file d s) (\<lambda>_. ?I) ?I" for s
    by (rule frame [OF require_real_file_frame])
  have old: "io_valid ?I ?I (if b then io_bind (require_real_file d s) (\<lambda>_. fs_remove_file d) else io_return ()) (\<lambda>_. ?I) ?I" for b s
  proof (cases b)
    case True
    show ?thesis unfolding if_P [OF True] by (rule io_valid_bind [OF rq kept_remove_file [OF ne(1)]])
  next
    case False
    show ?thesis unfolding if_not_P [OF False] by (rule io_valid_return)
  qed
  have tail: "io_valid ?I ?I (if n \<noteq> DirNode then io_fail e
      else io_bind (io_lift bytes) (\<lambda>b. io_bind (fs_write m b) (\<lambda>_. io_bind (fs_try_exists d) (\<lambda>present.
      io_bind (if present then io_bind (require_real_file d s) (\<lambda>_. fs_remove_file d) else io_return ()) (\<lambda>_.
      fs_rename m d))))) (\<lambda>_. ?I) ?I" for n e s
  proof (cases "n = DirNode")
    case False
    show ?thesis unfolding if_P [OF False] by (rule io_valid_fail)
  next
    case True
    then have n: "\<not> n \<noteq> DirNode" by simp
    show ?thesis unfolding if_not_P [OF n]
      by (rule io_valid_bind [OF lift io_valid_bind [OF kept_write [OF ne(2)] io_valid_bind [OF ex io_valid_bind [OF old kept_rename [OF far apart]]]]])
  qed
  show ?thesis
    unfolding cache_atomic_json_def Let_def d_def [symmetric] m_def [symmetric]
    by (rule io_valid_bind [OF kept_create_dir_all io_valid_bind [OF stat tail]])
qed

text \<open>What only reads.\<close>

lemma io_frame_lift: "io_frame (io_lift r)"
  by (rule io_frame_basic)

lemma io_frame_load_cache_index: "io_frame (load_cache_index cm)"
  unfolding load_cache_index_def
  by (intro io_frame_bind io_frame_catch io_frame_reads io_frame_if io_frame_basic)
    (auto split: option.split intro!: io_frame_bind io_frame_if io_frame_basic)

lemma io_frame_load_managed_index: "io_frame (load_managed_index cm i)"
  unfolding load_managed_index_def
  by (intro io_frame_bind io_frame_map_err io_frame_reads io_frame_if io_frame_basic)

lemma io_frame_referenced_by: "io_frame (referenced_by cm is)"
proof (induction "is")
  case Nil
  show ?case unfolding referenced_by.simps by (rule io_frame_basic)
next
  case (Cons i "is")
  then show ?case unfolding referenced_by.simps
    by (intro io_frame_bind io_frame_try io_frame_load_managed_index io_frame_basic)
qed

lemma io_frame_cache_scan: "io_frame (cm_scan cm root)"
  by (rule io_frame_scan_below)

lemma io_frame_indexed_candidates: "io_frame (indexed_candidates cm policy refs index)"
proof (induction cm policy refs index rule: indexed_candidates.induct)
  case (1 cm policy refs)
  show ?case unfolding indexed_candidates.simps by (rule io_frame_basic)
next
  case (2 cm policy refs p f index)
  show ?case
  proof (cases "p \<in> set refs")
    case True
    then show ?thesis using 2(1) by simp
  next
    case False
    show ?thesis unfolding indexed_candidates.simps if_not_P [OF False]
      by (intro io_frame_bind io_frame_try io_frame_find_stat 2(2) [OF False] io_frame_basic)
  qed
qed

lemma io_frame_find_temporary: "io_frame (find_temporary_files cm)"
  unfolding find_temporary_files_def by (intro io_frame_bind io_frame_cache_scan io_frame_basic)

lemma io_frame_cache_status: "io_frame (cache_status cm)"
  unfolding cache_status_def by (intro io_frame_bind io_frame_cache_scan io_frame_basic)

lemma referenced_cache_paths_valid:
  "io_valid (kept q m c) (kept q m c) (referenced_cache_paths cm) (\<lambda>_. kept q m c) (kept q m c)"
  unfolding referenced_cache_paths_def instance_list_def
  by (intro io_valid_bind [OF io_valid_bind [OF kept_create_dir_all io_valid_bind [OF io_valid_kept_frame io_valid_kept_frame]]
        io_valid_kept_frame] io_frame_read_dir io_frame_get_all io_frame_referenced_by)

lemma prune_candidates_valid:
  "io_valid (kept q m c) (kept q m c) (prune_candidates cm policy) (\<lambda>_. kept q m c) (kept q m c)"
  unfolding prune_candidates_def
proof (rule io_valid_bind [OF io_valid_kept_frame io_valid_bind [OF referenced_cache_paths_valid
      io_valid_bind [OF io_valid_kept_frame io_valid_bind [OF io_valid_kept_frame]]]])
  show "io_valid (kept q m c) (kept q m c) (let candidates = dedup_paths (sort_key ce_path (indexed @ temporary)) in
     case cy_max_size policy of
       None \<Rightarrow> io_return candidates
     | Some max_size \<Rightarrow>
         io_bind (cache_status cm) (\<lambda>usage.
         io_return (retain_excess (saturating_sub (cu_total_bytes usage) max_size) candidates)))
    (\<lambda>_. kept q m c) (kept q m c)" for indexed temporary
    unfolding Let_def
    by (rule io_valid_kept_frame) (auto split: option.split intro!: io_frame_bind io_frame_cache_status io_frame_basic)
qed (rule io_frame_load_cache_index io_frame_indexed_candidates io_frame_find_temporary)+

lemma with_lock_kept:
  "io_valid J I m (\<lambda>_. I) I \<Longrightarrow> io_valid J I (with_lock r m) (\<lambda>_. I) I"
  by (rule io_valid_with_lock) simp_all

text \<open>The temporary file of the index.\<close>

definition index_staging :: "cache_manager \<Rightarrow> string" where
  "index_staging cm = ''cache-index.json'' @ ''.'' @ show_nat (cm_process cm) @ ''.tmp''"

lemma prune_tail_valid:
  fixes cm q b
  assumes "\<And>c r. c \<in> set cs \<Longrightarrow> srp_new (ce_path c) = Inr r \<Longrightarrow> join_under r (cm_root cm) \<noteq> q"
    and far: "\<not> below (cm_root cm @ [''cache-index.json'']) q" "\<not> below (cm_root cm @ [index_staging cm]) q"
  defines "I \<equiv> kept q (cm_root cm @ [index_staging cm]) b"
  shows "io_valid I I (prune_apply cm dry_run cs) (\<lambda>_. I) I"
proof -
  have wr: "io_valid I I (write_cache_index cm index) (\<lambda>_. I) I" for index
    unfolding write_cache_index_def I_def index_staging_def
    by (rule cache_atomic_json_elsewhere) (use far in \<open>simp_all add: index_staging_def\<close>)
  have upd: "io_valid I I (if removed = [] then io_return ()
              else with_lock ''cache:index'' (
                   io_bind (load_cache_index cm) (\<lambda>latest.
                   write_cache_index cm (latest\<lparr>ci_files := foldl (\<lambda>m p. bt_remove p m) (ci_files latest) removed\<rparr>))))
      (\<lambda>_. I) I" for removed :: "string list"
  proof (cases "removed = []")
    case True
    show ?thesis unfolding if_P [OF True] by (rule io_valid_return)
  next
    case False
    show ?thesis unfolding if_not_P [OF False]
      by (rule with_lock_kept, rule io_valid_bind [OF _ wr], unfold I_def)
        (rule io_valid_kept_frame [OF io_frame_load_cache_index])
  qed
  have all: "io_valid I I (prune_all cm cs acc) (\<lambda>_. I) I" for acc
    unfolding I_def by (rule prune_all_valid [OF assms(1)])
  show ?thesis
  proof (cases dry_run)
    case True
    show ?thesis unfolding prune_apply_def Let_def if_P [OF True] by (rule io_valid_return)
  next
    case False
    show ?thesis unfolding prune_apply_def Let_def if_not_P [OF False]
    proof (rule io_valid_bind [OF all])
      fix x :: "CachePruneReport \<times> string list"
      show "io_valid I I (case x of (report', removed) \<Rightarrow>
        io_bind (if removed = [] then io_return ()
              else with_lock ''cache:index'' (
                   io_bind (load_cache_index cm) (\<lambda>latest.
                   write_cache_index cm (latest\<lparr>ci_files := foldl (\<lambda>m p. bt_remove p m) (ci_files latest) removed\<rparr>))))
          (\<lambda>_. io_return report')) (\<lambda>_. I) I"
        unfolding case_prod_unfold by (rule io_valid_bind [OF upd io_valid_return])
    qed
  qed
qed

lemma below_join_under:
  assumes "srp_new s = Inr r"
  shows "below (root @ [n]) (join_under r root) \<longleftrightarrow> hd (split_on CHR ''/'' s) = n"
proof -
  have "join_under r root = root @ split_on CHR ''/'' s" using assms by (auto simp: srp_new_Inr join_under_valid)
  moreover have "split_on CHR ''/'' s \<noteq> []" by (cases s) (auto split: list.split)
  ultimately show ?thesis by (cases "split_on CHR ''/'' s") (auto simp: below_def)
qed

end
