(* ===== verification/CacheProperties.thy ===== *)
theory CacheProperties
  imports Cache
begin

text \<open>
  Properties of the cache (\<^verbatim>\<open>cache/mod.rs\<close>) over whole runs: what the disk usage accounts for, what a
  healthy verification says about the files, which files are offered for removal, and what a registered
  index leaves behind.  Hypotheses on the tree state that it is a well-formed finite tree and that the
  directory listings are those of the tree.
\<close>

section \<open>The tree a walk reads\<close>

definition scannable :: "cache_manager \<Rightarrow> tree \<Rightarrow> bool" where
  "scannable cm t \<longleftrightarrow> tree_wf t \<and> finite (dom t) \<and>
     (\<forall>p. t p = Some DirNode \<longrightarrow> lists_directory (iv_entries (cm_instances cm)) p t) \<and>
     t (cm_root cm) = Some DirNode \<and> \<not> is_root (cm_root cm) \<and> card (dirs_below t (cm_root cm)) \<le> cm_fuel cm"

lemma scannable_run:
  assumes "w_faults w = []" "scannable cm (w_tree w)"
  shows "\<exists>found. cm_scan cm (cm_root cm) w = (Inr found, w) \<and> distinct (map fst found) \<and>
    set found = files_below (w_tree w) (cm_root cm)"
  using scan_below_run [OF assms(1), of "iv_entries (cm_instances cm)" "cm_root cm" "cm_fuel cm"] assms(2)
  by (auto simp: scannable_def)

lemma sum_list_distinct_fst:
  fixes f :: "'a \<times> 'b \<Rightarrow> 'c::comm_monoid_add"
  assumes "distinct (map fst xs)"
  shows "sum_list (map f xs) = (\<Sum>x \<in> set xs. f x)"
  using sum.distinct_set_conv_list [OF conjunct1 [OF assms [unfolded distinct_map]], of f] by simp

text \<open>C27: the disk usage accounts for every regular file below the cache root exactly once: with fuel for its
  directories the walk returns, the totals are the number and the size of these files, and the categories
  partition them.
\<close>

theorem cache_status_accounts:
  assumes "w_faults w = []" "scannable cm (w_tree w)"
  shows "\<exists>s. cache_status cm w = (Inr s, w) \<and>
    cu_total_files s = of_nat (card (files_below (w_tree w) (cm_root cm))) \<and>
    cu_total_bytes s = (\<Sum>x \<in> files_below (w_tree w) (cm_root cm). u64_of_length (snd x)) \<and>
    category_files s = cu_total_files s \<and> category_bytes s = cu_total_bytes s"
proof -
  from scannable_run [OF assms] obtain found where f: "cm_scan cm (cm_root cm) w = (Inr found, w)"
    "distinct (map fst found)" "set found = files_below (w_tree w) (cm_root cm)" by blast
  have "length found = card (files_below (w_tree w) (cm_root cm))"
    using distinct_card [OF conjunct1 [OF f(2) [unfolded distinct_map]]] f(3) by simp
  moreover have "sum_list (map (\<lambda>x. u64_of_length (snd x)) found) =
      (\<Sum>x \<in> files_below (w_tree w) (cm_root cm). u64_of_length (snd x))"
    unfolding sum_list_distinct_fst [OF f(2)] f(3) ..
  ultimately show ?thesis using f(1) by (simp add: cache_status_def io_bind_def usage_of_totals)
qed

text \<open>A world of one instance that uses one of two files of the cache.\<close>

definition sample_file :: "string \<Rightarrow> ManagedFile" where
  "sample_file p = \<lparr>mf_id = p, mf_location = InCache, mf_path = SafeRelativePath p, mf_kind = KindLibrary,
     mf_origin = OriginMinecraft, mf_expected_size = Some 3, mf_expected_hash = None, mf_source = None,
     mf_source_path = None, mf_repair_from = None, mf_verified_size = 3, mf_verified_modified = None\<rparr>"

definition sample_cache_index :: CacheIndex where
  "sample_cache_index = \<lparr>ci_format_version = 1, ci_files = [(''a.jar'', sample_file ''a.jar''), (''b.jar'', sample_file ''b.jar'')]\<rparr>"

definition sample_managed_index :: ManagedFileIndex where
  "sample_managed_index = mx_new ''one'' ''1.20.1'' [sample_file ''a.jar'']"

definition sample_entries :: entry_order where
  "sample_entries p t = (if p = [''i''] then [''one''] else if p = [''i'', ''one''] then [''instance.json'', ''runtime'']
     else if p = [''i'', ''one'', ''runtime''] then [''managed-files.json'']
     else if p = [''c''] then [''cache-index.json'', ''a.jar'', ''b.jar''] else [])"

definition sample_cm :: cache_manager where
  "sample_cm = \<lparr>cm_root = [''c''], cm_instances = sample_service\<lparr>iv_entries := sample_entries\<rparr>,
     cm_index_json = \<lparr>decode_json = (\<lambda>_. Inr sample_cache_index), encode_json = (\<lambda>_. Inr ''x'')\<rparr>,
     cm_managed_json = \<lparr>decode_json = (\<lambda>b. if b = ''m'' then Inr sample_managed_index else Inl ''syntax''), encode_json = (\<lambda>_. Inr ''m'')\<rparr>,
     cm_digests = sample_digests, cm_modified = (\<lambda>_ _. None), cm_len = (\<lambda>_. 0), cm_now = 0, cm_elapsed_millis = 0,
     cm_process = 7, cm_fuel = 4\<rparr>"

definition sample_cache_tree :: "string \<Rightarrow> tree" where
  "sample_cache_tree m = [[''i''] \<mapsto> DirNode, [''i'', ''one''] \<mapsto> DirNode, [''i'', ''one'', ''instance.json''] \<mapsto> FileNode ''d'',
     [''i'', ''one'', ''runtime''] \<mapsto> DirNode, [''i'', ''one'', ''runtime'', ''managed-files.json''] \<mapsto> FileNode m,
     [''c''] \<mapsto> DirNode, [''c'', ''cache-index.json''] \<mapsto> FileNode ''x'', [''c'', ''a.jar''] \<mapsto> FileNode ''abc'',
     [''c'', ''b.jar''] \<mapsto> FileNode ''abd'']"

definition sample_cache_world :: "string \<Rightarrow> world" where
  "sample_cache_world m = sample_store\<lparr>w_tree := sample_cache_tree m\<rparr>"

lemma sample_cache_world_simps [simp]:
  "w_faults (sample_cache_world m) = []" "w_crash (sample_cache_world m) = []"
  "w_tree (sample_cache_world m) = sample_cache_tree m" "cm_root sample_cm = [''c'']"
  by (simp_all add: sample_cache_world_def sample_store_def sample_cm_def)

lemma sample_tree_wf: "tree_wf (sample_cache_tree m)"
  by (auto simp: sample_cache_tree_def tree_wf_def is_dir_def is_root_def split: if_splits)

lemma sample_tree_finite: "finite (dom (sample_cache_tree m))"
  by (simp add: sample_cache_tree_def)

lemma sample_tree_lists: "sample_cache_tree m p = Some DirNode \<Longrightarrow> lists_directory sample_entries p (sample_cache_tree m)"
  by (auto simp: lists_directory_def sample_cache_tree_def sample_entries_def split: if_splits)

lemma sample_dirs: "dirs_below (sample_cache_tree m) [''c''] = {[]}"
  by (auto simp: dirs_below_def sample_cache_tree_def split: if_splits)

lemma sample_scannable: "scannable sample_cm (sample_cache_tree m)"
  unfolding scannable_def using sample_tree_wf sample_tree_finite sample_tree_lists
  by (auto simp: sample_cm_def sample_dirs is_root_def) (auto simp: sample_cache_tree_def)

theorem cache_status_accounts_witness:
  "\<exists>s. cache_status sample_cm (sample_cache_world ''m'') = (Inr s, sample_cache_world ''m'') \<and>
    category_files s = cu_total_files s"
  using cache_status_accounts [of "sample_cache_world ''m''" sample_cm] sample_scannable by auto

section \<open>Verification of the cache\<close>

lemma load_cache_index_same:
  assumes "w_faults w = []" "w_faults v = []" "w_tree v = w_tree w" "load_cache_index cm w = (Inr index, w1)"
  shows "load_cache_index cm v = (Inr index, v)"
proof -
  have "load_cache_index cm x = (fst (load_cache_index cm x), x)" if "w_faults x = []" for x
    using load_cache_index_quiet [OF that, of cm] by (metis prod.collapse)
  moreover have "fst (load_cache_index cm v) = fst (load_cache_index cm w)"
    using assms(1-3) by (auto simp: load_cache_index_def io_bind_def io_catch_def fs_read_def io_query_run split: sum.split prod.split option.split)
  ultimately show ?thesis using assms(2,4) by (metis fst_conv)
qed

lemma find_unindexed_run:
  assumes "w_faults w = []" "scannable cm (w_tree w)"
  shows "\<exists>found. find_unindexed_files cm indexed w = (Inr (unindexed_checks (cm_root cm) indexed found), w) \<and>
    set found = files_below (w_tree w) (cm_root cm)"
  using scannable_run [OF assms] by (auto simp: find_unindexed_files_def io_bind_def)

lemma unindexed_none:
  assumes "\<forall>c \<in> set (unindexed_checks root indexed found). fk_state c = Valid" "(q, n) \<in> set found"
  shows "relative_text root q = ''cache-index.json'' \<or> relative_text root q \<in> indexed"
proof (rule ccontr)
  assume a: "\<not> ?thesis"
  let ?c = "unexpected_file InCache KindOther
        ((if is_temporary (relative_text root q) then ''temporary:'' else ''unindexed:'') @ relative_text root q)
        (relative_text root q) n"
  have "?c \<in> set (unindexed_checks root indexed found)"
    using assms(2) a unfolding unindexed_checks_def by force
  with assms(1) show False by (auto simp: unexpected_file_def)
qed

text \<open>A program that reads without faults meets none afterwards.\<close>

definition io_quiet :: "'a io \<Rightarrow> bool" where
  "io_quiet m \<longleftrightarrow> (\<forall>w. w_faults w = [] \<longrightarrow> w_faults (snd (m w)) = [])"

lemma io_quietD: "io_quiet m \<Longrightarrow> m w = (r, w') \<Longrightarrow> w_faults w = [] \<Longrightarrow> w_faults w' = []"
  unfolding io_quiet_def by (metis snd_conv)

lemma io_quietI: "(\<And>w r w'. w_faults w = [] \<Longrightarrow> m w = (r, w') \<Longrightarrow> w_faults w' = []) \<Longrightarrow> io_quiet m"
  unfolding io_quiet_def by (metis prod.collapse)

lemma io_quiet_basic [intro]: "io_quiet (io_return x)" "io_quiet (io_lift y)" "io_quiet (Pair z)"
  by (simp_all add: io_quiet_def)

lemma io_quiet_bind [intro]: "io_quiet m \<Longrightarrow> (\<And>x. io_quiet (f x)) \<Longrightarrow> io_quiet (io_bind m f)"
  by (rule io_quietI) (auto simp: io_bind_def split: prod.splits sum.splits dest: io_quietD)

lemma io_quiet_try [intro]: "io_quiet m \<Longrightarrow> io_quiet (io_try m)"
  by (rule io_quietI) (auto simp: io_try_def split: prod.splits dest: io_quietD)

lemma io_quiet_map_err [intro]: "io_quiet m \<Longrightarrow> io_quiet (io_map_err g m)"
  by (rule io_quietI) (auto simp: io_map_err_def split: prod.splits dest: io_quietD)

lemma io_quiet_catch [intro]: "io_quiet m \<Longrightarrow> (\<And>e. io_quiet (h e)) \<Longrightarrow> io_quiet (io_catch m h)"
  by (rule io_quietI) (auto simp: io_catch_def split: prod.splits sum.splits dest: io_quietD)

lemma io_quiet_query [intro]: "io_quiet (io_query f)"
  by (rule io_quietI) (simp add: io_query_run)

lemma io_quiet_read [intro]: "io_quiet (fs_read p)"
  unfolding fs_read_def by (rule io_quiet_query)

lemma io_quiet_fail [intro]: "io_quiet (io_fail e)"
  by (simp add: io_quiet_def)

lemma io_quiet_verify_managed_file: "io_quiet (verify_managed_file cm a b full f)"
  unfolding verify_managed_file_def verify_entry_def find_stat_def verify_file_def Let_def
  by (intro io_quiet_bind io_quiet_catch io_quiet_query)
    (auto split: option.split prod.split intro!: io_quiet_bind io_quiet_try io_quiet_map_err)

lemma io_quiet_collect_all:
  assumes "\<And>x. io_quiet (f x)"
  shows "io_quiet (collect_all f xs)"
proof (induction xs)
  case Nil
  show ?case unfolding collect_all.simps by (rule io_quiet_basic)
next
  case (Cons x xs)
  then show ?case unfolding collect_all.simps by (intro io_quiet_bind io_quiet_try assms io_quiet_basic)
qed

lemma io_quiet_collect_results: "(\<And>x. io_quiet (f x)) \<Longrightarrow> io_quiet (collect_results f xs)"
  unfolding collect_results_def by (intro io_quiet_bind io_quiet_collect_all io_quiet_basic)

lemma io_frame_collect_results: "(\<And>x. io_frame (f x)) \<Longrightarrow> io_frame (collect_results f xs)"
  unfolding collect_results_def by (intro io_frame_bind io_frame_collect_all io_frame_basic)

text \<open>What a full verification of the index establishes.\<close>

definition indexed_content :: "cache_manager \<Rightarrow> tree \<Rightarrow> ManagedFile \<Rightarrow> bool" where
  "indexed_content cm t f \<longleftrightarrow>
     (let p = join_under (mf_path f) (cm_root cm) in
      \<exists>content. t p = Some (FileNode content) \<and>
        verify_content (cm_digests cm) p (mf_expected_size f) (mf_expected_hash f) content = Inr ())"

lemma collected_content:
  assumes "collect_results (verify_managed_file cm (cm_root cm) (cm_root cm) True) fs w = (Inr checks, w')"
    and "\<forall>c \<in> set checks. fk_state c = Valid" "f \<in> set fs" "srp_new (srp_str (mf_path f)) = Inr (mf_path f)"
  shows "indexed_content cm (w_tree w) f"
proof -
  from collect_results_Inr [OF io_frame_verify_managed_file assms(1)] have len: "length checks = length fs"
    and each: "\<And>i. i < length fs \<Longrightarrow> \<exists>v v'. w_tree v = w_tree w \<and>
      verify_managed_file cm (cm_root cm) (cm_root cm) True (fs ! i) v = (Inr (checks ! i), v')" by auto
  from assms(3) obtain i where i: "i < length fs" "fs ! i = f" by (auto simp: in_set_conv_nth)
  from each [OF i(1)] i(2) obtain v v' where v: "w_tree v = w_tree w"
    "verify_managed_file cm (cm_root cm) (cm_root cm) True f v = (Inr (checks ! i), v')" by auto
  have "fk_state (checks ! i) = Valid" using assms(2) i(1) len by simp
  moreover have base: "file_base (cm_root cm) (cm_root cm) f = cm_root cm"
    by (simp add: file_base_def split: ManagedFileLocation.split)
  ultimately show ?thesis
    using verify_managed_file_valid [OF v(2)] destination_below(3) [OF assms(4), of "cm_root cm"] v(1)
    by (simp add: indexed_content_def Let_def)
qed

text \<open>C26: a healthy full verification of the cache is sound and complete: every file of the index is a regular
  file of the expected size and digest, and every regular file below the cache root is the index
  document itself or a file of the index.
\<close>

theorem full_verification_sound:
  assumes w: "w_faults w = []" "scannable cm (w_tree w)"
    and index: "load_cache_index cm w = (Inr index, w1)"
    and paths: "\<forall>f \<in> snd ` set (ci_files index). srp_new (srp_str (mf_path f)) = Inr (mf_path f)"
    and run: "cache_verify cm True w = (Inr report, w')"
    and healthy: "is_healthy report" "length (vr_checks report) < 2 ^ 64"
  shows "(\<forall>f \<in> snd ` set (ci_files index). indexed_content cm (w_tree w) f) \<and>
    (\<forall>(q, n) \<in> files_below (w_tree w) (cm_root cm).
       relative_text (cm_root cm) q \<in> insert ''cache-index.json'' (set (bt_keys (ci_files index))))"
proof -
  obtain w0 where w0: "emit ''CacheVerificationStarted'' [show_bool True] w = (Inr (), w0)" "w_faults w0 = []" "w_tree w0 = w_tree w"
    using w(1) by (simp add: emit_def)
  have load: "load_cache_index cm w0 = (Inr index, w0)" by (rule load_cache_index_same [OF w(1) w0(2,3) index])
  from run w0(1) load obtain checks w2 unindexed w3 where
    c: "collect_results (verify_managed_file cm (cm_root cm) (cm_root cm) True) (map snd (ci_files index)) w0 = (Inr checks, w2)"
    and u: "find_unindexed_files cm (set (bt_keys (ci_files index))) w2 = (Inr unindexed, w3)"
    and report: "report = build_report ''cache'' (checks @ unindexed) (cm_elapsed_millis cm)"
    by (auto simp: cache_verify_def io_bind_eq_Inr Let_def)
  have "length (checks @ unindexed) < 2 ^ 64" using healthy(2) by (simp add: report build_report_def)
  note valid = healthy_checks [OF healthy(1) [unfolded report] this]
  have t2: "w_tree w2 = w_tree w"
    using io_frameD [OF io_frame_collect_results [OF io_frame_verify_managed_file] c] w0(3) by simp
  have quiet: "w_faults w2 = []"
    using io_quietD [OF io_quiet_collect_results [OF io_quiet_verify_managed_file] c w0(2)] .
  have "indexed_content cm (w_tree w) f" if "f \<in> snd ` set (ci_files index)" for f
    using collected_content [OF c, of f] valid that paths w0(3) by auto
  moreover have "relative_text (cm_root cm) q \<in> insert ''cache-index.json'' (set (bt_keys (ci_files index)))"
    if "(q, n) \<in> files_below (w_tree w) (cm_root cm)" for q n
  proof -
    from find_unindexed_run [OF quiet, of cm] w(2) t2 obtain found where
      "find_unindexed_files cm (set (bt_keys (ci_files index))) w2 =
        (Inr (unindexed_checks (cm_root cm) (set (bt_keys (ci_files index))) found), w2)"
      and s: "set found = files_below (w_tree w) (cm_root cm)" by fastforce
    with u have f: "unindexed = unindexed_checks (cm_root cm) (set (bt_keys (ci_files index))) found" "(q, n) \<in> set found"
      using that by simp_all
    from unindexed_none [OF _ f(2), of "cm_root cm" "set (bt_keys (ci_files index))"] valid f(1)
    show ?thesis by auto
  qed
  ultimately show ?thesis by blast
qed

text \<open>A cache whose files are all indexed and intact.\<close>

lemma sample_index_loaded: "load_cache_index sample_cm (sample_cache_world ''m'') = (Inr sample_cache_index, sample_cache_world ''m'')"
proof -
  have "fst (load_cache_index sample_cm (sample_cache_world ''m'')) = Inr sample_cache_index" by code_simp
  moreover have "snd (load_cache_index sample_cm (sample_cache_world ''m'')) = sample_cache_world ''m''"
    by (rule load_cache_index_quiet) simp
  ultimately show ?thesis by (simp add: prod_eq_iff)
qed

lemma sample_verified:
  "case fst (cache_verify sample_cm True (sample_cache_world ''m'')) of Inl _ \<Rightarrow> False | Inr r \<Rightarrow>
     is_healthy r \<and> length (vr_checks r) = 2"
  by code_simp

lemma sample_paths: "\<forall>f \<in> snd ` set (ci_files sample_cache_index). srp_new (srp_str (mf_path f)) = Inr (mf_path f)"
  by code_simp

theorem full_verification_sound_witness:
  "\<exists>report w'. cache_verify sample_cm True (sample_cache_world ''m'') = (Inr report, w') \<and>
    (\<forall>f \<in> {sample_file ''a.jar'', sample_file ''b.jar''}. indexed_content sample_cm (sample_cache_tree ''m'') f)"
proof -
  obtain report w' where run: "cache_verify sample_cm True (sample_cache_world ''m'') = (Inr report, w')"
    "is_healthy report" "length (vr_checks report) = 2"
    using sample_verified by (cases "cache_verify sample_cm True (sample_cache_world ''m'')") (auto split: sum.splits)
  have len: "length (vr_checks report) < 2 ^ 64" using run(3) by simp
  have sc: "scannable sample_cm (w_tree (sample_cache_world ''m''))" by (simp add: sample_scannable)
  from full_verification_sound [OF sample_cache_world_simps(1) sc sample_index_loaded sample_paths run(1,2) len]
  have "\<forall>f \<in> snd ` set (ci_files sample_cache_index). indexed_content sample_cm (sample_cache_tree ''m'') f" by simp
  with run(1) show ?thesis by (auto simp: sample_cache_index_def)
qed

section \<open>Pruning\<close>


lemma sample_references: "fst (referenced_cache_paths sample_cm (sample_cache_world ''m'')) = Inr [''a.jar'']"
  by code_simp

lemma sample_safe: "srp_new ''a.jar'' = Inr (SafeRelativePath ''a.jar'')" "\<not> is_temporary ''a.jar''"
  "hd (split_on CHR ''/'' ''a.jar'') \<notin> {''cache-index.json'', index_staging sample_cm}"
  by code_simp+

lemma sample_place: "join_under (SafeRelativePath ''a.jar'') [''c''] = [''c'', ''a.jar'']"
  by code_simp

text \<open>Pruning the sample removes the other file.\<close>

lemma sample_pruned:
  "w_tree (snd (cache_prune sample_cm \<lparr>cy_max_size = None, cy_max_age = None\<rparr> False (sample_cache_world ''m''))) [''c'', ''b.jar''] = None"
  by code_simp


text \<open>Candidates without limits: every unreferenced file of the index, every temporary file.\<close>

lemma dedup_paths_set: "ce_path ` set (dedup_paths cs) = ce_path ` set cs"
  by (induction cs rule: dedup_paths.induct) auto

lemma io_quiet_find_stat: "io_quiet (find_stat cm p)"
  unfolding find_stat_def by (intro io_quiet_catch io_quiet_query) auto

lemma find_stat_run:
  assumes "w_faults w = []" "w_tree w p = Some n"
  shows "find_stat cm p w = (Inr (Some (n, cm_modified cm p (w_tree w))), w)"
  using assms by (simp add: find_stat_def io_catch_def io_query_run)

lemma find_stat_quiet:
  assumes "w_faults w = []"
  shows "snd (find_stat cm p w) = w"
  using assms by (auto simp: find_stat_def io_catch_def io_query_run split: sum.split option.split)

lemma io_try_quiet: "snd (m w) = w \<Longrightarrow> io_try m w = (Inr (fst (m w)), w)"
  by (cases "m w") (simp add: io_try_def)

lemma indexed_candidates_run:
  assumes "w_faults w = []" "cy_max_age policy = None"
  shows "\<exists>cs. indexed_candidates cm policy referenced index w = (Inr cs, w) \<and>
    (\<forall>(p, f) \<in> set index. p \<notin> set referenced \<longrightarrow>
       (\<exists>c. w_tree w (join_under (mf_path f) (cm_root cm)) = Some (FileNode c)) \<longrightarrow> p \<in> ce_path ` set cs)"
proof (induction index)
  case (Cons x index)
  obtain p f where x: "x = (p, f)" by fastforce
  from Cons.IH obtain cs where cs: "indexed_candidates cm policy referenced index w = (Inr cs, w)"
    "\<forall>(p, f) \<in> set index. p \<notin> set referenced \<longrightarrow>
       (\<exists>c. w_tree w (join_under (mf_path f) (cm_root cm)) = Some (FileNode c)) \<longrightarrow> p \<in> ce_path ` set cs" by blast
  show ?case
  proof (cases "p \<in> set referenced")
    case True
    with cs x show ?thesis by auto
  next
    case False
    let ?q = "join_under (mf_path f) (cm_root cm)"
    define stat where "stat = fst (find_stat cm ?q w)"
    define out where "out = (case stat of
          Inr (Some (n, modified)) \<Rightarrow>
            if \<not> is_file_node n \<or> too_young cm policy modified then cs
            else \<lparr>ce_path = p, ce_bytes = node_len cm n, ce_temporary = False\<rparr> # cs
        | _ \<Rightarrow> cs)"
    have "io_try (find_stat cm ?q) w = (Inr stat, w)"
      using find_stat_quiet [OF assms(1), of cm ?q] by (simp add: io_try_quiet stat_def)
    then have run: "indexed_candidates cm policy referenced ((p, f) # index) w = (Inr out, w)"
      unfolding indexed_candidates.simps if_not_P [OF False] out_def by (simp add: io_bind_def cs(1))
    have grow: "ce_path ` set cs \<subseteq> ce_path ` set out"
      by (auto simp: out_def split: sum.splits option.splits)
    have "p \<in> ce_path ` set out" if "w_tree w ?q = Some (FileNode c)" for c
      using find_stat_run [OF assms(1) that, of cm] assms(2)
      by (simp add: out_def stat_def is_file_node_def too_young_def)
    with run grow cs(2) x show ?thesis by fastforce
  qed
qed simp

lemma io_quiet_entries: "w_faults w = [] \<Longrightarrow> snd (load_managed_index cm i w) = w"
  by (auto simp: load_managed_index_def io_bind_def io_map_err_def fs_read_def io_query_run split: sum.split prod.split)

lemma referenced_by_run:
  assumes "w_faults w = []"
  shows "referenced_by cm is w =
    (Inr (concat (map (\<lambda>i. case fst (load_managed_index cm i w) of Inl _ \<Rightarrow> []
        | Inr index \<Rightarrow> map (\<lambda>f. srp_str (mf_path f)) (filter (\<lambda>f. mf_location f = InCache) (mx_files index))) is)), w)"
proof (induction "is")
  case (Cons i "is")
  have "io_try (load_managed_index cm i) w = (Inr (fst (load_managed_index cm i w)), w)"
    by (rule io_try_quiet) (rule io_quiet_entries [OF assms])
  with Cons.IH show ?case by (simp add: io_bind_def)
qed simp

lemma io_quiet_step: "io_quiet (io_step f)"
  by (rule io_quietI) (auto simp: io_step_def next_fault_def set_tree_def split: sum.splits)

lemma io_quiet_get_all: "io_quiet (get_all sv names)"
proof (induction names)
  case Nil
  show ?case unfolding get_all.simps by (rule io_quiet_basic)
next
  case (Cons i names)
  have "io_quiet (instance_get sv (iid_str i))"
    using instance_get_quiet by (auto simp: io_quiet_def)
  with Cons show ?case unfolding get_all.simps by (intro io_quiet_bind io_quiet_basic)
qed

lemma io_quiet_instance_list: "io_quiet (instance_list sv)"
  unfolding instance_list_def fs_create_dir_all_def fs_read_dir_def
  by (intro io_quiet_bind io_quiet_step io_quiet_query io_quiet_get_all)

lemma instance_list_keeps:
  assumes "instance_list sv w = (Inr is, w1)" "w_tree w q = Some (FileNode c)"
  shows "w_tree w1 q = Some (FileNode c)"
proof -
  have start: "kept q q c (w_tree w)" using assms(2) by (simp add: kept_def)
  have "io_valid (kept q q c) (kept q q c) (instance_list sv) (\<lambda>_. kept q q c) (kept q q c)"
    unfolding instance_list_def
    by (intro io_valid_bind [OF kept_create_dir_all io_valid_bind [OF io_valid_kept_frame io_valid_kept_frame]]
        io_frame_read_dir io_frame_get_all)
  from io_validD(2) [OF this start assms(1)] show ?thesis by (simp add: kept_def)
qed

definition refers_to :: "ManagedFileIndex \<Rightarrow> string \<Rightarrow> bool" where
  "refers_to index p \<longleftrightarrow> (\<exists>f \<in> set (mx_files index). mf_location f = InCache \<and> srp_str (mf_path f) = p)"

definition no_limits :: CachePolicy where
  "no_limits = \<lparr>cy_max_size = None, cy_max_age = None\<rparr>"

text \<open>C28: an index of an instance that cannot be loaded - it is missing, damaged, or of another format - protects
  nothing: a file of the cache index that no readable index refers to is offered for removal, also
  when the file is in use by an instance whose index could not be read.  The documentation of \<open>prune\<close> promises that
  references always override the limits; the error of the index is dropped instead of ending the run.
\<close>

theorem unreadable_index_unprotected:
  assumes w: "w_faults w = []"
    and index: "load_cache_index cm w = (Inr index, w0)" "(p, f) \<in> set (ci_files index)"
    and here: "w_tree w (join_under (mf_path f) (cm_root cm)) = Some (FileNode c)"
    and insts: "instance_list (cm_instances cm) w = (Inr is, w1)"
    and unread: "\<forall>i \<in> set is. \<forall>x. fst (load_managed_index cm i w1) = Inr x \<longrightarrow> \<not> refers_to x p"
    and run: "cache_prune cm no_limits True w = (Inr report, w')"
  shows "p \<in> ce_path ` set (cr_candidates report)"
proof -
  have w0: "w0 = w" using load_cache_index_quiet [OF w, of cm] index(1) by simp
  have w1: "w_faults w1 = []" by (rule io_quietD [OF io_quiet_instance_list insts w])
  obtain referenced where refs: "referenced_cache_paths cm w = (Inr referenced, w1)" and out: "p \<notin> set referenced"
  proof
    show "referenced_cache_paths cm w = (Inr (concat (map (\<lambda>i. case fst (load_managed_index cm i w1) of Inl _ \<Rightarrow> []
        | Inr index \<Rightarrow> map (\<lambda>f. srp_str (mf_path f)) (filter (\<lambda>f. mf_location f = InCache) (mx_files index))) is)), w1)"
      using insts by (simp add: referenced_cache_paths_def io_bind_Inr referenced_by_run [OF w1])
    show "p \<notin> set (concat (map (\<lambda>i. case fst (load_managed_index cm i w1) of Inl _ \<Rightarrow> []
        | Inr index \<Rightarrow> map (\<lambda>f. srp_str (mf_path f)) (filter (\<lambda>f. mf_location f = InCache) (mx_files index))) is))"
      using unread by (auto simp: refers_to_def split: sum.splits) metis
  qed
  from instance_list_keeps [OF insts here] have here1: "w_tree w1 (join_under (mf_path f) (cm_root cm)) = Some (FileNode c)" .
  have "cy_max_age no_limits = None" by (simp add: no_limits_def)
  from indexed_candidates_run [OF w1 this, of cm referenced "ci_files index"] obtain cs where
    cs: "indexed_candidates cm no_limits referenced (ci_files index) w1 = (Inr cs, w1)" "p \<in> ce_path ` set cs"
    using index(2) out here1 by fast
  obtain temporary w2 where t: "find_temporary_files cm w1 = (Inr temporary, w2)"
    and r: "cr_candidates report = dedup_paths (sort_key ce_path (cs @ temporary))"
    using run index(1) w0 refs cs(1)
    by (auto simp: cache_prune_def prune_candidates_def io_bind_eq_Inr prune_apply_def no_limits_def Let_def)
  show ?thesis unfolding r dedup_paths_set using cs(2) by auto
qed

lemma sample_damaged: "case fst (instance_list (cm_instances sample_cm) (sample_cache_world ''?'')) of Inl _ \<Rightarrow> False
    | Inr is \<Rightarrow> map it_path is = [[''i'', ''one'']]"
  "is_ok (fst (cache_prune sample_cm no_limits True (sample_cache_world ''?'')))"
  by code_simp+

theorem unreadable_index_unprotected_witness:
  "\<exists>report w'. cache_prune sample_cm no_limits True (sample_cache_world ''?'') = (Inr report, w') \<and>
     ''a.jar'' \<in> ce_path ` set (cr_candidates report)"
proof -
  let ?w = "sample_cache_world ''?''"
  obtain report w' where run: "cache_prune sample_cm no_limits True ?w = (Inr report, w')"
    using sample_damaged(2) by (auto simp: is_ok_iff prod_eq_iff)
  obtain "is" w1 where l: "instance_list (cm_instances sample_cm) ?w = (Inr is, w1)" "map it_path is = [[''i'', ''one'']]"
    using sample_damaged(1) by (cases "instance_list (cm_instances sample_cm) ?w") (auto split: sum.splits)
  have f: "w_faults w1 = []" by (rule io_quietD [OF io_quiet_instance_list l(1)]) simp
  have m: "w_tree w1 [''i'', ''one'', ''runtime'', ''managed-files.json''] = Some (FileNode ''?'')"
    by (rule instance_list_keeps [OF l(1)]) (simp add: sample_cache_tree_def)
  have bad: "fst (load_managed_index sample_cm i w1) \<noteq> Inr x" if "i \<in> set is" for i x
  proof -
    from l(2) that have "it_path i = [''i'', ''one'']" by auto
    then have "fs_read (it_path i @ [''runtime'', ''managed-files.json'']) w1 = (Inr ''?'', w1)"
      using read_file_run [OF f m] by simp
    then show ?thesis by (simp add: load_managed_index_def io_bind_def io_map_err_def sample_cm_def)
  qed
  have index: "load_cache_index sample_cm ?w = (Inr sample_cache_index, ?w)"
  proof -
    have "fst (load_cache_index sample_cm ?w) = Inr sample_cache_index" by code_simp
    moreover have "snd (load_cache_index sample_cm ?w) = ?w" by (rule load_cache_index_quiet) simp
    ultimately show ?thesis by (simp add: prod_eq_iff)
  qed
  have here: "w_tree ?w (join_under (mf_path (sample_file ''a.jar'')) (cm_root sample_cm)) = Some (FileNode ''abc'')"
    by (simp add: sample_place sample_file_def) (simp add: sample_cache_tree_def)
  have "(''a.jar'', sample_file ''a.jar'') \<in> set (ci_files sample_cache_index)" by (simp add: sample_cache_index_def)
  from unreadable_index_unprotected [OF sample_cache_world_simps(1) index this here l(1) _ run] bad
  have "''a.jar'' \<in> ce_path ` set (cr_candidates report)" by blast
  with run show ?thesis by blast
qed

section \<open>The index\<close>

text \<open>A successful replacement leaves the new document.\<close>

lemma cache_atomic_json_sets:
  fixes cm root name
  defines "d \<equiv> root @ [name]" and "m \<equiv> root @ [name @ ''.'' @ show_nat (cm_process cm) @ ''.tmp'']"
  shows "io_valid (\<lambda>_. True) (\<lambda>t. \<forall>r. t m \<noteq> Some (SymlinkNode r)) (cache_atomic_json cm root name (Inr b))
    (\<lambda>_ t. t d = Some (FileNode b)) (\<lambda>_. True)"
proof -
  let ?J = "\<lambda>_ :: tree. True" and ?L = "\<lambda>t :: tree. \<forall>r. t m \<noteq> Some (SymlinkNode r)" and ?S = "\<lambda>t :: tree. t m = Some (FileNode b)"
  have dm: "d \<noteq> m" by (simp add: d_def m_def)
  have mk: "io_valid ?J ?L (fs_create_dir_all root) (\<lambda>_. ?L) ?J"
    unfolding fs_create_dir_all_def by (rule io_valid_step) (auto simp: create_dir_all_tree_def split: if_splits)
  have stat: "io_valid ?J ?L (fs_symlink_metadata root) (\<lambda>_. ?L) ?J" by (rule io_valid_frame) auto
  have wr: "io_valid ?J ?L (fs_write m b) (\<lambda>_. ?S) ?J"
    by (rule io_valid_write) (use write_target_plain in \<open>auto dest!: write_target_plain\<close>)
  have ex: "io_valid ?J ?S (fs_try_exists d) (\<lambda>_. ?S) ?J" by (rule io_valid_frame) auto
  have rq: "io_valid ?J ?S (require_real_file d s) (\<lambda>_. ?S) ?J" for s
    by (rule io_valid_frame) (auto intro: require_real_file_frame)
  have rm: "io_valid ?J ?S (fs_remove_file d) (\<lambda>_. ?S) ?J"
    unfolding fs_remove_file_def by (rule io_valid_step) (use dm in \<open>auto dest!: remove_file_tree_Inr\<close>)
  have old: "io_valid ?J ?S (if c then io_bind (require_real_file d s) (\<lambda>_. fs_remove_file d) else io_return ()) (\<lambda>_. ?S) ?J" for c s
  proof (cases c)
    case True
    show ?thesis unfolding if_P [OF True] by (rule io_valid_bind [OF rq rm])
  next
    case False
    show ?thesis unfolding if_not_P [OF False] by (rule io_valid_return)
  qed
  have ren: "io_valid ?J ?S (fs_rename m d) (\<lambda>_ t. t d = Some (FileNode b)) ?J"
    unfolding fs_rename_def
    by (rule io_valid_step) (auto simp: rename_tree_def move_tree_def split: if_splits)
  have tail: "io_valid ?J ?L (if n \<noteq> DirNode then io_fail e
      else io_bind (io_lift (Inr b)) (\<lambda>b. io_bind (fs_write m b) (\<lambda>_. io_bind (fs_try_exists d) (\<lambda>present.
      io_bind (if present then io_bind (require_real_file d s) (\<lambda>_. fs_remove_file d) else io_return ()) (\<lambda>_.
      fs_rename m d))))) (\<lambda>_ t. t d = Some (FileNode b)) ?J" for n e s
  proof (cases "n = DirNode")
    case False
    show ?thesis unfolding if_P [OF False] by (rule io_valid_fail) simp
  next
    case True
    then have n: "\<not> n \<noteq> DirNode" by simp
    have "io_valid ?J ?L (io_lift (Inr b)) (\<lambda>x t. ?L t \<and> x = b) ?J" by (rule io_valid_lift) auto
    moreover have "io_valid ?J (\<lambda>t. ?L t \<and> x = b) (io_bind (fs_write m x) (\<lambda>_. io_bind (fs_try_exists d) (\<lambda>present.
      io_bind (if present then io_bind (require_real_file d s) (\<lambda>_. fs_remove_file d) else io_return ()) (\<lambda>_.
      fs_rename m d)))) (\<lambda>_ t. t d = Some (FileNode b)) ?J" for x
    proof (cases "x = b")
      case True
      show ?thesis unfolding True
        by (rule io_valid_conseq [OF io_valid_bind [OF wr io_valid_bind [OF ex io_valid_bind [OF old ren]]]]) auto
    qed (simp add: io_valid_def)
    ultimately show ?thesis unfolding if_not_P [OF n] by (rule io_valid_bind)
  qed
  show ?thesis
    unfolding cache_atomic_json_def Let_def d_def [symmetric] m_def [symmetric]
    by (rule io_valid_bind [OF mk io_valid_bind [OF stat tail]])
qed

lemma registered_files_wf: "bt_wf m \<Longrightarrow> bt_wf (registered_files fs m)"
proof -
  have "bt_wf m \<Longrightarrow> bt_wf (foldl (\<lambda>m f. bt_insert (srp_str (mf_path f)) f m) m gs)" for gs :: "ManagedFile list"
    by (induction gs arbitrary: m) simp_all
  then show "bt_wf m \<Longrightarrow> bt_wf (registered_files fs m)" by (simp add: registered_files_def)
qed

lemma registered_files_get:
  assumes "bt_wf m"
  shows "bt_get (registered_files fs m) p =
    (case map_of (rev (map (\<lambda>f. (srp_str (mf_path f), f)) (filter (\<lambda>f. mf_location f = InCache) fs))) p of
       None \<Rightarrow> bt_get m p | Some f \<Rightarrow> Some f)"
proof -
  have "bt_get (foldl (\<lambda>m f. bt_insert (srp_str (mf_path f)) f m) m gs) p =
    (case map_of (rev (map (\<lambda>f. (srp_str (mf_path f), f)) gs)) p of None \<Rightarrow> bt_get m p | Some f \<Rightarrow> Some f)"
    for gs :: "ManagedFile list"
    using assms
    by (induction gs arbitrary: m) (auto simp: bt_get_insert map_add_def split: option.split)
  then show ?thesis by (simp add: registered_files_def)
qed

text \<open>What a registration records about one path: the last file that names it, or what was there before.\<close>

definition registered_object :: "ManagedFileIndex \<Rightarrow> CacheIndex \<Rightarrow> SafeRelativePath \<Rightarrow> ManagedFile option" where
  "registered_object managed index p =
     (case map_of (rev (map (\<lambda>f. (srp_str (mf_path f), f)) (filter (\<lambda>f. mf_location f = InCache) (mx_files managed))))
        (srp_str p) of
        None \<Rightarrow> bt_get (ci_files index) (srp_str p)
      | Some f \<Rightarrow> Some f)"

text \<open>What \<open>register\<close> records is what \<open>object\<close> returns: after a successful registration every cache file of the
  managed index is found under its path, and the other entries of the cache index are unchanged, when decoding
  inverts encoding.
\<close>

theorem register_then_object:
  assumes run: "cache_register cm managed w = (Inr (), w')" and w: "w_faults w = []"
    and index: "load_cache_index cm w = (Inr index, w0)" "bt_wf (ci_files index)"
    and link: "\<forall>r. w_tree w (cm_root cm @ [index_staging cm]) \<noteq> Some (SymlinkNode r)"
    and new: "new = index\<lparr>ci_files := registered_files (mx_files managed) (ci_files index)\<rparr>"
    and codec: "encode_json (cm_index_json cm) new = Inr bytes" "decode_json (cm_index_json cm) bytes = Inr new"
    and v: "w_tree v = w_tree w'" "w_faults v = []"
  shows "cache_object cm p v = (Inr (registered_object managed index p), v)"
proof -
  let ?w = "w\<lparr>w_locks := insert ''cache:index'' (w_locks w)\<rparr>"
  have load: "load_cache_index cm ?w = (Inr index, ?w)" by (rule load_cache_index_same [OF w _ _ index(1)]) (simp_all add: w)
  from run obtain w2 where r: "write_cache_index cm new ?w = (Inr (), w2)" "w_tree w' = w_tree w2"
    by (auto simp: cache_register_def with_lock_def io_bind_Inr [of "load_cache_index cm" ?w index ?w, OF load] new split: if_splits prod.splits)
  from r(1) have "cache_atomic_json cm (cm_root cm) ''cache-index.json'' (Inr bytes) ?w = (Inr (), w2)"
    by (simp add: write_cache_index_def codec(1))
  from io_validD(2) [OF cache_atomic_json_sets _ this refl] link r(2) v(1)
  have doc: "w_tree v (cm_root cm @ [''cache-index.json'']) = Some (FileNode bytes)"
    by (simp add: index_staging_def)
  have ver: "ci_format_version index = CACHE_INDEX_VERSION"
    using index(1) by (auto simp: load_cache_index_def io_bind_eq_Inr cache_index_default_def split: option.splits if_splits)
  have rd: "io_catch (io_bind (fs_read (cm_root cm @ [''cache-index.json''])) (\<lambda>bytes. io_return (Some bytes)))
      (\<lambda>e. if is_not_found e then io_return None else io_fail e) v = (Inr (Some bytes), v)"
    using read_file_run [OF v(2) doc] by (simp add: io_catch_def io_bind_def)
  have "load_cache_index cm v = (Inr new, v)"
    unfolding load_cache_index_def io_bind_def [of "io_catch _ _"] by (simp add: rd io_bind_def codec(2)) (simp add: new ver)
  then show ?thesis
    by (simp add: cache_object_def io_bind_def new registered_files_get [OF index(2)] registered_object_def)
qed

text \<open>A cache without an index.\<close>

end
