(* ===== verification/UpdatePlan.thy ===== *)
theory UpdatePlan
  imports CacheProperties Sync
begin

text \<open>
  Planning an update of a provider instance (\<^verbatim>\<open>providers/update.rs\<close> and the planning half of
  \<^verbatim>\<open>providers/service.rs\<close>): the desired files of a declaration and its enabled components are compared
  with the files that the managed index of the instance records for this provider instance.

  The main results: the file actions of a plan turn the recorded state into the desired one, they
  partition the desired files, and planning against an index that records the desired files
  finds nothing to do.

  The install plan of the game itself (\<^verbatim>\<open>minecraft/install.rs\<close>) is an argument of \<open>plan_update_with\<close>.
\<close>

section \<open>Data\<close>

record UpdateFileAction =
  ua_id :: string
  ua_path :: string
  ua_component_id :: "string option"
  ua_size :: u64
  ua_sha256 :: FileHash

record UpdateRemoval =
  ur_id :: string
  ur_path :: string
  ur_component_id :: "string option"

record OptionalComponentChange =
  oc_component_id :: string
  oc_enabled :: bool

record DesiredProviderFile =
  df_file :: ProviderFile
  df_component_id :: "string option"

record UpdatePlan =
  up_instance :: ProviderInstanceId
  up_local_instance_id :: InstanceId
  up_from_revision :: u64
  up_to_revision :: u64
  up_keep :: "UpdateFileAction list"
  up_downloads :: "UpdateFileAction list"
  up_replacements :: "UpdateFileAction list"
  up_removals :: "UpdateRemoval list"
  up_optional_changes :: "OptionalComponentChange list"
  up_base_downloads :: u64
  up_base_download_size :: "u64 option"
  up_download_size :: u64
  up_base_game_changed :: bool
  up_desired_files :: "DesiredProviderFile list"
  up_selections :: ComponentSelections
  up_expected_selections :: ComponentSelections

definition has_changes :: "UpdatePlan \<Rightarrow> bool" where
  "has_changes p \<longleftrightarrow>
     up_from_revision p \<noteq> up_to_revision p \<or> up_base_game_changed p \<or> up_downloads p \<noteq> [] \<or>
     up_replacements p \<noteq> [] \<or> up_removals p \<noteq> [] \<or> up_optional_changes p \<noteq> []"

section \<open>Planning\<close>

definition desired_provider_files ::
    "ProviderInstanceDefinition \<Rightarrow> ResolvedComponentSet \<Rightarrow> (ProviderFile \<times> ManagedFileOrigin) list" where
  "desired_provider_files d resolved =
     map (\<lambda>f. (f, OriginProvider)) (pd_files d) @
     concat (map (\<lambda>c. if rs_is_enabled resolved (pc_id c)
                      then map (\<lambda>f. (f, OriginComponent (cid_str (pc_id c)))) (pc_files c) else [])
               (pd_components d))"

definition component_origin_id :: "ManagedFileOrigin \<Rightarrow> string option" where
  "component_origin_id origin = (case origin of OriginComponent i \<Rightarrow> Some i | _ \<Rightarrow> None)"

definition managed_provider_file_id :: "ProviderFile \<Rightarrow> ManagedFileOrigin \<Rightarrow> string" where
  "managed_provider_file_id f origin =
     (case origin of OriginComponent i \<Rightarrow> ''component:'' @ i @ '':'' @ pf_id f | _ \<Rightarrow> pf_id f)"

definition update_action :: "DesiredProviderFile \<Rightarrow> string \<Rightarrow> UpdateFileAction" where
  "update_action desired p =
     \<lparr>ua_id = pf_id (df_file desired), ua_path = p, ua_component_id = df_component_id desired,
      ua_size = pf_size (df_file desired), ua_sha256 = pf_sha256 (df_file desired)\<rparr>"

definition is_provider_owned :: "ManagedFile \<Rightarrow> ProviderInstanceId \<Rightarrow> bool" where
  "is_provider_owned f key \<longleftrightarrow>
     (case mf_origin f of OriginProvider \<Rightarrow> True | OriginComponent _ \<Rightarrow> True | _ \<Rightarrow> False) \<and>
     contains_str (mf_id f) ('':'' @ pid_str (pi_provider_id key) @ '':'' @ iid_str (pi_instance_id key) @ '':'')"

definition minecraft_path :: "SafeRelativePath \<Rightarrow> string" where
  "minecraft_path p = ''.minecraft/'' @ srp_str p"

text \<open>The two maps that are compared, and the three lists of actions.\<close>

definition current_files :: "ManagedFile list \<Rightarrow> ProviderInstanceId \<Rightarrow> (string, ManagedFile) btree" where
  "current_files managed key =
     bt_collect (map (\<lambda>f. (srp_str (mf_path f), f)) (filter (\<lambda>f. mf_location f = InInstance \<and> is_provider_owned f key) managed))"

definition desired_paths :: "DesiredProviderFile list \<Rightarrow> (string, DesiredProviderFile) btree" where
  "desired_paths desired = bt_collect (map (\<lambda>d. (minecraft_path (pf_path (df_file d)), d)) desired)"

definition same_content :: "ManagedFile \<Rightarrow> DesiredProviderFile \<Rightarrow> bool" where
  "same_content existing desired \<longleftrightarrow>
     mf_expected_size existing = Some (pf_size (df_file desired)) \<and>
     mf_expected_hash existing = Some (pf_sha256 (df_file desired))"

fun classify ::
    "(string, ManagedFile) btree \<Rightarrow> (string \<times> DesiredProviderFile) list \<Rightarrow>
     UpdateFileAction list \<times> UpdateFileAction list \<times> UpdateFileAction list" where
  "classify current [] = ([], [], [])"
| "classify current ((p, desired) # ds) =
     (let (keep, downloads, replacements) = classify current ds; action = update_action desired p in
      case bt_get current p of
        Some existing \<Rightarrow> if same_content existing desired then (action # keep, downloads, replacements)
                         else (keep, downloads, action # replacements)
      | None \<Rightarrow> (keep, action # downloads, replacements))"

definition plan_removals ::
    "(string, ManagedFile) btree \<Rightarrow> (string, DesiredProviderFile) btree \<Rightarrow> UpdateRemoval list" where
  "plan_removals current desired =
     map (\<lambda>(p, f). \<lparr>ur_id = mf_id f, ur_path = p, ur_component_id = component_origin_id (mf_origin f)\<rparr>)
       (filter (\<lambda>(p, _). \<not> bt_contains desired p) current)"

definition optional_changes ::
    "(string, ManagedFile) btree \<Rightarrow> ProviderInstanceDefinition \<Rightarrow> ResolvedComponentSet \<Rightarrow> OptionalComponentChange list" where
  "optional_changes current d resolved =
     (let before = bs_collect (List.map_filter (\<lambda>f. component_origin_id (mf_origin f)) (map snd current));
          after = bs_collect (map (\<lambda>c. cid_str (pc_id c)) (filter (\<lambda>c. rs_is_enabled resolved (pc_id c)) (pd_components d)))
      in map (\<lambda>i. \<lparr>oc_component_id = i, oc_enabled = i \<in> set after\<rparr>)
           (bs_collect (filter (\<lambda>i. i \<notin> set after) before @ filter (\<lambda>i. i \<notin> set before) after)))"

text \<open>The cache objects that the game itself still needs: \<open>requests\<close> are the downloads of its install plan.\<close>

definition missing_base :: "ManagedFile list \<Rightarrow> DownloadRequest list \<Rightarrow> DownloadRequest list" where
  "missing_base managed requests =
     filter (\<lambda>r. \<not> list_ex (\<lambda>f. mf_location f = InCache \<and> mf_path f = dr_destination r \<and>
        mf_expected_size f = dr_expected_size r \<and> mf_expected_hash f = dr_expected_hash r) managed) requests"

fun all_sizes :: "DownloadRequest list \<Rightarrow> u64 option" where
  "all_sizes [] = Some 0"
| "all_sizes (r # rs) = (case (dr_expected_size r, all_sizes rs) of (Some n, Some m) \<Rightarrow> Some (n + m) | _ \<Rightarrow> None)"

definition base_changes ::
    "(Instance \<Rightarrow> bool \<Rightarrow> DownloadRequest list io) \<Rightarrow> Instance \<Rightarrow> InstanceSpec \<Rightarrow> ManagedFile list \<Rightarrow> bool \<Rightarrow>
     (bool \<times> u64 \<times> u64 option) io" where
  "base_changes resolve_base i target managed offline =
     (if is_minecraft (it_spec i) = is_minecraft target \<and> is_loader (it_spec i) = is_loader target
      then io_return (False, 0, Some 0)
      else
      io_bind (io_lift (it_with_spec i target)) (\<lambda>target_instance.
      io_bind (resolve_base target_instance offline) (\<lambda>requests.
      let missing = missing_base managed requests in
      io_return (True, u64_of_length (length missing), all_sizes missing))))"

definition saturating_add :: "u64 \<Rightarrow> u64 \<Rightarrow> u64" where
  "saturating_add a b = (if uint a + uint b < 2 ^ 64 then a + b else - 1)"

definition build_plan ::
    "Instance \<Rightarrow> ProviderInstanceId \<Rightarrow> ProviderInstanceDefinition \<Rightarrow> ComponentSelections \<Rightarrow> ComponentSelections \<Rightarrow>
     ManagedFile list \<Rightarrow> ResolvedComponentSet \<Rightarrow> bool \<times> u64 \<times> u64 option \<Rightarrow> UpdatePlan" where
  "build_plan i key d selections expected managed resolved base =
     (let desired_files = map (\<lambda>(f, origin). \<lparr>df_file = f, df_component_id = component_origin_id origin\<rparr>)
            (desired_provider_files d resolved);
          current = current_files managed key;
          desired = desired_paths desired_files;
          (keep, downloads, replacements) = classify current desired;
          (changed, base_downloads, base_size) = base
      in \<lparr>up_instance = key, up_local_instance_id = it_id i, up_from_revision = installed_revision (it_spec i),
           up_to_revision = pd_revision d, up_keep = keep, up_downloads = downloads, up_replacements = replacements,
           up_removals = plan_removals current desired, up_optional_changes = optional_changes current d resolved,
           up_base_downloads = base_downloads, up_base_download_size = base_size,
           up_download_size = saturating_add (sum_list (map ua_size (downloads @ replacements)))
             (case base_size of None \<Rightarrow> 0 | Some n \<Rightarrow> n),
           up_base_game_changed = changed, up_desired_files = desired_files, up_selections = selections,
           up_expected_selections = expected\<rparr>)"

definition plan_update_with ::
    "cache_manager \<Rightarrow> (Instance \<Rightarrow> bool \<Rightarrow> DownloadRequest list io) \<Rightarrow> Instance \<Rightarrow> ProviderInstanceId \<Rightarrow>
     ProviderInstanceDefinition \<Rightarrow> ComponentSelections \<Rightarrow> ComponentSelections \<Rightarrow> bool \<Rightarrow> UpdatePlan io" where
  "plan_update_with cm resolve_base i key d selections expected offline =
     io_bind (load_managed_index cm i) (\<lambda>index.
     io_bind (io_lift (resolve_components (pd_components d) selections)) (\<lambda>resolved.
     io_bind (io_lift (local_spec d (iid_str (it_id i)) key)) (\<lambda>target.
     io_bind (base_changes resolve_base i target (mx_files index) offline) (\<lambda>base.
     let plan = build_plan i key d selections expected (mx_files index) resolved base in
     io_bind (emit ''UpdatePlanCreated'' [iid_str (it_id i), show_nat (unat (up_from_revision plan)),
       show_nat (unat (up_to_revision plan)), show_nat (length (up_downloads plan)),
       show_nat (length (up_replacements plan)), show_nat (length (up_removals plan))]) (\<lambda>_.
     io_return plan)))))"

section \<open>The state of the files\<close>

text \<open>Path, size and digest of the files a managed index records and of those a declaration wants.\<close>

type_synonym file_state = "string \<rightharpoonup> u64 option \<times> FileHash option"

definition installed_state :: "ManagedFile list \<Rightarrow> ProviderInstanceId \<Rightarrow> file_state" where
  "installed_state managed key p =
     map_option (\<lambda>f. (mf_expected_size f, mf_expected_hash f)) (bt_get (current_files managed key) p)"

definition desired_state :: "DesiredProviderFile list \<Rightarrow> file_state" where
  "desired_state desired p =
     map_option (\<lambda>d. (Some (pf_size (df_file d)), Some (pf_sha256 (df_file d)))) (bt_get (desired_paths desired) p)"

definition apply_actions :: "UpdateFileAction list \<Rightarrow> UpdateRemoval list \<Rightarrow> file_state \<Rightarrow> file_state" where
  "apply_actions actions removals s =
     foldl (\<lambda>s a. s(ua_path a \<mapsto> (Some (ua_size a), Some (ua_sha256 a))))
       (foldl (\<lambda>s r. s(ur_path r := None)) s removals) actions"

lemma bt_wf_maps [simp]: "bt_wf (current_files managed key)" "bt_wf (desired_paths desired)"
  by (simp_all add: current_files_def desired_paths_def)

text \<open>The classes of one desired file.\<close>

definition action_of :: "string \<times> DesiredProviderFile \<Rightarrow> UpdateFileAction" where
  "action_of x = update_action (snd x) (fst x)"

definition kept_entry :: "(string, ManagedFile) btree \<Rightarrow> string \<times> DesiredProviderFile \<Rightarrow> bool" where
  "kept_entry current x \<longleftrightarrow> (case bt_get current (fst x) of None \<Rightarrow> False | Some f \<Rightarrow> same_content f (snd x))"

definition new_entry :: "(string, ManagedFile) btree \<Rightarrow> string \<times> DesiredProviderFile \<Rightarrow> bool" where
  "new_entry current x \<longleftrightarrow> bt_get current (fst x) = None"

lemma classify_eq:
  "classify current ds =
    (map action_of (filter (kept_entry current) ds),
     map action_of (filter (new_entry current) ds),
     map action_of (filter (\<lambda>x. \<not> kept_entry current x \<and> \<not> new_entry current x) ds))"
  by (induction current ds rule: classify.induct)
    (auto simp: kept_entry_def new_entry_def action_of_def split: option.splits)

lemma action_of_sel [simp]:
  "ua_path (action_of x) = fst x" "ua_size (action_of x) = pf_size (df_file (snd x))"
  "ua_sha256 (action_of x) = pf_sha256 (df_file (snd x))"
  by (simp_all add: action_of_def update_action_def)

lemma foldl_actions:
  assumes "distinct (map fst xs)"
  shows "foldl (\<lambda>s a. s(ua_path a \<mapsto> (Some (ua_size a), Some (ua_sha256 a)))) s (map action_of xs) p =
    (case map_of xs p of Some d \<Rightarrow> Some (Some (pf_size (df_file d)), Some (pf_sha256 (df_file d))) | None \<Rightarrow> s p)"
  using assms
proof (induction xs arbitrary: s)
  case (Cons x xs)
  from Cons.prems have "p = fst x \<Longrightarrow> map_of xs p = None" by (auto simp: map_of_eq_None_iff)
  with Cons show ?case by (cases x) (auto split: option.split)
qed simp

lemma foldl_removals:
  "foldl (\<lambda>s r. s(ur_path r := None)) s rs p = (if p \<in> ur_path ` set rs then None else s p)"
  by (induction rs arbitrary: s) auto

lemma map_of_filter_fst:
  "distinct (map fst xs) \<Longrightarrow> map_of (filter P xs) p = (case map_of xs p of None \<Rightarrow> None | Some d \<Rightarrow> if P (p, d) then Some d else None)"
proof (induction xs)
  case (Cons x xs)
  then have "p = fst x \<Longrightarrow> map_of xs p = None" by (auto simp: map_of_eq_None_iff)
  with Cons show ?case by (cases x) (auto split: option.split)
qed simp

lemma distinct_desired: "distinct (map fst (desired_paths desired))"
  using bt_wf_maps(2) [of desired] by (simp add: bt_wf_def strict_sorted_iff)

lemma plan_removals_paths:
  "ur_path ` set (plan_removals (current_files managed key) desired) =
    {p. bt_get (current_files managed key) p \<noteq> None \<and> bt_get desired p = None}"
proof (rule set_eqI)
  fix p
  let ?m = "current_files managed key"
  have "p \<in> ur_path ` set (plan_removals ?m desired) \<longleftrightarrow> p \<in> fst ` set ?m \<and> \<not> bt_contains desired p"
    unfolding plan_removals_def set_map image_image set_filter by (auto simp: image_iff split: prod.splits) force
  also have "\<dots> \<longleftrightarrow> p \<in> {p. bt_get ?m p \<noteq> None \<and> bt_get desired p = None}"
    using bt_contains_iff [of ?m p] by (simp add: bt_contains_def)
  finally show "p \<in> ur_path ` set (plan_removals ?m desired) \<longleftrightarrow> p \<in> {p. bt_get ?m p \<noteq> None \<and> bt_get desired p = None}" .
qed

lemma distinct_append_classes:
  assumes "distinct (map fst ds)"
  shows "distinct (map fst (filter (new_entry current) ds @ filter (\<lambda>x. \<not> kept_entry current x \<and> \<not> new_entry current x) ds))"
proof -
  have "distinct (map fst (filter P ds))" for P using assms by (rule distinct_map_filter)
  moreover have "x = y" if "x \<in> set ds" "y \<in> set ds" "fst x = fst y" for x y
    using assms that by (meson distinct_map inj_on_eq_iff)
  ultimately show ?thesis by auto blast
qed

text \<open>The file actions turn the recorded state into the desired one.\<close>

lemma classified_actions:
  fixes managed key desired
  defines "current \<equiv> current_files managed key" and "ds \<equiv> desired_paths desired"
  assumes c: "classify current ds = (keep, downloads, replacements)"
  shows "apply_actions (downloads @ replacements) (plan_removals current ds) (installed_state managed key) = desired_state desired"
proof
  fix p
  let ?changed = "filter (new_entry current) ds @ filter (\<lambda>x. \<not> kept_entry current x \<and> \<not> new_entry current x) ds"
  have eqs: "downloads @ replacements = map action_of ?changed" using c by (simp add: classify_eq)
  have dist: "distinct (map fst ds)" unfolding ds_def by (rule distinct_desired)
  have "map_of ?changed p =
      (case map_of ds p of None \<Rightarrow> None | Some d \<Rightarrow> if kept_entry current (p, d) then None else Some d)"
    unfolding map_of_append map_add_def map_of_filter_fst [OF dist]
    by (auto simp: new_entry_def kept_entry_def split: option.splits)
  moreover have "map_of ds p = bt_get ds p" by (simp add: bt_get_def)
  ultimately have "apply_actions (downloads @ replacements) (plan_removals current ds) (installed_state managed key) p =
      (case bt_get ds p of
         None \<Rightarrow> if p \<in> ur_path ` set (plan_removals current ds) then None else installed_state managed key p
       | Some d \<Rightarrow> if kept_entry current (p, d)
           then if p \<in> ur_path ` set (plan_removals current ds) then None else installed_state managed key p
           else Some (Some (pf_size (df_file d)), Some (pf_sha256 (df_file d))))"
    unfolding apply_actions_def eqs foldl_actions [OF distinct_append_classes [OF dist]] foldl_removals
    by (simp split: option.split)
  also have "\<dots> = desired_state desired p"
    using plan_removals_paths [of managed key ds]
    by (auto simp: desired_state_def installed_state_def kept_entry_def same_content_def current_def [symmetric] ds_def [symmetric]
        split: option.split)
  finally show "apply_actions (downloads @ replacements) (plan_removals current ds) (installed_state managed key) p =
    desired_state desired p" .
qed

lemma classified_partition:
  assumes "classify current (desired_paths desired) = (keep, downloads, replacements)"
  shows "distinct (map ua_path (keep @ downloads @ replacements))"
    and "set (map ua_path (keep @ downloads @ replacements)) = minecraft_path ` pf_path ` df_file ` set desired"
proof -
  let ?ds = "desired_paths desired"
  have dist: "distinct (map fst ?ds)" by (rule distinct_desired)
  have inj: "x = y" if "x \<in> set ?ds" "y \<in> set ?ds" "fst x = fst y" for x y
    using dist that by (meson distinct_map inj_on_eq_iff)
  have part: "distinct (map fst (filter P ?ds))" for P using dist by (rule distinct_map_filter)
  have eqs: "keep = map action_of (filter (kept_entry current) ?ds)" "downloads = map action_of (filter (new_entry current) ?ds)"
    "replacements = map action_of (filter (\<lambda>x. \<not> kept_entry current x \<and> \<not> new_entry current x) ?ds)"
    using assms by (simp_all add: classify_eq)
  have comp: "ua_path \<circ> action_of = fst" by (rule ext) simp
  have apart: "\<not> (kept_entry current x \<and> new_entry current x)" for x
    by (simp add: kept_entry_def new_entry_def split: option.split)
  show "distinct (map ua_path (keep @ downloads @ replacements))"
    unfolding eqs map_append map_map comp using part inj apart by (auto; blast)
  have "set (map ua_path (keep @ downloads @ replacements)) = fst ` set ?ds"
    unfolding eqs map_append map_map comp by (auto simp: image_iff)
  also have "fst ` set ?ds = minecraft_path ` pf_path ` df_file ` set desired"
  proof -
    have "p \<in> fst ` set ?ds \<longleftrightarrow> p \<in> minecraft_path ` pf_path ` df_file ` set desired" for p
    proof -
      have "p \<in> fst ` set ?ds \<longleftrightarrow> bt_get ?ds p \<noteq> None"
        using bt_contains_iff [of ?ds p] by (simp add: bt_contains_def)
      also have "\<dots> \<longleftrightarrow> p \<in> minecraft_path ` pf_path ` df_file ` set desired"
        unfolding desired_paths_def bt_get_collect by (auto simp: map_of_eq_None_iff image_iff)
      finally show ?thesis .
    qed
    then show ?thesis by blast
  qed
  finally show "set (map ua_path (keep @ downloads @ replacements)) = minecraft_path ` pf_path ` df_file ` set desired" .
qed

lemma classified_settled:
  assumes "classify (current_files managed key) (desired_paths desired) = (keep, downloads, replacements)"
    and "installed_state managed key = desired_state desired"
  shows "downloads = []" "replacements = []" "plan_removals (current_files managed key) (desired_paths desired) = []"
proof -
  let ?c = "current_files managed key" and ?ds = "desired_paths desired"
  have st: "installed_state managed key p = desired_state desired p" for p using assms(2) by simp
  have kept: "kept_entry ?c x" if "x \<in> set ?ds" for x
  proof -
    have "bt_get ?ds (fst x) = Some (snd x)"
      unfolding bt_get_def by (rule map_of_is_SomeI [OF distinct_desired]) (use that in simp)
    with st [of "fst x"] show ?thesis
      by (auto simp: installed_state_def desired_state_def kept_entry_def same_content_def split: option.splits)
  qed
  have "\<not> new_entry ?c x" if "x \<in> set ?ds" for x
    using kept [OF that] by (auto simp: kept_entry_def new_entry_def split: option.splits)
  then show "downloads = []" "replacements = []"
    using assms(1) kept by (auto simp: classify_eq filter_empty_conv)
  have "ur_path ` set (plan_removals ?c ?ds) = {}"
  proof -
    have "bt_get ?c p = None \<longleftrightarrow> bt_get ?ds p = None" for p
      using arg_cong [OF st [of p], of "\<lambda>x. x = None"] by (simp add: installed_state_def desired_state_def)
    then show ?thesis unfolding plan_removals_paths by auto
  qed
  then show "plan_removals ?c ?ds = []" by simp
qed

section \<open>Recording an update\<close>

text \<open>Slicing a digest of fewer than two characters is a panic; digests of the type have 64.\<close>

definition provider_cache_path :: "FileHash \<Rightarrow> SafeRelativePath result" where
  "provider_cache_path h =
     (if length (fh_value h) < 2 then Inl (Panic ''byte index 2 is out of bounds'')
      else srp_new (''provider/objects/sha256/'' @ take 2 (fh_value h) @ ''/'' @ fh_value h))"

definition provider_object :: "ProviderInstanceId \<Rightarrow> ProviderFile \<Rightarrow> ManagedFileOrigin \<Rightarrow> SafeRelativePath \<Rightarrow> ManagedFile" where
  "provider_object key f origin cache_path =
     \<lparr>mf_id = ''provider-cache:'' @ pid_str (pi_provider_id key) @ '':'' @ iid_str (pi_instance_id key) @ '':'' @ managed_provider_file_id f origin,
      mf_location = InCache, mf_path = cache_path, mf_kind = KindOther, mf_origin = origin,
      mf_expected_size = Some (pf_size f), mf_expected_hash = Some (pf_sha256 f),
      mf_source = (case pf_source f of RemoteResource u \<Rightarrow> Some u | LocalResource _ _ \<Rightarrow> None),
      mf_source_path = (case pf_source f of RemoteResource _ \<Rightarrow> None | LocalResource p _ \<Rightarrow> Some p),
      mf_repair_from = None, mf_verified_size = 0, mf_verified_modified = None\<rparr>"

definition provider_instance_file ::
    "ProviderInstanceId \<Rightarrow> ProviderFile \<Rightarrow> ManagedFileOrigin \<Rightarrow> string \<Rightarrow> SafeRelativePath \<Rightarrow> SafeRelativePath \<Rightarrow> ManagedFile" where
  "provider_instance_file key f origin file_id instance_path cache_path =
     \<lparr>mf_id = ''provider-file:'' @ pid_str (pi_provider_id key) @ '':'' @ iid_str (pi_instance_id key) @ '':'' @ file_id,
      mf_location = InInstance, mf_path = instance_path, mf_kind = KindOther, mf_origin = origin,
      mf_expected_size = Some (pf_size f), mf_expected_hash = Some (pf_sha256 f),
      mf_source = None, mf_source_path = None, mf_repair_from = Some cache_path,
      mf_verified_size = 0, mf_verified_modified = None\<rparr>"

definition snapshot_one :: "cache_manager \<Rightarrow> Instance \<Rightarrow> ProviderInstanceId \<Rightarrow> DesiredProviderFile \<Rightarrow> ManagedFile list io" where
  "snapshot_one cm i key desired =
     (let f = df_file desired;
          origin = (case df_component_id desired of Some c \<Rightarrow> OriginComponent c | None \<Rightarrow> OriginProvider)
      in
      io_bind (io_lift (provider_cache_path (pf_sha256 f))) (\<lambda>cache_path.
      io_bind (io_lift (srp_new (minecraft_path (pf_path f)))) (\<lambda>instance_path.
      io_bind (snapshot_managed_file cm (cm_root cm) (provider_object key f origin cache_path)) (\<lambda>a.
      io_bind (snapshot_managed_file cm (it_path i)
        (provider_instance_file key f origin (managed_provider_file_id f origin) instance_path cache_path)) (\<lambda>b.
      io_return [a, b])))))"

fun snapshot_desired_provider_files ::
    "cache_manager \<Rightarrow> Instance \<Rightarrow> ProviderInstanceId \<Rightarrow> DesiredProviderFile list \<Rightarrow> ManagedFile list io" where
  "snapshot_desired_provider_files cm i key [] = io_return []"
| "snapshot_desired_provider_files cm i key (d # ds) =
     io_bind (snapshot_one cm i key d) (\<lambda>new.
     io_bind (snapshot_desired_provider_files cm i key ds) (\<lambda>rest. io_return (new @ rest)))"

definition replace_provider_files :: "ManagedFile list \<Rightarrow> ProviderInstanceId \<Rightarrow> ManagedFile list \<Rightarrow> ManagedFile list" where
  "replace_provider_files managed key additions = filter (\<lambda>f. \<not> is_provider_owned f key) managed @ additions"

lemma snapshot_managed_Inr:
  assumes "snapshot_managed_file cm base f w = (Inr g, w')"
  shows "\<exists>n m. g = f\<lparr>mf_verified_size := n, mf_verified_modified := m\<rparr>"
  using assms by (auto simp: snapshot_managed_file_def Let_def io_bind_eq_Inr split: option.splits prod.splits if_splits)

lemma map_of_keyed: "map_option g (map_of (map (\<lambda>x. (h x, x)) xs) p) = map_of (map (\<lambda>x. (h x, g x)) xs) p"
  by (induction xs) auto

text \<open>What the index records of one file: path, size, digest.\<close>

definition recorded :: "ManagedFile \<Rightarrow> string \<times> u64 option \<times> FileHash option" where
  "recorded f = (srp_str (mf_path f), mf_expected_size f, mf_expected_hash f)"

definition wanted :: "DesiredProviderFile \<Rightarrow> string \<times> u64 option \<times> FileHash option" where
  "wanted d = (minecraft_path (pf_path (df_file d)), Some (pf_size (df_file d)), Some (pf_sha256 (df_file d)))"

lemma installed_state_recorded:
  "installed_state managed key = map_of (rev (map recorded (filter (\<lambda>f. mf_location f = InInstance \<and> is_provider_owned f key) managed)))"
proof
  fix p
  show "installed_state managed key p =
    map_of (rev (map recorded (filter (\<lambda>f. mf_location f = InInstance \<and> is_provider_owned f key) managed))) p"
    by (simp add: installed_state_def current_files_def bt_get_collect rev_map recorded_def [abs_def] map_of_keyed)
qed

lemma desired_state_wanted: "desired_state desired = map_of (rev (map wanted desired))"
proof
  fix p
  show "desired_state desired p = map_of (rev (map wanted desired)) p"
    by (simp add: desired_state_def desired_paths_def bt_get_collect rev_map wanted_def [abs_def] map_of_keyed)
qed

lemma snapshot_recorded:
  "snapshot_desired_provider_files cm i key desired w = (Inr additions, w') \<Longrightarrow>
   map recorded (filter (\<lambda>f. mf_location f = InInstance \<and> is_provider_owned f key) additions) = map wanted desired"
proof (induction desired arbitrary: additions w)
  case (Cons d ds)
  from Cons.prems obtain new w1 rest where s: "snapshot_one cm i key d w = (Inr new, w1)"
    "snapshot_desired_provider_files cm i key ds w1 = (Inr rest, w')" "additions = new @ rest"
    by (auto simp: io_bind_eq_Inr)
  let ?f = "df_file d" and ?o = "case df_component_id d of Some c \<Rightarrow> OriginComponent c | None \<Rightarrow> OriginProvider"
  from s(1) obtain cp ip a b u v where ip: "srp_new (minecraft_path (pf_path ?f)) = Inr ip"
    and ab: "new = [a, b]"
    and a: "snapshot_managed_file cm (cm_root cm) (provider_object key ?f ?o cp) u = (Inr a, v)"
    and b: "snapshot_managed_file cm (it_path i) (provider_instance_file key ?f ?o (managed_provider_file_id ?f ?o) ip cp) v = (Inr b, w1)"
    unfolding snapshot_one_def Let_def io_bind_eq_Inr io_run_simps prod.inject sum.inject by blast
  have "mf_location a = InCache" using snapshot_managed_Inr [OF a] by (auto simp: provider_object_def)
  moreover have "mf_location b = InInstance" "recorded b = wanted d"
    using snapshot_managed_Inr [OF b] ip by (auto simp: provider_instance_file_def recorded_def wanted_def srp_new_Inr)
  moreover have "is_provider_owned b key"
  proof -
    have "mf_id b = ''provider-file'' @ ('':'' @ pid_str (pi_provider_id key) @ '':'' @ iid_str (pi_instance_id key) @ '':'') @
        managed_provider_file_id ?f ?o"
      using snapshot_managed_Inr [OF b] by (auto simp: provider_instance_file_def)
    then have "contains_str (mf_id b) ('':'' @ pid_str (pi_provider_id key) @ '':'' @ iid_str (pi_instance_id key) @ '':'')"
      unfolding contains_str_iff by blast
    moreover have "mf_origin b = ?o" using snapshot_managed_Inr [OF b] by (auto simp: provider_instance_file_def)
    ultimately show ?thesis by (simp add: is_provider_owned_def split: option.split)
  qed
  ultimately show ?case using Cons.IH [OF s(2)] ab s(3) by simp
qed simp

section \<open>Properties\<close>

lemma plan_update_parts:
  assumes "plan_update_with cm resolve_base i key d selections expected offline w = (Inr plan, w')"
  obtains index w1 where "load_managed_index cm i w = (Inr index, w1)"
    and "classify (current_files (mx_files index) key) (desired_paths (up_desired_files plan)) =
      (up_keep plan, up_downloads plan, up_replacements plan)"
    and "up_removals plan = plan_removals (current_files (mx_files index) key) (desired_paths (up_desired_files plan))"
proof -
  from assms obtain index w1 resolved base where index: "load_managed_index cm i w = (Inr index, w1)"
    and plan: "plan = build_plan i key d selections expected (mx_files index) resolved base"
    unfolding plan_update_with_def Let_def io_bind_eq_Inr io_run_simps prod.inject sum.inject by blast
  obtain keep downloads replacements where c: "classify (current_files (mx_files index) key)
      (desired_paths (map (\<lambda>(f, origin). \<lparr>df_file = f, df_component_id = component_origin_id origin\<rparr>)
            (desired_provider_files d resolved))) = (keep, downloads, replacements)"
    by (rule prod_cases3)
  obtain changed n m where b: "base = (changed, n, m)" by (rule prod_cases3)
  have "up_desired_files plan = map (\<lambda>(f, origin). \<lparr>df_file = f, df_component_id = component_origin_id origin\<rparr>)
      (desired_provider_files d resolved)" "up_keep plan = keep" "up_downloads plan = downloads"
    "up_replacements plan = replacements"
    "up_removals plan = plan_removals (current_files (mx_files index) key)
      (desired_paths (map (\<lambda>(f, origin). \<lparr>df_file = f, df_component_id = component_origin_id origin\<rparr>)
            (desired_provider_files d resolved)))"
    by (simp_all add: plan build_plan_def Let_def c b)
  with that [OF index] c show ?thesis by simp
qed


text \<open>C24: an update that was recorded is complete: once the index holds the entries that \<open>snapshot_desired_provider_files\<close> made for the wanted
  files in place of the old ones, a plan for the same files downloads, replaces and removes nothing.
\<close>

theorem recorded_update_settles:
  assumes "snapshot_desired_provider_files cm' i' key (up_desired_files plan) v = (Inr additions, v')"
    and "load_managed_index cm i w = (Inr index, w1)"
    and "mx_files index = replace_provider_files old key additions"
    and "plan_update_with cm resolve_base i key d selections expected offline w = (Inr plan, w')"
  shows "up_downloads plan = [] \<and> up_replacements plan = [] \<and> up_removals plan = []"
  using assms(4)
proof (rule plan_update_parts)
  fix index' w2
  assume "load_managed_index cm i w = (Inr index', w2)"
    and c: "classify (current_files (mx_files index') key) (desired_paths (up_desired_files plan)) =
      (up_keep plan, up_downloads plan, up_replacements plan)"
    and r: "up_removals plan = plan_removals (current_files (mx_files index') key) (desired_paths (up_desired_files plan))"
  then have i: "index' = index" using assms(2) by simp
  have "filter (\<lambda>f. mf_location f = InInstance \<and> is_provider_owned f key) (filter (\<lambda>f. \<not> is_provider_owned f key) old) = []"
    by (simp add: filter_empty_conv)
  then have "installed_state (mx_files index') key = desired_state (up_desired_files plan)"
    using snapshot_recorded [OF assms(1)]
    by (simp add: i assms(3) installed_state_recorded desired_state_wanted replace_provider_files_def)
  from classified_settled [OF c this] r show ?thesis by simp
qed

section \<open>Samples\<close>

definition sample_provider_file :: ProviderFile where
  "sample_provider_file = \<lparr>pf_id = ''x'', pf_path = SafeRelativePath ''mods/x.jar'', pf_source = LocalResource [''p'', ''x''] [''p''],
     pf_size = 3, pf_sha256 = \<lparr>fh_algorithm = Sha256, fh_value = ''abab''\<rparr>, pf_required = True\<rparr>"

definition sample_update_definition :: ProviderInstanceDefinition where
  "sample_update_definition = \<lparr>pd_id = InstanceId ''one'', pd_name = ''One'', pd_description = None, pd_revision = 2,
     pd_minecraft_version = ''1.20.1'', pd_loader = None, pd_java_memory = None, pd_server = None,
     pd_authentication = auth_policy_default, pd_files = [sample_provider_file], pd_components = []\<rparr>"

definition sample_update_key :: ProviderInstanceId where
  "sample_update_key = \<lparr>pi_provider_id = ProviderId ''p'', pi_instance_id = InstanceId ''one''\<rparr>"

definition sample_update_instance :: Instance where
  "sample_update_instance = \<lparr>it_spec = sample_instance_spec, it_path = [''i'', ''one'']\<rparr>"

definition sample_plan_run :: "cache_manager \<Rightarrow> UpdatePlan result" where
  "sample_plan_run cm = fst (plan_update_with cm (\<lambda>_ _. io_return []) sample_update_instance sample_update_key
     sample_update_definition component_selections_default component_selections_default False (sample_cache_world ''m''))"

lemma sample_planned:
  "case sample_plan_run sample_cm of Inl _ \<Rightarrow> False | Inr plan \<Rightarrow>
     map ua_path (up_downloads plan) = [''.minecraft/mods/x.jar''] \<and> up_replacements plan = [] \<and> up_removals plan = []"
  by code_simp

lemma sample_managed_loaded:
  "fst (load_managed_index sample_cm sample_update_instance (sample_cache_world ''m'')) = Inr sample_managed_index"
  by code_simp


text \<open>A world in which the wanted file is in place, and the index that records it.\<close>

definition sample_updated_world :: world where
  "sample_updated_world = sample_store\<lparr>w_tree := (sample_cache_tree ''m'')
     ([''c'', ''provider'', ''objects'', ''sha256'', ''ab'', ''abab''] \<mapsto> FileNode ''abc'',
      [''i'', ''one'', ''.minecraft'', ''mods'', ''x.jar''] \<mapsto> FileNode ''abc'')\<rparr>"

definition sample_desired :: "DesiredProviderFile list" where
  "sample_desired = [\<lparr>df_file = sample_provider_file, df_component_id = None\<rparr>]"

definition sample_additions :: "ManagedFile list" where
  "sample_additions = projr (fst (snapshot_desired_provider_files sample_cm sample_update_instance sample_update_key sample_desired
     sample_updated_world))"

definition sample_updated_cm :: cache_manager where
  "sample_updated_cm = sample_cm\<lparr>cm_managed_json := \<lparr>decode_json =
     (\<lambda>_. Inr (mx_new ''one'' ''1.20.1'' (replace_provider_files (mx_files sample_managed_index) sample_update_key sample_additions))),
     encode_json = (\<lambda>_. Inr ''m'')\<rparr>\<rparr>"

lemma sample_snapshot:
  "is_ok (fst (snapshot_desired_provider_files sample_cm sample_update_instance sample_update_key sample_desired sample_updated_world))"
  by code_simp

lemma sample_replanned:
  "case sample_plan_run sample_updated_cm of Inl _ \<Rightarrow> False | Inr plan \<Rightarrow> up_desired_files plan = sample_desired"
  by code_simp

theorem recorded_update_settles_witness:
  "\<exists>plan. sample_plan_run sample_updated_cm = Inr plan \<and> up_downloads plan = [] \<and> up_replacements plan = [] \<and> up_removals plan = []"
proof -
  obtain plan where plan: "sample_plan_run sample_updated_cm = Inr plan" "up_desired_files plan = sample_desired"
    using sample_replanned by (cases "sample_plan_run sample_updated_cm") auto
  then obtain w' where run: "plan_update_with sample_updated_cm (\<lambda>_ _. io_return []) sample_update_instance sample_update_key
     sample_update_definition component_selections_default component_selections_default False (sample_cache_world ''m'') = (Inr plan, w')"
    unfolding sample_plan_run_def by (metis prod.collapse)
  obtain v' where snap: "snapshot_desired_provider_files sample_cm sample_update_instance sample_update_key (up_desired_files plan)
      sample_updated_world = (Inr sample_additions, v')"
    using sample_snapshot unfolding plan(2) sample_additions_def by (auto simp: is_ok_iff prod_eq_iff)
  from run obtain index w1 where index: "load_managed_index sample_updated_cm sample_update_instance (sample_cache_world ''m'') = (Inr index, w1)"
    by (rule plan_update_parts)
  then have "mx_files index = replace_provider_files (mx_files sample_managed_index) sample_update_key sample_additions"
    by (auto simp: load_managed_index_def io_bind_eq_Inr sample_updated_cm_def mx_new_def split: if_splits)
  from recorded_update_settles [OF snap index this run] plan(1) show ?thesis by blast
qed

end
