(* ===== verification/UpdateFiles.thy ===== *)
theory UpdateFiles
  imports Cache
begin

text \<open>
  The file operations of a provider update (\<^verbatim>\<open>providers/service.rs\<close>): verified copies, the move of
  replaced and removed files into the backup directory, the move of staged files into the instance,
  and the rollback of both.

  The main results: a verified copy never leaves other content at its destination; while the files of
  an update are exchanged, every file that was there before is in place or in the backups at every
  moment; a completed exchange has exactly the planned effect; and an exchange that fails and
  rolls back leaves the files as they were.
\<close>

section \<open>Parents and copies\<close>

definition real_parent :: "string \<Rightarrow> path \<Rightarrow> unit io" where
  "real_parent reason current =
     io_bind (find_node current) (\<lambda>found.
     case found of
       Some n \<Rightarrow> if n \<noteq> DirNode then io_fail (UnsafeFilesystemEntry current reason)
                 else io_return ()
     | None \<Rightarrow> fs_create_dir current)"

fun real_parents :: "string \<Rightarrow> path \<Rightarrow> string list \<Rightarrow> unit io" where
  "real_parents reason current [] = io_return ()"
| "real_parents reason current (part # parts) =
     io_bind (real_parent reason (current @ [part])) (\<lambda>_. real_parents reason (current @ [part]) parts)"

definition ensure_real_parents :: "path \<Rightarrow> SafeRelativePath \<Rightarrow> unit io" where
  "ensure_real_parents root relative =
     io_bind (fs_create_dir_all root) (\<lambda>_.
     io_bind (fs_symlink_metadata root) (\<lambda>n.
     if n \<noteq> DirNode then io_fail (UnsafeFilesystemEntry root ''managed root must be a real directory'')
     else real_parents ''managed parent must be a real directory'' root (butlast (split_on CHR ''/'' (srp_str relative)))))"

definition reject_non_file_or_symlink :: "path \<Rightarrow> unit io" where
  "reject_non_file_or_symlink p =
     io_bind (find_node p) (\<lambda>found.
     case found of
       Some n \<Rightarrow> if \<not> is_file_node n then io_fail (UnsafeFilesystemEntry p ''managed destination must be a real file'')
                 else fs_remove_file p
     | None \<Rightarrow> io_return ())"

definition replace_file :: "path \<Rightarrow> path \<Rightarrow> unit io" where
  "replace_file temporary destination =
     io_bind (reject_non_file_or_symlink destination) (\<lambda>_. fs_rename temporary destination)"

definition require_source :: "path \<Rightarrow> string \<Rightarrow> unit io" where
  "require_source p reason =
     io_bind (fs_symlink_metadata p) (\<lambda>n.
     if \<not> is_file_node n then io_fail (UnsafeFilesystemEntry p reason) else io_return ())"

definition copy_absolute_verified ::
    "digests \<Rightarrow> path \<Rightarrow> path \<Rightarrow> SafeRelativePath \<Rightarrow> u64 \<Rightarrow> FileHash \<Rightarrow> unit io" where
  "copy_absolute_verified dg source destination_root destination expected hash =
     (let final_path = join_under destination destination_root;
          temporary = with_extension final_path ''centralcore.tmp''
      in
      io_bind (require_source source ''provider source must be a real file'') (\<lambda>_.
      io_bind (verify_file dg source (Some expected) (Some hash)) (\<lambda>_.
      io_bind (ensure_real_parents destination_root destination) (\<lambda>_.
      io_bind (reject_non_file_or_symlink temporary) (\<lambda>_.
      io_bind (fs_read source) (\<lambda>content.
      io_bind (fs_write temporary content) (\<lambda>_.
      io_bind (verify_file dg temporary (Some expected) (Some hash)) (\<lambda>_.
      replace_file temporary final_path))))))))"

definition copy_verified ::
    "digests \<Rightarrow> path \<Rightarrow> SafeRelativePath \<Rightarrow> path \<Rightarrow> SafeRelativePath \<Rightarrow> u64 \<Rightarrow> FileHash \<Rightarrow> unit io" where
  "copy_verified dg source_root source destination_root destination expected hash =
     copy_absolute_verified dg (join_under source source_root) destination_root destination expected hash"

section \<open>The exchange of files\<close>

definition move_to_backup :: "path \<Rightarrow> path \<Rightarrow> string \<Rightarrow> unit io" where
  "move_to_backup instance_path backup_root p =
     io_bind (io_lift (srp_new p)) (\<lambda>relative.
     let source = join_under relative instance_path in
     io_bind (find_node source) (\<lambda>found.
     case found of
       None \<Rightarrow> io_return ()
     | Some n \<Rightarrow>
         if \<not> is_file_node n then io_fail (UnsafeFilesystemEntry source ''managed update target must be a real file'')
         else
         io_bind (ensure_real_parents backup_root relative) (\<lambda>_.
         fs_rename source (join_under relative backup_root))))"

definition move_staged_into_instance :: "path \<Rightarrow> path \<Rightarrow> string \<Rightarrow> unit io" where
  "move_staged_into_instance instance_path staged_root p =
     io_bind (io_lift (srp_new p)) (\<lambda>relative.
     let source = join_under relative staged_root; destination = join_under relative instance_path in
     io_bind (require_source source ''staged update file must be a real file'') (\<lambda>_.
     io_bind (ensure_real_parents instance_path relative) (\<lambda>_.
     io_bind (fs_try_exists destination) (\<lambda>present.
     if present then io_fail (StaticProvider (ManagedPathConflict p ''unmanaged local file'' ''update''))
     else fs_rename source destination))))"

definition remove_applied :: "path \<Rightarrow> string \<Rightarrow> unit io" where
  "remove_applied instance_path p =
     io_bind (io_lift (srp_new p)) (\<lambda>relative.
     let destination = join_under relative instance_path in
     io_bind (find_node destination) (\<lambda>found.
     case found of
       Some n \<Rightarrow> if \<not> is_file_node n then io_fail (UnsafeFilesystemEntry destination ''update rollback target must be a real file'')
                 else fs_remove_file destination
     | None \<Rightarrow> io_return ()))"

definition restore_backup :: "path \<Rightarrow> path \<Rightarrow> string \<Rightarrow> unit io" where
  "restore_backup instance_path backup_root p =
     io_bind (io_lift (srp_new p)) (\<lambda>relative.
     let backup = join_under relative backup_root in
     io_bind (fs_try_exists backup) (\<lambda>present.
     if \<not> present then io_return ()
     else
     io_bind (ensure_real_parents instance_path relative) (\<lambda>_.
     fs_rename backup (join_under relative instance_path))))"

fun for_each :: "('a \<Rightarrow> unit io) \<Rightarrow> 'a list \<Rightarrow> unit io" where
  "for_each f [] = io_return ()"
| "for_each f (x # xs) = io_bind (f x) (\<lambda>_. for_each f xs)"

definition rollback_update_files :: "path \<Rightarrow> path \<Rightarrow> string list \<Rightarrow> string list \<Rightarrow> unit io" where
  "rollback_update_files instance_path backup_root applied_paths backup_paths =
     io_bind (for_each (remove_applied instance_path) (rev applied_paths)) (\<lambda>_.
     for_each (restore_backup instance_path backup_root) backup_paths)"

text \<open>The two loops of \<open>apply_update_unlocked\<close>, with the rollback on their first error.\<close>

definition or_rollback :: "unit io \<Rightarrow> unit io \<Rightarrow> unit io" where
  "or_rollback m rollback = io_catch m (\<lambda>e. io_bind rollback (\<lambda>_. io_fail e))"

fun apply_staged :: "path \<Rightarrow> path \<Rightarrow> path \<Rightarrow> string list \<Rightarrow> string list \<Rightarrow> string list \<Rightarrow> string list io" where
  "apply_staged instance_path staged_root backup_root backup_paths applied [] = io_return applied"
| "apply_staged instance_path staged_root backup_root backup_paths applied (p # ps) =
     io_bind (or_rollback (move_staged_into_instance instance_path staged_root p)
       (rollback_update_files instance_path backup_root applied backup_paths)) (\<lambda>_.
     apply_staged instance_path staged_root backup_root backup_paths (applied @ [p]) ps)"

definition exchange_files :: "path \<Rightarrow> path \<Rightarrow> path \<Rightarrow> string list \<Rightarrow> string list \<Rightarrow> string list io" where
  "exchange_files instance_path staged_root backup_root backup_paths changed =
     io_bind (for_each (\<lambda>p. or_rollback (move_to_backup instance_path backup_root p)
       (rollback_update_files instance_path backup_root [] backup_paths)) backup_paths) (\<lambda>_.
     apply_staged instance_path staged_root backup_root backup_paths [] changed)"

section \<open>The state of an exchange\<close>

text \<open>Paths relative to the instance, outside its staging directory.\<close>

abbreviation rel :: "string \<Rightarrow> path" where
  "rel p \<equiv> split_on CHR ''/'' p"

definition outside :: "string \<Rightarrow> path \<Rightarrow> bool" where
  "outside u q \<longleftrightarrow> q \<noteq> [] \<and> take 2 q \<noteq> [''runtime'', u]"

definition staging_root :: "path \<Rightarrow> string \<Rightarrow> path" where
  "staging_root R u = R @ [''runtime'', u]"

abbreviation backup_at :: "path \<Rightarrow> string \<Rightarrow> path" where
  "backup_at R u \<equiv> staging_root R u @ [''backups'']"

abbreviation files_at :: "path \<Rightarrow> string \<Rightarrow> path" where
  "files_at R u \<equiv> staging_root R u @ [''files'']"

lemma outside_apart [simp]:
  "outside u q \<Longrightarrow> R @ q \<noteq> staging_root R u @ x"
  "outside u q \<Longrightarrow> staging_root R u @ x \<noteq> R @ q"
  by (auto simp: outside_def staging_root_def)

lemma backup_files_apart [simp]: "backup_at R u @ q \<noteq> files_at R u @ p" "files_at R u @ q \<noteq> backup_at R u @ p"
  by simp_all

text \<open>
  During an exchange: \<open>B\<close> are the paths to back up, \<open>C\<close> those that may still be in the backups only, and
  \<open>ap\<close> those whose staged file is in place.
\<close>

definition exchanging :: "path \<Rightarrow> string \<Rightarrow> tree \<Rightarrow> path set \<Rightarrow> path set \<Rightarrow> path set \<Rightarrow> tree \<Rightarrow> bool" where
  "exchanging R u t0 B C ap t \<longleftrightarrow> (\<forall>q. outside u q \<longrightarrow>
     (\<forall>c. t0 (R @ q) = Some (FileNode c) \<longrightarrow>
        (t (R @ q) = Some (FileNode c) \<and> q \<notin> ap) \<or> (t (backup_at R u @ q) = Some (FileNode c) \<and> q \<in> C)) \<and>
     (\<forall>c. t (R @ q) = Some (FileNode c) \<longrightarrow> t0 (R @ q) = Some (FileNode c) \<or> q \<in> ap) \<and>
     (\<forall>c. t (backup_at R u @ q) = Some (FileNode c) \<longrightarrow> t0 (R @ q) = Some (FileNode c)) \<and>
     (q \<in> B \<longrightarrow> t (backup_at R u @ q) = None \<or> (\<exists>c. t (backup_at R u @ q) = Some (FileNode c)))) \<and>
   (\<forall>q c. t (backup_at R u @ q) = Some (FileNode c) \<longrightarrow> outside u q)"

text \<open>What the exchange has done: \<open>G\<close> are the paths backed up so far.\<close>

definition advanced :: "path \<Rightarrow> string \<Rightarrow> tree \<Rightarrow> path set \<Rightarrow> path set \<Rightarrow> tree \<Rightarrow> bool" where
  "advanced R u t0 G ap t \<longleftrightarrow> (\<forall>q. outside u q \<longrightarrow>
     (q \<in> G \<longrightarrow> (\<forall>c. t (R @ q) = Some (FileNode c) \<longrightarrow> q \<in> ap)) \<and>
     (q \<notin> ap \<longrightarrow> (\<forall>c. t (files_at R u @ q) = Some (FileNode c) \<longleftrightarrow> t0 (files_at R u @ q) = Some (FileNode c))) \<and>
     (q \<in> ap \<longrightarrow> (\<exists>c. t0 (files_at R u @ q) = Some (FileNode c) \<and> t (R @ q) = Some (FileNode c))))"

definition never_lost :: "path \<Rightarrow> string \<Rightarrow> tree \<Rightarrow> tree \<Rightarrow> bool" where
  "never_lost R u t0 t \<longleftrightarrow>
     (\<forall>q c. outside u q \<longrightarrow> t0 (R @ q) = Some (FileNode c) \<longrightarrow>
        t (R @ q) = Some (FileNode c) \<or> t (backup_at R u @ q) = Some (FileNode c)) \<and>
     (\<forall>q c. t (backup_at R u @ q) = Some (FileNode c) \<longrightarrow> outside u q \<and> t0 (R @ q) = Some (FileNode c))"

definition restored :: "path \<Rightarrow> string \<Rightarrow> tree \<Rightarrow> tree \<Rightarrow> bool" where
  "restored R u t0 t \<longleftrightarrow> (\<forall>q c. outside u q \<longrightarrow> (t (R @ q) = Some (FileNode c) \<longleftrightarrow> t0 (R @ q) = Some (FileNode c)))"

lemma exchangingD:
  assumes "exchanging R u t0 B C ap t" "outside u q"
  shows "t0 (R @ q) = Some (FileNode c) \<Longrightarrow>
      (t (R @ q) = Some (FileNode c) \<and> q \<notin> ap) \<or> (t (backup_at R u @ q) = Some (FileNode c) \<and> q \<in> C)"
    and "t (R @ q) = Some (FileNode c) \<Longrightarrow> t0 (R @ q) = Some (FileNode c) \<or> q \<in> ap"
    and "t (backup_at R u @ q) = Some (FileNode c) \<Longrightarrow> t0 (R @ q) = Some (FileNode c)"
    and "q \<in> B \<Longrightarrow> t (backup_at R u @ q) = None \<or> (\<exists>c. t (backup_at R u @ q) = Some (FileNode c))"
  using conjunct1 [OF assms(1) [unfolded exchanging_def], rule_format, OF assms(2)] by simp_all

lemma exchanging_outside: "exchanging R u t0 B C ap t \<Longrightarrow> t (backup_at R u @ q) = Some (FileNode c) \<Longrightarrow> outside u q"
  unfolding exchanging_def by blast

lemma advancedD:
  assumes "advanced R u t0 G ap t" "outside u q"
  shows "q \<in> G \<Longrightarrow> t (R @ q) = Some (FileNode c) \<Longrightarrow> q \<in> ap"
    and "q \<notin> ap \<Longrightarrow> t (files_at R u @ q) = Some (FileNode c) \<longleftrightarrow> t0 (files_at R u @ q) = Some (FileNode c)"
    and "q \<in> ap \<Longrightarrow> \<exists>c. t0 (files_at R u @ q) = Some (FileNode c) \<and> t (R @ q) = Some (FileNode c)"
  using assms(1) [unfolded advanced_def, rule_format, OF assms(2)] by simp_all

lemma exchanging_never_lost: "exchanging R u t0 B C ap t \<Longrightarrow> never_lost R u t0 t"
  unfolding exchanging_def never_lost_def by blast

lemma exchanging_restored: "exchanging R u t0 B {} {} t \<Longrightarrow> restored R u t0 t"
  unfolding exchanging_def restored_def by blast

lemma lift_bind: "io_bind (io_lift (Inr x)) f = f x"
  by (rule ext) (simp add: io_bind_def)

text \<open>A check for a regular file.\<close>

lemma io_valid_real_file:
  assumes "\<And>c. n = FileNode c \<Longrightarrow> io_valid J P m Q E" "\<And>t. P t \<Longrightarrow> E t"
  shows "io_valid J P (if \<not> is_file_node n then io_fail e else m) Q E"
proof (cases "is_file_node n")
  case True
  then have "io_valid J P m Q E" using assms(1) by (cases n) (simp_all add: is_file_node_def)
  then show ?thesis using True by (simp only: not_True_eq_False if_False)
next
  case False
  show ?thesis unfolding if_P [OF False] by (rule io_valid_fail) (rule assms(2))
qed

section \<open>Directories that appear\<close>

definition adds_dirs :: "path set \<Rightarrow> tree \<Rightarrow> tree \<Rightarrow> bool" where
  "adds_dirs D t t' \<longleftrightarrow> (\<forall>q. t' q \<noteq> t q \<longrightarrow> q \<in> D \<and> t q = None \<and> t' q = Some DirNode)"

lemma adds_dirs_file: "adds_dirs D t t' \<Longrightarrow> t' q = Some (FileNode c) \<longleftrightarrow> t q = Some (FileNode c)"
  unfolding adds_dirs_def by (metis node.distinct(1) option.distinct(1) option.inject)

lemma adds_dirs_same: "adds_dirs D t t' \<Longrightarrow> q \<notin> D \<Longrightarrow> t' q = t q"
  unfolding adds_dirs_def by blast

lemma create_dir_adds: "create_dir_tree p t = Inr t' \<Longrightarrow> p \<in> D \<Longrightarrow> adds_dirs D t t'"
  by (auto simp: create_dir_tree_def adds_dirs_def split: if_splits)

lemma create_dir_all_adds: "create_dir_all_tree p t = Inr t' \<Longrightarrow> set (ancestors p) \<subseteq> D \<Longrightarrow> adds_dirs D t t'"
  by (auto simp: create_dir_all_tree_def adds_dirs_def split: if_splits)

lemma find_node_keeps: "io_valid J I (find_node p) (\<lambda>x t. I t \<and> (\<not> is_root p \<longrightarrow> x = t p)) I"
  by (rule find_node_valid)

lemma real_parent_valid:
  assumes "\<And>t t'. I t \<Longrightarrow> adds_dirs D t t' \<Longrightarrow> I t'" "\<And>t. I t \<Longrightarrow> J t" "p \<in> D"
  shows "io_valid J I (real_parent reason p) (\<lambda>_. I) I"
proof -
  have find: "io_valid J I (find_node p) (\<lambda>_. I) I" by (rule io_valid_conseq [OF find_node_keeps]) auto
  have rest: "io_valid J I (case found of
       Some n \<Rightarrow> if n \<noteq> DirNode then io_fail (UnsafeFilesystemEntry p reason)
                 else io_return () | None \<Rightarrow> fs_create_dir p) (\<lambda>_. I) I" for found
  proof (cases found)
    case None
    have "I t \<Longrightarrow> create_dir_tree p t = Inr t' \<Longrightarrow> J t' \<and> I t'" for t t'
      using assms(1) [OF _ create_dir_adds [OF _ assms(3)]] assms(2) by blast
    then show ?thesis unfolding None option.case fs_create_dir_def by (rule io_valid_step)
  next
    case (Some n)
    show ?thesis unfolding Some option.case
      by (cases "n = DirNode") (simp_all only: not_True_eq_False not_False_eq_True if_True if_False simp_thms
          io_valid_return io_valid_fail)
  qed
  show ?thesis unfolding real_parent_def by (rule io_valid_bind [OF find rest])
qed

lemma real_parents_valid:
  assumes "\<And>t t'. I t \<Longrightarrow> adds_dirs D t t' \<Longrightarrow> I t'" "\<And>t. I t \<Longrightarrow> J t"
    and "\<And>n. 0 < n \<Longrightarrow> n \<le> length parts \<Longrightarrow> current @ take n parts \<in> D"
  shows "io_valid J I (real_parents reason current parts) (\<lambda>_. I) I"
  using assms(3)
proof (induction parts arbitrary: current)
  case Nil
  show ?case unfolding real_parents.simps by (rule io_valid_return)
next
  case (Cons part parts)
  from Cons.prems [of 1] have here: "current @ [part] \<in> D" by simp
  have "(current @ [part]) @ take n parts \<in> D" if "0 < n" "n \<le> length parts" for n
    using Cons.prems [of "Suc n"] that by simp
  then show ?case unfolding real_parents.simps
    by (intro io_valid_bind [OF real_parent_valid [OF assms(1,2) here] Cons.IH])
qed

lemma ensure_real_parents_valid:
  assumes "\<And>t t'. I t \<Longrightarrow> adds_dirs D t t' \<Longrightarrow> I t'" "\<And>t. I t \<Longrightarrow> J t"
    and "set (ancestors root) \<subseteq> D"
    and "\<And>n. 0 < n \<Longrightarrow> n < length (rel (srp_str r)) \<Longrightarrow> root @ take n (rel (srp_str r)) \<in> D"
  shows "io_valid J I (ensure_real_parents root r) (\<lambda>_. I) I"
proof -
  have all: "io_valid J I (fs_create_dir_all root) (\<lambda>_. I) I"
    unfolding fs_create_dir_all_def
  proof (rule io_valid_step)
    fix t t' assume "I t" "create_dir_all_tree root t = Inr t'"
    from assms(1) [OF this(1) create_dir_all_adds [OF this(2) assms(3)]] assms(2) show "J t' \<and> I t'" by blast
  qed
  have stat: "io_valid J I (fs_symlink_metadata root) (\<lambda>_. I) I" by (rule io_valid_frame) auto
  have "root @ take n (butlast (rel (srp_str r))) \<in> D" if "0 < n" "n \<le> length (butlast (rel (srp_str r)))" for n
    using assms(4) [of n] that by (simp add: take_butlast)
  then have walk: "io_valid J I (real_parents reason root (butlast (rel (srp_str r)))) (\<lambda>_. I) I" for reason
    using real_parents_valid [where I = I and J = J and D = D] assms(1,2) by metis
  show ?thesis unfolding ensure_real_parents_def
  proof (rule io_valid_bind [OF all io_valid_bind [OF stat]])
    show "io_valid J I (if n \<noteq> DirNode then io_fail (UnsafeFilesystemEntry root ''managed root must be a real directory'')
      else real_parents reason root (butlast (rel (srp_str r)))) (\<lambda>_. I) I" for n reason
      by (cases "n = DirNode") (simp_all only: not_True_eq_False not_False_eq_True if_True if_False simp_thms walk io_valid_fail)
  qed
qed

section \<open>The steps of the exchange\<close>

lemma exchanging_adds:
  assumes "exchanging R u t0 B C ap t" "adds_dirs D t t'" "\<And>q. q \<in> B \<Longrightarrow> outside u q \<Longrightarrow> backup_at R u @ q \<notin> D"
  shows "exchanging R u t0 B C ap t'"
  unfolding exchanging_def adds_dirs_file [OF assms(2)]
proof (rule conjI, intro allI impI)
  fix q assume q: "outside u q"
  have "q \<in> B \<Longrightarrow> t' (backup_at R u @ q) = t (backup_at R u @ q)"
    by (rule adds_dirs_same [OF assms(2)]) (rule assms(3) [OF _ q])
  with assms(1) q show "(\<forall>c. t0 (R @ q) = Some (FileNode c) \<longrightarrow>
        (t (R @ q) = Some (FileNode c) \<and> q \<notin> ap) \<or> (t (backup_at R u @ q) = Some (FileNode c) \<and> q \<in> C)) \<and>
     (\<forall>c. t (R @ q) = Some (FileNode c) \<longrightarrow> t0 (R @ q) = Some (FileNode c) \<or> q \<in> ap) \<and>
     (\<forall>c. t (backup_at R u @ q) = Some (FileNode c) \<longrightarrow> t0 (R @ q) = Some (FileNode c)) \<and>
     (q \<in> B \<longrightarrow> t' (backup_at R u @ q) = None \<or> (\<exists>c. t (backup_at R u @ q) = Some (FileNode c)))"
    unfolding exchanging_def by presburger
qed (use assms(1) in \<open>simp add: exchanging_def\<close>)

lemma advanced_adds:
  assumes "advanced R u t0 G ap t" "adds_dirs D t t'"
  shows "advanced R u t0 G ap t'"
  using assms(1) unfolding advanced_def adds_dirs_file [OF assms(2)] .

text \<open>The directories below the instance and below the backups that the moves create.\<close>

definition instance_dirs :: "path \<Rightarrow> path \<Rightarrow> path set" where
  "instance_dirs R x = set (ancestors R) \<union> {R @ take n x | n. 0 < n \<and> n < length x}"

lemma ancestors_length: "q \<in> set (ancestors p) \<Longrightarrow> length q \<le> length p"
  by (auto simp: ancestors_def)

lemma outside_take: "outside u q \<Longrightarrow> 0 < n \<Longrightarrow> outside u (take n q)"
proof -
  assume q: "outside u q" "0 < n"
  show "outside u (take n q)"
  proof (cases "n = 1")
    case True
    then have "length (take 2 (take n q)) \<le> 1" by simp
    then have "take 2 (take n q) \<noteq> [''runtime'', u]" by (metis One_nat_def Suc_n_not_le_n length_Cons list.size(3))
    with q show ?thesis by (simp add: outside_def)
  next
    case False
    with q(2) have "min 2 n = 2" by simp
    with q show ?thesis by (simp add: outside_def)
  qed
qed

lemma backup_not_instance_dir:
  assumes "outside u x"
  shows "backup_at R u @ q \<notin> instance_dirs R x"
proof
  assume "backup_at R u @ q \<in> instance_dirs R x"
  moreover have "backup_at R u @ q \<notin> set (ancestors R)"
    using ancestors_length [of "backup_at R u @ q" R] by (auto simp: staging_root_def)
  ultimately obtain n where "backup_at R u @ q = R @ take n x" "0 < n" by (auto simp: instance_dirs_def)
  moreover from outside_take [OF assms this(2)] have "outside u (take n x)" .
  ultimately show False by (metis append.assoc outside_apart(2))
qed

definition prefix_free :: "path set \<Rightarrow> bool" where
  "prefix_free B \<longleftrightarrow> (\<forall>x \<in> B. \<forall>y \<in> B. \<forall>z. y = x @ z \<longrightarrow> z = [])"

lemma backup_not_backup_dir:
  assumes "prefix_free B" "x \<in> B" "q \<in> B" "q \<noteq> []"
  shows "backup_at R u @ q \<notin> instance_dirs (backup_at R u) x"
proof
  assume "backup_at R u @ q \<in> instance_dirs (backup_at R u) x"
  moreover have "backup_at R u @ q \<notin> set (ancestors (backup_at R u))"
    using ancestors_length [of "backup_at R u @ q" "backup_at R u"] assms(4) by auto
  ultimately obtain n where "q = take n x" "n < length x" by (auto simp: instance_dirs_def)
  then have "x = q @ drop n x" "drop n x \<noteq> []" by simp_all
  with assms(1-3) show False unfolding prefix_free_def by blast
qed

text \<open>Names and places.\<close>

definition exchange_path :: "string \<Rightarrow> string \<Rightarrow> bool" where
  "exchange_path u p \<longleftrightarrow> (\<exists>r. srp_new p = Inr r) \<and> outside u (rel p)"

lemma exchange_path_join:
  assumes "srp_new p = Inr r"
  shows "join_under r root = root @ rel p" "srp_str r = p"
  using assms by (auto simp: srp_new_Inr join_under_valid)

lemma is_root_below: "exchange_path u p \<Longrightarrow> \<not> is_root (root @ rel p)"
  using destination_below(3) exchange_path_join(1) unfolding exchange_path_def by metis

lemma parents_in_instance: "srp_new p = Inr r \<Longrightarrow> 0 < n \<Longrightarrow> n < length (rel (srp_str r)) \<Longrightarrow> R @ take n (rel (srp_str r)) \<in> instance_dirs R (rel p)"
  by (auto simp: instance_dirs_def exchange_path_join(2))

lemma rename_file_tree:
  assumes "rename_tree a b t = Inr t'" "t a = Some (FileNode c)" "a \<noteq> b"
  shows "t' = t(b \<mapsto> FileNode c, a := None)"
  using assms by (auto simp: rename_tree_def split: if_splits)

text \<open>A move into the backups.\<close>

lemma exchanging_backup:
  assumes "exchanging R u t0 B B {} t" "advanced R u t0 G {} t" "x \<in> B" "outside u x"
    and "rename_tree (R @ x) (backup_at R u @ x) t = Inr t'" "t (R @ x) = Some (FileNode c)"
  shows "exchanging R u t0 B B {} t' \<and> advanced R u t0 (insert x G) {} t'"
proof -
  have t': "t' = t(backup_at R u @ x \<mapsto> FileNode c, R @ x := None)"
    by (rule rename_file_tree [OF assms(5,6)]) (simp add: assms(4))
  have "t0 (R @ x) = Some (FileNode c)" using assms(1,4,6) unfolding exchanging_def by blast
  then have "exchanging R u t0 B B {} t'"
    using assms(1,3,4) unfolding exchanging_def t' by auto
  moreover have "advanced R u t0 (insert x G) {} t'"
    using assms(2,4) unfolding advanced_def t' by auto
  ultimately show ?thesis ..
qed

lemma move_to_backup_valid:
  fixes R u t0 B G
  defines "I \<equiv> \<lambda>G t. exchanging R u t0 B B {} t \<and> advanced R u t0 G {} t"
  assumes p: "exchange_path u p" "rel p \<in> B" and B: "prefix_free B" "[] \<notin> B"
  shows "io_valid (never_lost R u t0) (I G) (move_to_backup R (backup_at R u) p) (\<lambda>_. I (insert (rel p) G)) (I G)"
proof -
  let ?J = "never_lost R u t0" and ?x = "rel p"
  from p(1) obtain r where r: "srp_new p = Inr r" "outside u ?x" unfolding exchange_path_def by blast
  have J: "I G t \<Longrightarrow> ?J t" for t unfolding I_def by (blast intro: exchanging_never_lost)
  have keep: "I G t'" if "I G t" "adds_dirs (instance_dirs (backup_at R u) ?x) t t'" for t t'
  proof -
    have far: "q \<in> B \<Longrightarrow> outside u q \<Longrightarrow> backup_at R u @ q \<notin> instance_dirs (backup_at R u) ?x" for q
      by (rule backup_not_backup_dir [OF B(1) p(2)]) (auto simp: outside_def)
    show ?thesis using that(1) exchanging_adds [OF _ that(2) far] advanced_adds [OF _ that(2)] unfolding I_def by blast
  qed
  have sub: "set (ancestors (backup_at R u)) \<subseteq> instance_dirs (backup_at R u) ?x" by (simp add: instance_dirs_def)
  have par: "io_valid ?J (\<lambda>t. I G t \<and> t (R @ ?x) = Some (FileNode c)) (ensure_real_parents (backup_at R u) r)
      (\<lambda>_ t. I G t \<and> t (R @ ?x) = Some (FileNode c)) (\<lambda>t. I G t \<and> t (R @ ?x) = Some (FileNode c))" for c
    by (rule ensure_real_parents_valid [OF _ _ sub parents_in_instance [OF r(1)]])
      (use keep adds_dirs_file J in blast)+
  have ren: "io_valid ?J (\<lambda>t. I G t \<and> t (R @ ?x) = Some (FileNode c)) (fs_rename (R @ ?x) (backup_at R u @ ?x))
      (\<lambda>_. I (insert ?x G)) (I G)" for c
    unfolding fs_rename_def
  proof (rule io_valid_step)
    fix t t' assume t: "I G t \<and> t (R @ ?x) = Some (FileNode c)" "rename_tree (R @ ?x) (backup_at R u @ ?x) t = Inr t'"
    from exchanging_backup [OF _ _ p(2) r(2) t(2)] t(1) have "I (insert ?x G) t'" unfolding I_def by blast
    then show "?J t' \<and> I (insert ?x G) t'" unfolding I_def by (blast intro: exchanging_never_lost)
  qed simp
  have find: "io_valid ?J (I G) (find_node (R @ ?x)) (\<lambda>x t. I G t \<and> x = t (R @ ?x)) (I G)"
    by (rule io_valid_conseq [OF find_node_keeps [where I = "I G"]]) (use is_root_below [OF p(1)] in auto)
  have rest: "io_valid ?J (\<lambda>t. I G t \<and> found = t (R @ ?x)) (case found of
       None \<Rightarrow> io_return ()
     | Some n \<Rightarrow>
         if \<not> is_file_node n then io_fail (UnsafeFilesystemEntry (R @ ?x) ''managed update target must be a real file'')
         else io_bind (ensure_real_parents (backup_at R u) r) (\<lambda>_. fs_rename (R @ ?x) (backup_at R u @ ?x)))
      (\<lambda>_. I (insert ?x G)) (I G)" for found
  proof (cases found)
    case None
    show ?thesis unfolding None option.case by (rule io_valid_return) (auto simp: I_def advanced_def)
  next
    case (Some n)
    show ?thesis unfolding Some option.case
    proof (rule io_valid_real_file)
      fix c assume n: "n = FileNode c"
      show "io_valid ?J (\<lambda>t. I G t \<and> Some n = t (R @ ?x))
         (io_bind (ensure_real_parents (backup_at R u) r) (\<lambda>_. fs_rename (R @ ?x) (backup_at R u @ ?x)))
         (\<lambda>_. I (insert ?x G)) (I G)"
        by (rule io_valid_conseq [OF io_valid_bind [OF io_valid_conseq [OF par [of c]] ren [of c]],
              where P' = "\<lambda>t. I G t \<and> t (R @ ?x) = Some (FileNode c)"]) (use n in auto)
    qed simp
  qed
  have eq: "move_to_backup R (backup_at R u) p = io_bind (find_node (R @ ?x)) (\<lambda>found. case found of
       None \<Rightarrow> io_return ()
     | Some n \<Rightarrow>
         if \<not> is_file_node n then io_fail (UnsafeFilesystemEntry (R @ ?x) ''managed update target must be a real file'')
         else io_bind (ensure_real_parents (backup_at R u) r) (\<lambda>_. fs_rename (R @ ?x) (backup_at R u @ ?x)))"
    unfolding move_to_backup_def r(1) lift_bind Let_def exchange_path_join(1) [OF r(1)] ..
  show ?thesis unfolding eq by (rule io_valid_bind [OF find rest])
qed

text \<open>A staged file that is moved into the instance.\<close>

lemma exchanging_staged:
  assumes "exchanging R u t0 B B ap t" "advanced R u t0 G ap t" "outside u x"
    and "rename_tree (files_at R u @ x) (R @ x) t = Inr t'" "t (files_at R u @ x) = Some (FileNode c)"
    and "\<forall>c. t (R @ x) \<noteq> Some (FileNode c)"
  shows "exchanging R u t0 B B (insert x ap) t' \<and> advanced R u t0 G (insert x ap) t'"
proof -
  have t': "t' = t(R @ x \<mapsto> FileNode c, files_at R u @ x := None)"
    by (rule rename_file_tree [OF assms(4,5)]) (simp add: assms(3))
  have new: "x \<notin> ap" using assms(2,3,6) unfolding advanced_def by blast
  then have "t0 (files_at R u @ x) = Some (FileNode c)" using assms(2,3,5) unfolding advanced_def by blast
  then have "advanced R u t0 G (insert x ap) t'"
    using assms(2,3) new unfolding advanced_def t' by auto
  moreover have "exchanging R u t0 B B (insert x ap) t'"
    using assms(1,3,6) unfolding exchanging_def t' by auto
  ultimately show ?thesis by simp
qed

lemma try_exists_file:
  assumes "fs_try_exists p w = (Inr x, w')"
  shows "\<not> x \<longrightarrow> (\<forall>c. w_tree w p \<noteq> Some (FileNode c))"
proof -
  obtain g w1 where n: "next_fault w = (g, w1)" by fastforce
  have "w_tree w1 = w_tree w" using next_fault_simps [OF n] by simp
  then show ?thesis
    using assms n by (auto simp: fs_try_exists_def io_query_def follow_plain split: option.splits sum.splits)
qed

lemma symlink_metadata_file:
  assumes "fs_symlink_metadata p w = (Inr (FileNode c), w')"
  shows "w_tree w p = Some (FileNode c)"
proof -
  obtain g w1 where n: "next_fault w = (g, w1)" by fastforce
  have "w_tree w1 = w_tree w" using next_fault_simps [OF n] by simp
  then show ?thesis
    using assms n by (auto simp: fs_symlink_metadata_def io_query_def split: option.splits sum.splits if_splits)
qed

lemma require_source_valid:
  "io_valid J P (require_source p reason) (\<lambda>_ t. P t \<and> (\<exists>c. t p = Some (FileNode c))) P"
proof -
  have stat: "io_valid J P (fs_symlink_metadata p) (\<lambda>n t. P t \<and> (\<forall>c. n = FileNode c \<longrightarrow> t p = Some (FileNode c))) P"
    by (rule io_valid_frame_result) (use symlink_metadata_file in auto)
  show ?thesis unfolding require_source_def
    by (rule io_valid_bind [OF stat], rule io_valid_real_file, rule io_valid_return) auto
qed

lemma move_staged_valid:
  fixes R u t0 B G
  defines "I \<equiv> \<lambda>ap t. exchanging R u t0 B B ap t \<and> advanced R u t0 G ap t"
  assumes p: "exchange_path u p"
  shows "io_valid (never_lost R u t0) (I ap) (move_staged_into_instance R (files_at R u) p) (\<lambda>_. I (insert (rel p) ap)) (I ap)"
proof -
  let ?J = "never_lost R u t0" and ?x = "rel p"
  from p obtain r where r: "srp_new p = Inr r" "outside u ?x" unfolding exchange_path_def by blast
  have J: "I ap t \<Longrightarrow> ?J t" for t ap unfolding I_def by (blast intro: exchanging_never_lost)
  have keep: "I ap t'" if "I ap t" "adds_dirs (instance_dirs R ?x) t t'" for t t'
    using that(1) exchanging_adds [OF _ that(2) backup_not_instance_dir [OF r(2)]] advanced_adds [OF _ that(2)]
    unfolding I_def by blast
  let ?F = "\<lambda>t :: tree. \<exists>c. t (files_at R u @ ?x) = Some (FileNode c)"
  have src: "io_valid ?J (I ap) (require_source (files_at R u @ ?x) s) (\<lambda>_ t. I ap t \<and> ?F t) (I ap)" for s
    by (rule require_source_valid)
  have sub: "set (ancestors R) \<subseteq> instance_dirs R ?x" by (simp add: instance_dirs_def)
  have par: "io_valid ?J (\<lambda>t. I ap t \<and> ?F t) (ensure_real_parents R r) (\<lambda>_ t. I ap t \<and> ?F t) (\<lambda>t. I ap t \<and> ?F t)"
  proof (rule ensure_real_parents_valid [OF _ _ sub parents_in_instance [OF r(1)]])
    fix t t' assume t: "I ap t \<and> ?F t" "adds_dirs (instance_dirs R ?x) t t'"
    show "I ap t' \<and> ?F t'" unfolding adds_dirs_file [OF t(2)] using keep [OF _ t(2)] t(1) by simp
  qed (use J in blast)
  have ex: "io_valid ?J (\<lambda>t. I ap t \<and> ?F t) (fs_try_exists (R @ ?x))
      (\<lambda>x t. (I ap t \<and> ?F t) \<and> (\<not> x \<longrightarrow> (\<forall>c. t (R @ ?x) \<noteq> Some (FileNode c)))) (\<lambda>t. I ap t \<and> ?F t)"
    by (rule io_valid_frame_result) (use try_exists_file in auto)
  have ren: "io_valid ?J (\<lambda>t. (I ap t \<and> ?F t) \<and> (\<forall>c. t (R @ ?x) \<noteq> Some (FileNode c)))
      (fs_rename (files_at R u @ ?x) (R @ ?x)) (\<lambda>_. I (insert ?x ap)) (I ap)"
    unfolding fs_rename_def
  proof (rule io_valid_step)
    fix t t' assume t: "(I ap t \<and> ?F t) \<and> (\<forall>c. t (R @ ?x) \<noteq> Some (FileNode c))"
      "rename_tree (files_at R u @ ?x) (R @ ?x) t = Inr t'"
    from exchanging_staged [OF _ _ r(2) t(2)] t(1) have "I (insert ?x ap) t'" unfolding I_def by blast
    with J show "?J t' \<and> I (insert ?x ap) t'" by blast
  qed simp
  have rest: "io_valid ?J (\<lambda>t. (I ap t \<and> ?F t) \<and> (\<not> present \<longrightarrow> (\<forall>c. t (R @ ?x) \<noteq> Some (FileNode c))))
      (if present then io_fail e else fs_rename (files_at R u @ ?x) (R @ ?x)) (\<lambda>_. I (insert ?x ap)) (I ap)" for present e
  proof (cases present)
    case True
    show ?thesis unfolding if_P [OF True] by (rule io_valid_fail) simp
  next
    case False
    show ?thesis unfolding if_not_P [OF False] by (rule io_valid_conseq [OF ren]) (use False in auto)
  qed
  have mid: "io_valid ?J (\<lambda>t. I ap t \<and> ?F t) (io_bind (ensure_real_parents R r) (\<lambda>_.
      io_bind (fs_try_exists (R @ ?x)) (\<lambda>present. if present then io_fail e else fs_rename (files_at R u @ ?x) (R @ ?x))))
      (\<lambda>_. I (insert ?x ap)) (I ap)" for e
  proof (rule io_valid_bind [OF _ io_valid_bind [OF _ rest]])
    show "io_valid ?J (\<lambda>t. I ap t \<and> ?F t) (ensure_real_parents R r) (\<lambda>_ t. I ap t \<and> ?F t) (I ap)"
      by (rule io_valid_conseq [OF par]) simp_all
    show "io_valid ?J (\<lambda>t. I ap t \<and> ?F t) (fs_try_exists (R @ ?x))
        (\<lambda>x t. (I ap t \<and> ?F t) \<and> (\<not> x \<longrightarrow> (\<forall>c. t (R @ ?x) \<noteq> Some (FileNode c)))) (I ap)"
      by (rule io_valid_conseq [OF ex]) simp_all
  qed
  show ?thesis
    unfolding move_staged_into_instance_def r(1) lift_bind Let_def exchange_path_join(1) [OF r(1)]
    by (rule io_valid_bind [OF src mid])
qed

text \<open>The two steps of the rollback.\<close>

lemma remove_applied_valid:
  assumes p: "exchange_path u p"
  shows "io_valid (never_lost R u t0) (exchanging R u t0 B C (insert (rel p) ap)) (remove_applied R p)
    (\<lambda>_. exchanging R u t0 B C ap) (never_lost R u t0)"
proof -
  let ?J = "never_lost R u t0" and ?x = "rel p" and ?I = "exchanging R u t0 B C (insert (rel p) ap)"
  from p obtain r where r: "srp_new p = Inr r" "outside u ?x" unfolding exchange_path_def by blast
  have find: "io_valid ?J ?I (find_node (R @ ?x)) (\<lambda>x t. ?I t \<and> x = t (R @ ?x)) ?J"
    by (rule io_valid_conseq [OF find_node_keeps [where I = ?I]])
      (use is_root_below [OF p] exchanging_never_lost in auto)
  have gone: "exchanging R u t0 B C ap t" if "?I t" "\<forall>c. t (R @ ?x) \<noteq> Some (FileNode c)" for t
    using that unfolding exchanging_def by auto
  have rm: "io_valid ?J ?I (fs_remove_file (R @ ?x)) (\<lambda>_. exchanging R u t0 B C ap) ?J"
    unfolding fs_remove_file_def
  proof (rule io_valid_step)
    fix t t' assume t: "?I t" "remove_file_tree (R @ ?x) t = Inr t'"
    have "t' = t(R @ ?x := None)" using t(2) by (auto dest!: remove_file_tree_Inr)
    with t(1) r(2) have "exchanging R u t0 B C ap t'" unfolding exchanging_def by auto
    then show "?J t' \<and> exchanging R u t0 B C ap t'" by (blast intro: exchanging_never_lost)
  qed (rule exchanging_never_lost)
  have rest: "io_valid ?J (\<lambda>t. ?I t \<and> found = t (R @ ?x)) (case found of
       Some n \<Rightarrow> if \<not> is_file_node n then io_fail (UnsafeFilesystemEntry (R @ ?x) ''update rollback target must be a real file'')
                 else fs_remove_file (R @ ?x)
     | None \<Rightarrow> io_return ()) (\<lambda>_. exchanging R u t0 B C ap) ?J" for found
  proof (cases found)
    case None
    show ?thesis unfolding None option.case by (rule io_valid_return) (use gone in auto)
  next
    case (Some n)
    show ?thesis unfolding Some option.case
      by (rule io_valid_real_file, rule io_valid_conseq [OF rm]) (auto intro: exchanging_never_lost)
  qed
  show ?thesis
    unfolding remove_applied_def r(1) lift_bind Let_def exchange_path_join(1) [OF r(1)]
    by (rule io_valid_bind [OF find rest])
qed

lemma restore_backup_valid:
  assumes p: "exchange_path u p" "rel p \<in> B"
  shows "io_valid (never_lost R u t0) (exchanging R u t0 B (insert (rel p) C) {}) (restore_backup R (backup_at R u) p)
    (\<lambda>_. exchanging R u t0 B C {}) (never_lost R u t0)"
proof -
  let ?J = "never_lost R u t0" and ?x = "rel p" and ?I = "exchanging R u t0 B (insert (rel p) C) {}"
  from p(1) obtain r where r: "srp_new p = Inr r" "outside u ?x" unfolding exchange_path_def by blast
  have sub: "set (ancestors R) \<subseteq> instance_dirs R ?x" by (simp add: instance_dirs_def)
  have ex: "io_valid ?J ?I (fs_try_exists (backup_at R u @ ?x))
      (\<lambda>x t. ?I t \<and> (\<not> x \<longrightarrow> (\<forall>c. t (backup_at R u @ ?x) \<noteq> Some (FileNode c)))) ?J"
    by (rule io_valid_conseq [OF io_valid_frame_result [where P = ?I]]) (use try_exists_file exchanging_never_lost in auto)
  have par: "io_valid ?J ?I (ensure_real_parents R r) (\<lambda>_. ?I) ?J"
    by (rule io_valid_conseq [OF ensure_real_parents_valid [OF
          exchanging_adds [OF _ _ backup_not_instance_dir [OF r(2)]] exchanging_never_lost sub parents_in_instance [OF r(1)]]])
      (auto intro: exchanging_never_lost)
  have ren: "io_valid ?J ?I (fs_rename (backup_at R u @ ?x) (R @ ?x)) (\<lambda>_. exchanging R u t0 B C {}) ?J"
    unfolding fs_rename_def
  proof (rule io_valid_step)
    fix t t' assume t: "?I t" "rename_tree (backup_at R u @ ?x) (R @ ?x) t = Inr t'"
    have "t (backup_at R u @ ?x) \<noteq> None" using t(2) by (simp add: rename_tree_def split: if_splits)
    moreover have "t (backup_at R u @ ?x) = None \<or> (\<exists>c. t (backup_at R u @ ?x) = Some (FileNode c))"
      using t(1) p(2) r(2) unfolding exchanging_def by presburger
    ultimately obtain c where c: "t (backup_at R u @ ?x) = Some (FileNode c)" by auto
    have "t' = t(R @ ?x \<mapsto> FileNode c, backup_at R u @ ?x := None)"
      by (rule rename_file_tree [OF t(2) c]) (simp add: r(2))
    with t(1) r(2) c have "exchanging R u t0 B C {} t'" unfolding exchanging_def by auto
    then show "?J t' \<and> exchanging R u t0 B C {} t'" by (blast intro: exchanging_never_lost)
  qed (rule exchanging_never_lost)
  have kept: "exchanging R u t0 B C {} t" if "?I t" "\<forall>c. t (backup_at R u @ ?x) \<noteq> Some (FileNode c)" for t
    unfolding exchanging_def
  proof (intro allI impI conjI)
    fix q c assume q: "outside u q"
    show "(t (R @ q) = Some (FileNode c) \<and> q \<notin> {}) \<or> (t (backup_at R u @ q) = Some (FileNode c) \<and> q \<in> C)"
      if "t0 (R @ q) = Some (FileNode c)" using exchangingD(1) [OF \<open>?I t\<close> q that] \<open>\<forall>c. _\<close> by auto
  qed (use exchangingD [OF \<open>?I t\<close>] exchanging_outside [OF \<open>?I t\<close>] in auto)
  have rest: "io_valid ?J (\<lambda>t. ?I t \<and> (\<not> present \<longrightarrow> (\<forall>c. t (backup_at R u @ ?x) \<noteq> Some (FileNode c))))
      (if \<not> present then io_return () else io_bind (ensure_real_parents R r) (\<lambda>_. fs_rename (backup_at R u @ ?x) (R @ ?x)))
      (\<lambda>_. exchanging R u t0 B C {}) ?J" for present
  proof (cases present)
    case True
    then have n: "\<not> \<not> present" by simp
    show ?thesis unfolding if_not_P [OF n] by (rule io_valid_conseq [OF io_valid_bind [OF par ren]]) auto
  next
    case False
    show ?thesis unfolding if_P [OF False] by (rule io_valid_return) (use kept False in auto)
  qed
  show ?thesis
    unfolding restore_backup_def r(1) lift_bind Let_def exchange_path_join(1) [OF r(1)]
    by (rule io_valid_bind [OF ex rest])
qed

section \<open>Rollback and exchange\<close>

lemma rollback_valid:
  assumes "\<forall>p \<in> set applied. exchange_path u p" "\<forall>p \<in> set backups. exchange_path u p"
  shows "io_valid (never_lost R u t0) (exchanging R u t0 (rel ` set backups) (rel ` set backups) (rel ` set applied))
    (rollback_update_files R (backup_at R u) applied backups) (\<lambda>_. exchanging R u t0 (rel ` set backups) {} {}) (never_lost R u t0)"
proof -
  let ?B = "rel ` set backups" and ?J = "never_lost R u t0"
  have one: "io_valid ?J (exchanging R u t0 ?B ?B (rel ` set ps)) (for_each (remove_applied R) ps)
      (\<lambda>_. exchanging R u t0 ?B ?B {}) ?J" if "\<forall>p \<in> set ps. exchange_path u p" for ps
    using that
  proof (induction ps)
    case Nil
    show ?case unfolding for_each.simps by (rule io_valid_return) simp
  next
    case (Cons p ps)
    from Cons.prems have p: "exchange_path u p" by simp
    show ?case unfolding for_each.simps set_simps image_insert
      by (rule io_valid_bind [OF remove_applied_valid [OF p]]) (use Cons in simp)
  qed
  have two: "io_valid ?J (exchanging R u t0 ?B (rel ` set ps) {}) (for_each (restore_backup R (backup_at R u)) ps)
      (\<lambda>_. exchanging R u t0 ?B {} {}) ?J" if "set ps \<subseteq> set backups" for ps
    using that
  proof (induction ps)
    case Nil
    show ?case unfolding for_each.simps by (rule io_valid_return) simp
  next
    case (Cons p ps)
    from Cons.prems assms(2) have p: "exchange_path u p" "rel p \<in> ?B" by auto
    show ?case unfolding for_each.simps set_simps image_insert
      by (rule io_valid_bind [OF restore_backup_valid [OF p]]) (use Cons in simp)
  qed
  have "io_valid ?J (exchanging R u t0 ?B ?B {}) (for_each (restore_backup R (backup_at R u)) backups)
      (\<lambda>_. exchanging R u t0 ?B {} {}) ?J"
    by (rule two [OF subset_refl])
  moreover have "io_valid ?J (exchanging R u t0 ?B ?B (rel ` set applied)) (for_each (remove_applied R) (rev applied))
      (\<lambda>_. exchanging R u t0 ?B ?B {}) ?J"
    using one [of "rev applied"] assms(1) by simp
  ultimately show ?thesis unfolding rollback_update_files_def by (rule io_valid_bind [rotated])
qed

lemma or_rollback_valid:
  assumes "io_valid J P m Q P'" "io_valid J P' rollback (\<lambda>_. E) E"
  shows "io_valid J P (or_rollback m rollback) Q E"
  unfolding or_rollback_def
  by (rule io_valid_catch [OF assms(1) io_valid_bind [OF assms(2) io_valid_fail]])

lemma or_rollback_Inl:
  assumes "or_rollback m rollback w = (Inl e, w')"
  obtains e1 w1 where "m w = (Inl e1, w1)" "rollback w1 = (Inr (), w') \<or> rollback w1 = (Inl e, w')"
proof -
  obtain x w1 where m: "m w = (x, w1)" by fastforce
  from assms m that show ?thesis
    by (cases x; cases "rollback w1"; cases "fst (rollback w1)") (auto simp: or_rollback_def io_catch_def io_bind_def)
qed

lemma or_rollback_Inr: "or_rollback m rollback w = (Inr x, w') \<longleftrightarrow> m w = (Inr x, w')"
  by (auto simp: or_rollback_def io_catch_def io_bind_def split: sum.splits prod.splits)

text \<open>The start of an exchange, and its invariant.\<close>

definition exchange_ready :: "path \<Rightarrow> string \<Rightarrow> string list \<Rightarrow> string list \<Rightarrow> tree \<Rightarrow> bool" where
  "exchange_ready R u backups changed t0 \<longleftrightarrow>
     (\<forall>p \<in> set backups \<union> set changed. exchange_path u p) \<and> prefix_free (rel ` set backups) \<and>
     (\<forall>q. outside u q \<longrightarrow> t0 (backup_at R u @ q) = None) \<and>
     (\<forall>q c. t0 (backup_at R u @ q) \<noteq> Some (FileNode c))"

definition exchange_inv :: "path \<Rightarrow> string \<Rightarrow> tree \<Rightarrow> string list \<Rightarrow> path set \<Rightarrow> path set \<Rightarrow> tree \<Rightarrow> bool" where
  "exchange_inv R u t0 backups G ap t \<longleftrightarrow>
     exchanging R u t0 (rel ` set backups) (rel ` set backups) ap t \<and> advanced R u t0 G ap t"

lemma exchange_inv_start: "exchange_ready R u backups changed t0 \<Longrightarrow> exchange_inv R u t0 backups {} {} t0"
  unfolding exchange_ready_def exchange_inv_def exchanging_def advanced_def by simp

lemma exchange_inv_end:
  assumes "exchange_inv R u t0 backups (rel ` set backups) ap t" "outside u q"
  shows "t (R @ q) = Some (FileNode c) \<longleftrightarrow>
    (if q \<in> ap then t0 (files_at R u @ q) = Some (FileNode c) else q \<notin> rel ` set backups \<and> t0 (R @ q) = Some (FileNode c))"
proof (cases "q \<in> ap")
  case True
  then obtain b where "t0 (files_at R u @ q) = Some (FileNode b)" "t (R @ q) = Some (FileNode b)"
    using assms unfolding exchange_inv_def advanced_def by blast
  with True show ?thesis by simp
next
  case False
  show ?thesis
  proof (cases "q \<in> rel ` set backups")
    case True
    with assms False have "t (R @ q) \<noteq> Some (FileNode c)" unfolding exchange_inv_def using advancedD(1) by metis
    with True False show ?thesis by simp
  next
    case out: False
    have "exchanging R u t0 (rel ` set backups) (rel ` set backups) ap t" using assms(1) unfolding exchange_inv_def by simp
    note D = exchangingD [OF this assms(2)]
    have "t0 (R @ q) = Some (FileNode c) \<longleftrightarrow> t (R @ q) = Some (FileNode c)"
      using D(1,2) [of c] False out by auto
    with False out show ?thesis by simp
  qed
qed

lemma backup_step:
  assumes "exchange_ready R u backups changed t0" "p \<in> set backups"
  shows "io_valid (never_lost R u t0) (exchange_inv R u t0 backups G {}) (move_to_backup R (backup_at R u) p)
    (\<lambda>_. exchange_inv R u t0 backups (insert (rel p) G) {}) (exchange_inv R u t0 backups G {})"
proof -
  have B: "exchange_path u p" "rel p \<in> rel ` set backups" "prefix_free (rel ` set backups)" "[] \<notin> rel ` set backups"
  proof -
    have all: "\<forall>p \<in> set backups. exchange_path u p" using assms(1) unfolding exchange_ready_def by simp
    then show "exchange_path u p" using assms(2) by (rule bspec)
    show "rel p \<in> rel ` set backups" using assms(2) by (rule imageI)
    show "prefix_free (rel ` set backups)" using assms(1) unfolding exchange_ready_def by simp
    show "[] \<notin> rel ` set backups"
    proof
      assume "[] \<in> rel ` set backups"
      then obtain p' where "p' \<in> set backups" "rel p' = []" by (metis imageE)
      with all show False by (simp add: exchange_path_def outside_def)
    qed
  qed
  show ?thesis using move_to_backup_valid [OF B] unfolding exchange_inv_def .
qed

lemma staged_step:
  assumes "exchange_ready R u backups changed t0" "p \<in> set changed"
  shows "io_valid (never_lost R u t0) (exchange_inv R u t0 backups G ap) (move_staged_into_instance R (files_at R u) p)
    (\<lambda>_. exchange_inv R u t0 backups G (insert (rel p) ap)) (exchange_inv R u t0 backups G ap)"
proof -
  have "exchange_path u p" using assms unfolding exchange_ready_def by blast
  then show ?thesis using move_staged_valid unfolding exchange_inv_def by blast
qed

lemma rollback_step:
  assumes "exchange_ready R u backups changed t0" "set applied \<subseteq> set changed"
  shows "io_valid (never_lost R u t0) (exchange_inv R u t0 backups G (rel ` set applied))
    (rollback_update_files R (backup_at R u) applied backups) (\<lambda>_ t. restored R u t0 t \<and> never_lost R u t0 t) (never_lost R u t0)"
proof -
  have this_paths: "\<forall>p \<in> set applied. exchange_path u p" "\<forall>p \<in> set backups. exchange_path u p"
    using assms unfolding exchange_ready_def by auto
  show ?thesis by (rule io_valid_conseq [OF rollback_valid [OF this_paths]]) (auto simp: exchange_inv_def intro: exchanging_restored exchanging_never_lost)
qed

lemma exchange_inv_J: "exchange_inv R u t0 backups G ap t \<Longrightarrow> never_lost R u t0 t"
  unfolding exchange_inv_def by (blast intro: exchanging_never_lost)

lemma backups_valid:
  assumes "exchange_ready R u backups changed t0" "set ps \<subseteq> set backups"
  shows "io_valid (never_lost R u t0) (exchange_inv R u t0 backups G {})
    (for_each (\<lambda>p. or_rollback (move_to_backup R (backup_at R u) p) (rollback_update_files R (backup_at R u) [] backups)) ps)
    (\<lambda>_. exchange_inv R u t0 backups (rel ` set ps \<union> G) {}) (never_lost R u t0)"
  using assms(2)
proof (induction ps arbitrary: G)
  case Nil
  show ?case unfolding for_each.simps by (rule io_valid_return) simp
next
  case (Cons p ps)
  from Cons.prems have p: "p \<in> set backups" by simp
  have rb: "io_valid (never_lost R u t0) (exchange_inv R u t0 backups G {})
      (rollback_update_files R (backup_at R u) [] backups) (\<lambda>_. never_lost R u t0) (never_lost R u t0)" for G
    by (rule io_valid_conseq [OF rollback_step [OF assms(1), of "[]"]]) auto
  have sets: "rel ` set (p # ps) \<union> G = rel ` set ps \<union> insert (rel p) G" by auto
  from Cons.prems have "set ps \<subseteq> set backups" by simp
  from Cons.IH [OF this, of "insert (rel p) G"] show ?case unfolding for_each.simps sets
    by (rule io_valid_bind [OF or_rollback_valid [OF backup_step [OF assms(1) p] rb]])
qed

lemma staged_valid:
  assumes "exchange_ready R u backups changed t0" "set applied \<union> set ps \<subseteq> set changed"
  shows "io_valid (never_lost R u t0) (exchange_inv R u t0 backups G (rel ` set applied))
    (apply_staged R (files_at R u) (backup_at R u) backups applied ps)
    (\<lambda>out. exchange_inv R u t0 backups G (rel ` (set applied \<union> set ps))) (never_lost R u t0)"
  using assms(2)
proof (induction ps arbitrary: applied)
  case Nil
  show ?case unfolding apply_staged.simps by (rule io_valid_return) simp
next
  case (Cons p ps)
  from Cons.prems have p: "p \<in> set changed" "set applied \<subseteq> set changed" by auto
  have rb: "io_valid (never_lost R u t0) (exchange_inv R u t0 backups G (rel ` set applied))
      (rollback_update_files R (backup_at R u) applied backups) (\<lambda>_. never_lost R u t0) (never_lost R u t0)"
    by (rule io_valid_conseq [OF rollback_step [OF assms(1) p(2)]]) auto
  have IH: "io_valid (never_lost R u t0) (exchange_inv R u t0 backups G (insert (rel p) (rel ` set applied)))
    (apply_staged R (files_at R u) (backup_at R u) backups (applied @ [p]) ps)
    (\<lambda>out. exchange_inv R u t0 backups G (rel ` (set applied \<union> set (p # ps)))) (never_lost R u t0)"
    using Cons.IH [of "applied @ [p]"] Cons.prems by simp
  show ?case unfolding apply_staged.simps
    by (rule io_valid_bind [OF or_rollback_valid [OF staged_step [OF assms(1) p(1)] rb] IH])
qed

lemma exchange_valid:
  assumes "exchange_ready R u backups changed t0"
  shows "io_valid (never_lost R u t0) (\<lambda>t. t = t0) (exchange_files R (files_at R u) (backup_at R u) backups changed)
    (\<lambda>_. exchange_inv R u t0 backups (rel ` set backups) (rel ` set changed)) (never_lost R u t0)"
proof -
  have one: "io_valid (never_lost R u t0) (\<lambda>t. t = t0)
    (for_each (\<lambda>p. or_rollback (move_to_backup R (backup_at R u) p) (rollback_update_files R (backup_at R u) [] backups)) backups)
    (\<lambda>_. exchange_inv R u t0 backups (rel ` set backups) {}) (never_lost R u t0)"
    by (rule io_valid_conseq [OF backups_valid [OF assms subset_refl, where G = "{}"]])
      (use exchange_inv_start [OF assms] in simp_all)
  have two: "io_valid (never_lost R u t0) (exchange_inv R u t0 backups (rel ` set backups) {})
    (apply_staged R (files_at R u) (backup_at R u) backups [] changed)
    (\<lambda>out. exchange_inv R u t0 backups (rel ` set backups) (rel ` set changed)) (never_lost R u t0)"
    using staged_valid [OF assms, where applied = "[]" and ps = changed and G = "rel ` set backups"] by simp
  show ?thesis unfolding exchange_files_def by (rule io_valid_bind [OF one two])
qed

text \<open>C20: during the exchange of the files of an update no file is ever lost: at every moment at which the process may stop, and
  afterwards whatever the outcome and whatever faults the disk reports, each regular file that the instance had
  is at its place or in the backup directory of the update, with its content, and the backups hold nothing else.
\<close>

theorem exchange_never_loses_files:
  assumes "exchange_ready R u backups changed (w_tree w)" "w_crash w = []"
    and "exchange_files R (files_at R u) (backup_at R u) backups changed w = (x, w')"
  shows "never_lost R u (w_tree w) (w_tree w') \<and> (\<forall>t \<in> set (w_crash w'). never_lost R u (w_tree w) t)"
  using io_valid_run [OF exchange_valid [OF assms(1)] refl assms(2,3)]
  by (cases x) (auto intro: exchange_inv_J)

text \<open>C22: a completed exchange has exactly the planned effect: a changed path holds the staged file, a path that was backed up and
  not replaced is gone, and every other file of the instance is as it was.
\<close>

theorem exchange_files_effect:
  assumes "exchange_ready R u backups changed (w_tree w)"
    and "exchange_files R (files_at R u) (backup_at R u) backups changed w = (Inr applied, w')" "outside u q"
  shows "w_tree w' (R @ q) = Some (FileNode c) \<longleftrightarrow>
    (if q \<in> rel ` set changed then w_tree w (files_at R u @ q) = Some (FileNode c)
     else q \<notin> rel ` set backups \<and> w_tree w (R @ q) = Some (FileNode c))"
proof -
  have "exchange_inv R u (w_tree w) backups (rel ` set backups) (rel ` set changed) (w_tree w')"
    using io_validD(2) [OF exchange_valid [OF assms(1)] refl assms(2)] by simp
  from exchange_inv_end [OF this assms(3)] show ?thesis .
qed

lemma backups_error:
  assumes "exchange_ready R u backups changed t0" "set ps \<subseteq> set backups" "exchange_inv R u t0 backups G {} (w_tree w)"
    and "for_each (\<lambda>p. or_rollback (move_to_backup R (backup_at R u) p) (rollback_update_files R (backup_at R u) [] backups)) ps w
      = (Inl e, w')"
  shows "restored R u t0 (w_tree w') \<or> (\<exists>v. rollback_update_files R (backup_at R u) [] backups v = (Inl e, w'))"
  using assms(2-4)
proof (induction ps arbitrary: G w)
  case (Cons p ps)
  from Cons.prems have p: "p \<in> set backups" by simp
  let ?step = "move_to_backup R (backup_at R u) p" and ?rb = "rollback_update_files R (backup_at R u) [] backups"
  obtain x w1 where x: "or_rollback ?step ?rb w = (x, w1)" by fastforce
  show ?case
  proof (cases x)
    case (Inl e1)
    with Cons.prems(3) x have e: "or_rollback ?step ?rb w = (Inl e, w')" by (simp add: io_bind_def)
    from e obtain e2 w2 where m: "?step w = (Inl e2, w2)" and r: "?rb w2 = (Inr (), w') \<or> ?rb w2 = (Inl e, w')"
      by (rule or_rollback_Inl)
    have "exchange_inv R u t0 backups G {} (w_tree w2)"
      using io_validD(3) [OF backup_step [OF assms(1) p] Cons.prems(2) m] by simp
    then have "exchange_inv R u t0 backups G (rel ` set []) (w_tree w2)" by simp
    from io_validD(2) [OF rollback_step [OF assms(1), of "[]"] this] r show ?thesis by auto
  next
    case (Inr y)
    with x have m: "?step w = (Inr y, w1)" by (simp add: or_rollback_Inr)
    have "exchange_inv R u t0 backups (insert (rel p) G) {} (w_tree w1)"
      using io_validD(2) [OF backup_step [OF assms(1) p] Cons.prems(2) m] by simp
    from Cons.IH [OF _ this] Cons.prems(1,3) x Inr show ?thesis by (simp add: io_bind_def)
  qed
qed simp

lemma staged_error:
  assumes "exchange_ready R u backups changed t0" "set applied \<union> set ps \<subseteq> set changed"
    and "exchange_inv R u t0 backups G (rel ` set applied) (w_tree w)"
    and "apply_staged R (files_at R u) (backup_at R u) backups applied ps w = (Inl e, w')"
  shows "restored R u t0 (w_tree w') \<or> (\<exists>ap v. rollback_update_files R (backup_at R u) ap backups v = (Inl e, w'))"
  using assms(2-4)
proof (induction ps arbitrary: applied w)
  case (Cons p ps)
  from Cons.prems have p: "p \<in> set changed" "set applied \<subseteq> set changed" by auto
  let ?step = "move_staged_into_instance R (files_at R u) p" and ?rb = "rollback_update_files R (backup_at R u) applied backups"
  obtain x w1 where x: "or_rollback ?step ?rb w = (x, w1)" by fastforce
  show ?case
  proof (cases x)
    case (Inl e1)
    with Cons.prems(3) x have e: "or_rollback ?step ?rb w = (Inl e, w')" by (simp add: io_bind_def)
    from e obtain e2 w2 where m: "?step w = (Inl e2, w2)" and r: "?rb w2 = (Inr (), w') \<or> ?rb w2 = (Inl e, w')"
      by (rule or_rollback_Inl)
    have "exchange_inv R u t0 backups G (rel ` set applied) (w_tree w2)"
      using io_validD(3) [OF staged_step [OF assms(1) p(1)] Cons.prems(2) m] by simp
    from io_validD(2) [OF rollback_step [OF assms(1) p(2)] this] r show ?thesis by auto
  next
    case (Inr y)
    with x have m: "?step w = (Inr y, w1)" by (simp add: or_rollback_Inr)
    have "exchange_inv R u t0 backups G (insert (rel p) (rel ` set applied)) (w_tree w1)"
      using io_validD(2) [OF staged_step [OF assms(1) p(1)] Cons.prems(2) m] by simp
    then have "exchange_inv R u t0 backups G (rel ` set (applied @ [p])) (w_tree w1)" by simp
    from Cons.IH [OF _ this] Cons.prems(1,3) x Inr show ?thesis by (simp add: io_bind_def)
  qed
qed simp


section \<open>Verified copies\<close>

text \<open>A file of the given size and digest; nothing, or what was there.\<close>

definition has_content :: "digests \<Rightarrow> u64 \<Rightarrow> FileHash \<Rightarrow> node option \<Rightarrow> bool" where
  "has_content dg expected hash n \<longleftrightarrow>
     (\<exists>c. n = Some (FileNode c) \<and> content_expected dg (Some expected) (Some hash) c)"

definition old_or_content :: "digests \<Rightarrow> u64 \<Rightarrow> FileHash \<Rightarrow> node option \<Rightarrow> node option \<Rightarrow> bool" where
  "old_or_content dg expected hash old n \<longleftrightarrow> n = old \<or> n = None \<or> has_content dg expected hash n"

lemma copy_temporary_apart:
  assumes "p \<noteq> []"
  shows "with_extension p ''centralcore.tmp'' \<noteq> p"
proof
  have stem: "file_stem (s @ ''.centralcore.tmp'') = s @ ''.centralcore''" for s
    by (simp add: file_stem_def)
  assume "with_extension p ''centralcore.tmp'' = p"
  then have "file_stem (last p) @ ''.centralcore.tmp'' = last p"
    using assms by (simp add: with_extension_def) (metis last_snoc)
  with stem [of "file_stem (last p)"] have "file_stem (last p) = file_stem (last p) @ ''.centralcore''" by simp
  then show False by simp
qed

lemma reject_valid:
  assumes keep: "\<And>t t'. I t \<Longrightarrow> remove_file_tree p t = Inr t' \<Longrightarrow> I t'" and J: "\<And>t. I t \<Longrightarrow> J t" and root: "\<not> is_root p"
  shows "io_valid J I (reject_non_file_or_symlink p) (\<lambda>_ t. I t \<and> t p = None) I"
proof -
  have find: "io_valid J I (find_node p) (\<lambda>x t. I t \<and> x = t p) I"
    by (rule io_valid_conseq [OF find_node_keeps [where I = I]]) (use root in auto)
  have rm: "io_valid J I (fs_remove_file p) (\<lambda>_ t. I t \<and> t p = None) I"
    unfolding fs_remove_file_def
  proof (rule io_valid_step)
    fix t t' assume t: "I t" "remove_file_tree p t = Inr t'"
    have "t' p = None" using t(2) by (auto dest!: remove_file_tree_Inr)
    with keep [OF t] J show "J t' \<and> I t' \<and> t' p = None" by blast
  qed
  have rest: "io_valid J (\<lambda>t. I t \<and> found = t p) (case found of
       Some n \<Rightarrow> if \<not> is_file_node n then io_fail (UnsafeFilesystemEntry p ''managed destination must be a real file'')
                 else fs_remove_file p
     | None \<Rightarrow> io_return ()) (\<lambda>_ t. I t \<and> t p = None) I" for found
  proof (cases found)
    case None
    show ?thesis unfolding None option.case by (rule io_valid_return) simp
  next
    case (Some n)
    show ?thesis unfolding Some option.case
      by (rule io_valid_real_file, rule io_valid_conseq [OF rm]) auto
  qed
  show ?thesis unfolding reject_non_file_or_symlink_def by (rule io_valid_bind [OF find rest])
qed

lemma copy_absolute_valid:
  fixes dg root r expected hash old s
  defines "d \<equiv> join_under r root"
  defines "J \<equiv> \<lambda>t :: tree. old_or_content dg expected hash old (t d)"
  assumes s: "srp_new s = Inr r"
  shows "io_valid J (\<lambda>t. t d = old) (copy_absolute_verified dg source root r expected hash)
    (\<lambda>_ t. has_content dg expected hash (t d)) J"
proof -
  let ?m = "with_extension d ''centralcore.tmp''" and ?I = "\<lambda>t :: tree. t d = old"
  have d: "d = root @ rel s" "\<not> is_root d" "d \<noteq> []"
    using exchange_path_join(1) [OF s] destination_below(3) [OF s, of root] by (auto simp: d_def is_root_def)
  have md: "?m \<noteq> d" by (rule copy_temporary_apart [OF d(3)])
  have m: "\<not> is_root ?m"
  proof
    have len: "length ?m = length d" by (rule with_extension_length [OF d(3)])
    assume "is_root ?m"
    then have "last ?m = ''/''" using len d(3) by (auto simp: is_root_def)
    then show False by (simp add: with_extension_def)
  qed
  have J: "?I t \<Longrightarrow> J t" for t by (simp add: J_def old_or_content_def)
  have frame: "io_frame x \<Longrightarrow> io_valid J P x (\<lambda>_. P) J" if "\<And>t. P t \<Longrightarrow> J t" for P and x :: "'a io"
    using that by (intro io_valid_frame) auto
  have src: "io_valid J ?I (require_source source reason) (\<lambda>_. ?I) J" for reason
    by (rule io_valid_conseq [OF require_source_valid [where P = ?I]]) (auto simp: J)
  have ver: "io_valid J ?I (verify_file dg source (Some expected) (Some hash)) (\<lambda>_. ?I) J"
    by (rule io_valid_frame [OF io_frame_verify_file]) (simp_all add: J)
  have sub: "set (ancestors root) \<subseteq> instance_dirs root (rel s)" by (simp add: instance_dirs_def)
  have out: "d \<notin> instance_dirs root (rel s)"
    using ancestors_length [of d root] destination_below(2) [OF s, of root]
    by (auto simp: instance_dirs_def d_def [symmetric]) (auto simp: d(1) dest!: sym [of "rel s"])
  have par: "io_valid J ?I (ensure_real_parents root r) (\<lambda>_. ?I) J"
    by (rule io_valid_conseq [OF ensure_real_parents_valid [OF _ _ sub parents_in_instance [OF s], where I = ?I]])
      (use adds_dirs_same out J in auto)
  have rej: "io_valid J ?I (reject_non_file_or_symlink ?m) (\<lambda>_ t. ?I t \<and> t ?m = None) J"
    by (rule io_valid_conseq [OF reject_valid [where I = ?I, OF _ _ m]]) (use md J in \<open>auto dest!: remove_file_tree_Inr\<close>)
  have rd: "io_valid J (\<lambda>t. ?I t \<and> t ?m = None) (fs_read source) (\<lambda>_ t. ?I t \<and> t ?m = None) J"
    by (rule frame) (auto simp: J)
  have wr: "io_valid J (\<lambda>t. ?I t \<and> t ?m = None) (fs_write ?m c) (\<lambda>_ t. ?I t \<and> t ?m = Some (FileNode c)) J" for c
  proof (rule io_valid_write)
    fix t q and k :: nat assume t: "?I t \<and> t ?m = None" "write_target ?m t = Inr q"
    have "q = ?m" by (rule write_target_plain [OF _ t(2)]) (simp add: t(1))
    with t(1) md show "J (t(q \<mapsto> FileNode (take k c))) \<and> J (t(q \<mapsto> FileNode (take k c)))"
      "?I (t(q \<mapsto> FileNode c)) \<and> (t(q \<mapsto> FileNode c)) ?m = Some (FileNode c)"
      by (auto simp: J_def old_or_content_def)
  qed (simp add: J)
  let ?V = "\<lambda>t :: tree. ?I t \<and> has_content dg expected hash (t ?m)"
  have ver2: "io_valid J (\<lambda>t. ?I t \<and> t ?m = Some (FileNode c)) (verify_file dg ?m (Some expected) (Some hash)) (\<lambda>_. ?V) J" for c
  proof (rule io_valid_conseq [OF io_valid_frame_result [OF io_frame_verify_file, where P = "\<lambda>t. ?I t \<and> t ?m = Some (FileNode c)"
        and R = "\<lambda>_ t. \<exists>b. read_tree ?m t = Inr b \<and> verify_content dg ?m (Some expected) (Some hash) b = Inr ()"]])
    show "\<exists>b. read_tree ?m (w_tree w) = Inr b \<and> verify_content dg ?m (Some expected) (Some hash) b = Inr ()"
      if "verify_file dg ?m (Some expected) (Some hash) w = (Inr x, w')" for w x w' by (rule verify_file_ok [OF that])
  qed (auto simp: J has_content_def verify_content_Inr)
  have V: "?V t \<Longrightarrow> J t" for t by (simp add: J)
  have rep: "io_valid J ?V (replace_file ?m d) (\<lambda>_ t. has_content dg expected hash (t d)) J"
    unfolding replace_file_def
  proof (rule io_valid_bind)
    let ?W = "\<lambda>t :: tree. (t d = old \<or> t d = None) \<and> has_content dg expected hash (t ?m)"
    have W: "?W t \<Longrightarrow> J t" for t by (auto simp: J_def old_or_content_def)
    show "io_valid J ?V (reject_non_file_or_symlink d) (\<lambda>_. ?W) J"
      by (rule io_valid_conseq [OF reject_valid [where I = ?W, OF _ _ d(2)]])
        (use md W in \<open>auto dest!: remove_file_tree_Inr\<close>)
    show "io_valid J ?W (fs_rename ?m d) (\<lambda>_ t. has_content dg expected hash (t d)) J"
      unfolding fs_rename_def
    proof (rule io_valid_step)
      fix t t' assume t: "?W t" "rename_tree ?m d t = Inr t'"
      from t(1) obtain c where c: "t ?m = Some (FileNode c)" by (auto simp: has_content_def)
      have "t' = t(d \<mapsto> FileNode c, ?m := None)" by (rule rename_file_tree [OF t(2) c md])
      then have "t' d = t ?m" using c md by simp
      with t(1) show "J t' \<and> has_content dg expected hash (t' d)" by (simp add: J_def old_or_content_def)
    qed (rule W)
  qed
  show ?thesis unfolding copy_absolute_verified_def Let_def d_def [symmetric]
    by (rule io_valid_bind [OF src io_valid_bind [OF ver io_valid_bind [OF par io_valid_bind [OF rej
          io_valid_bind [OF rd io_valid_bind [OF wr io_valid_bind [OF ver2 rep]]]]]]])
qed

text \<open>C29: a verified copy places only verified content: at every moment at which it may stop, under any faults of the disk, the destination holds
  what it held before, nothing, or a regular file of the expected size and digest; after success the latter.
\<close>

theorem copy_places_only_verified:
  assumes "srp_new s = Inr r" "w_crash w = []"
    and "copy_absolute_verified dg source root r expected hash w = (x, w')"
  shows "(\<forall>t \<in> insert (w_tree w') (set (w_crash w')).
      old_or_content dg expected hash (w_tree w (join_under r root)) (t (join_under r root))) \<and>
    (is_ok x \<longrightarrow> has_content dg expected hash (w_tree w' (join_under r root)))"
  using io_valid_run [OF copy_absolute_valid [OF assms(1)] refl assms(2,3)]
  by (cases x) (auto simp: old_or_content_def is_ok_iff)

section \<open>Samples\<close>

text \<open>An update that replaces one mod by another; in the second tree a file of the user is in the way.\<close>

definition sample_exchange_tree :: tree where
  "sample_exchange_tree = [[''i''] \<mapsto> DirNode, [''i'', ''one''] \<mapsto> DirNode, [''i'', ''one'', ''.minecraft''] \<mapsto> DirNode,
     [''i'', ''one'', ''.minecraft'', ''old''] \<mapsto> FileNode ''1'', [''i'', ''one'', ''runtime''] \<mapsto> DirNode,
     [''i'', ''one'', ''runtime'', ''update-1''] \<mapsto> DirNode, [''i'', ''one'', ''runtime'', ''update-1'', ''backups''] \<mapsto> DirNode,
     [''i'', ''one'', ''runtime'', ''update-1'', ''files''] \<mapsto> DirNode,
     [''i'', ''one'', ''runtime'', ''update-1'', ''files'', ''.minecraft''] \<mapsto> DirNode,
     [''i'', ''one'', ''runtime'', ''update-1'', ''files'', ''.minecraft'', ''new''] \<mapsto> FileNode ''2'']"

definition sample_exchange :: "tree \<Rightarrow> world" where
  "sample_exchange extra = sample_store\<lparr>w_tree := sample_exchange_tree ++ extra\<rparr>"

definition sample_conflict :: tree where
  "sample_conflict = [[''i'', ''one'', ''.minecraft'', ''new''] \<mapsto> FileNode ''mine'']"

abbreviation sample_root :: path where
  "sample_root \<equiv> [''i'', ''one'']"

abbreviation sample_run :: "tree \<Rightarrow> string list result \<times> world" where
  "sample_run extra \<equiv> exchange_files sample_root (files_at sample_root ''update-1'') (backup_at sample_root ''update-1'')
     [''.minecraft/old''] [''.minecraft/new''] (sample_exchange extra)"

lemma sample_exchange_world [simp]:
  "w_crash (sample_exchange extra) = []" "w_faults (sample_exchange extra) = []"
  "w_tree (sample_exchange extra) = sample_exchange_tree ++ extra"
  by (simp_all add: sample_exchange_def sample_store_def)

lemma sample_exchange_paths: "exchange_path ''update-1'' ''.minecraft/old''" "exchange_path ''update-1'' ''.minecraft/new''"
proof -
  have "is_ok (srp_new ''.minecraft/old'')" "is_ok (srp_new ''.minecraft/new'')" by code_simp+
  moreover have "outside ''update-1'' (rel ''.minecraft/old'')" "outside ''update-1'' (rel ''.minecraft/new'')" by code_simp+
  ultimately show "exchange_path ''update-1'' ''.minecraft/old''" "exchange_path ''update-1'' ''.minecraft/new''"
    by (auto simp: exchange_path_def is_ok_iff)
qed

lemma sample_exchange_ready:
  assumes "extra = Map.empty \<or> extra = sample_conflict"
  shows "exchange_ready sample_root ''update-1'' [''.minecraft/old''] [''.minecraft/new''] (w_tree (sample_exchange extra))"
  unfolding exchange_ready_def
proof (intro conjI)
  show "\<forall>q. outside ''update-1'' q \<longrightarrow> w_tree (sample_exchange extra) (backup_at sample_root ''update-1'' @ q) = None"
    using assms by (auto simp: staging_root_def sample_exchange_tree_def sample_conflict_def outside_def map_add_def)
  show "\<forall>q c. w_tree (sample_exchange extra) (backup_at sample_root ''update-1'' @ q) \<noteq> Some (FileNode c)"
    using assms by (auto simp: staging_root_def sample_exchange_tree_def sample_conflict_def map_add_def split: if_splits)
qed (use sample_exchange_paths in \<open>simp_all add: prefix_free_def\<close>)

lemma sample_exchange_runs:
  "is_ok (fst (sample_run Map.empty))" "\<not> is_ok (fst (sample_run sample_conflict))"
  "w_tree (snd (sample_run sample_conflict)) [''i'', ''one'', ''.minecraft'', ''old''] = Some (FileNode ''1'')"
  by code_simp+

theorem exchange_never_loses_files_witness:
  "never_lost sample_root ''update-1'' (w_tree (sample_exchange sample_conflict)) (w_tree (snd (sample_run sample_conflict)))"
  using exchange_never_loses_files [OF sample_exchange_ready, of sample_conflict] sample_exchange_world(1)
  by (metis prod.collapse)

theorem exchange_files_effect_witness:
  "\<exists>w'. sample_run Map.empty = (Inr [''.minecraft/new''], w') \<and>
     w_tree w' [''i'', ''one'', ''.minecraft'', ''new''] = Some (FileNode ''2'') \<and>
     w_tree w' [''i'', ''one'', ''.minecraft'', ''old''] \<noteq> Some (FileNode ''1'')"
proof -
  obtain applied w' where run: "sample_run Map.empty = (Inr applied, w')"
    using sample_exchange_runs(1) by (auto simp: is_ok_iff prod_eq_iff)
  have "fst (sample_run Map.empty) = Inr [''.minecraft/new'']" by code_simp
  with run have a: "applied = [''.minecraft/new'']" by simp
  have o: "outside ''update-1'' [''.minecraft'', ''new'']" "outside ''update-1'' [''.minecraft'', ''old'']"
    "rel ''.minecraft/new'' = [''.minecraft'', ''new'']" "rel ''.minecraft/old'' = [''.minecraft'', ''old'']"
    by code_simp+
  have ready: "exchange_ready sample_root ''update-1'' [''.minecraft/old''] [''.minecraft/new''] (w_tree (sample_exchange Map.empty))"
    by (rule sample_exchange_ready) simp
  have new: "w_tree (sample_exchange Map.empty) (files_at sample_root ''update-1'' @ [''.minecraft'', ''new'']) = Some (FileNode ''2'')"
    by (simp add: sample_exchange_tree_def staging_root_def)
  from exchange_files_effect [OF ready run o(1)] new have "w_tree w' (sample_root @ [''.minecraft'', ''new'']) = Some (FileNode ''2'')"
    by (simp add: o(3))
  moreover from exchange_files_effect [OF ready run o(2)] have "w_tree w' (sample_root @ [''.minecraft'', ''old'']) \<noteq> Some (FileNode ''1'')"
    by (simp add: o(3,4))
  ultimately show ?thesis using run a by auto
qed


theorem copy_places_only_verified_witness:
  "has_content (\<lambda>_ c. c) 1 \<lparr>fh_algorithm = Sha256, fh_value = ''31''\<rparr>
     (w_tree (snd (copy_absolute_verified (\<lambda>_ c. c) [''i'', ''one'', ''.minecraft'', ''old''] [''i''] (SafeRelativePath ''copy'') 1
       \<lparr>fh_algorithm = Sha256, fh_value = ''31''\<rparr> (sample_exchange Map.empty))) [''i'', ''copy''])"
proof -
  let ?run = "copy_absolute_verified (\<lambda>_ c. c) [''i'', ''one'', ''.minecraft'', ''old''] [''i''] (SafeRelativePath ''copy'') 1
       \<lparr>fh_algorithm = Sha256, fh_value = ''31''\<rparr> (sample_exchange Map.empty)"
  have ok: "is_ok (fst ?run)" by code_simp
  have r: "srp_new ''copy'' = Inr (SafeRelativePath ''copy'')" "join_under (SafeRelativePath ''copy'') [''i''] = [''i'', ''copy'']"
    by code_simp+
  obtain x w' where run: "?run = (x, w')" by fastforce
  from copy_places_only_verified [OF r(1) _ run] ok run r(2) show ?thesis by simp
qed

end
