(* ===== verification/Recovery.thy ===== *)
theory Recovery
  imports UpdateFiles
begin

text \<open>
  What a restart does with the operations that a stopped process left behind (\<^verbatim>\<open>minecraft/recovery.rs\<close>): the
  files that an interrupted update had moved to its backups return to their places, the saved
  documents are put back, the instance is verified, and its recorded state becomes installed or
  recoverable.

  The main results compose this with the exchange of files of \<open>UpdateFiles\<close>: wherever the process stopped during
  the exchange, and wherever it stops again during the recovery, no file is lost; and a recovery that is not
  disturbed returns, with every file that the instance had before the update in its place.

  The walk over the backups runs with fuel for the directories it opens; their number suffices.
\<close>

section \<open>Operations\<close>

record RecoveryReport =
  rr_recovered :: u64
  rr_recoverable :: u64
  rr_active_elsewhere :: u64

definition ensure_recovery_parents :: "path \<Rightarrow> path \<Rightarrow> unit io" where
  "ensure_recovery_parents root parent =
     (if \<not> below root parent
      then io_fail (UnsafeFilesystemEntry parent ''update recovery parent escaped instance root'')
      else real_parents ''update recovery parent must be a real directory'' root (drop (length root) parent))"

text \<open>A regular file that is in the way is removed, and the file of the backup renamed to its place.\<close>

definition put_back :: "path \<Rightarrow> path \<Rightarrow> string \<Rightarrow> unit io" where
  "put_back source destination reason =
     io_bind (fs_try_exists destination) (\<lambda>present.
     io_bind (if present
              then io_bind (require_source destination reason) (\<lambda>_. fs_remove_file destination)
              else io_return ()) (\<lambda>_.
     fs_rename source destination))"

definition restore_file :: "path \<Rightarrow> path \<Rightarrow> path \<Rightarrow> unit io" where
  "restore_file instance_root backup_root p =
     (if \<not> below backup_root p then io_fail (UnsafeFilesystemEntry p ''update backup escaped its root'')
      else
      let destination = instance_root @ drop (length backup_root) p in
      io_bind (ensure_recovery_parents instance_root (butlast destination)) (\<lambda>_.
      put_back p destination ''update recovery destination must be a real file''))"

fun restore_entries :: "path \<Rightarrow> path \<Rightarrow> path \<Rightarrow> string list \<Rightarrow> path list \<Rightarrow> path list io" where
  "restore_entries instance_root backup_root directory [] directories = io_return directories"
| "restore_entries instance_root backup_root directory (n # names) directories =
     io_bind (fs_symlink_metadata (directory @ [n])) (\<lambda>node.
     case node of
       SymlinkNode _ \<Rightarrow>
         io_fail (UnsafeFilesystemEntry (directory @ [n]) ''symbolic links are forbidden in update backups'')
     | DirNode \<Rightarrow> restore_entries instance_root backup_root directory names ((directory @ [n]) # directories)
     | FileNode _ \<Rightarrow> io_bind (restore_file instance_root backup_root (directory @ [n])) (\<lambda>_.
         restore_entries instance_root backup_root directory names directories))"

fun restore_directories :: "entry_order \<Rightarrow> nat \<Rightarrow> path \<Rightarrow> path \<Rightarrow> path list \<Rightarrow> unit io" where
  "restore_directories entries fuel instance_root backup_root [] = io_return ()"
| "restore_directories entries 0 instance_root backup_root (d # directories) = io_fail (Panic ''directory walk out of fuel'')"
| "restore_directories entries (Suc fuel) instance_root backup_root (d # directories) =
     io_bind (fs_symlink_metadata d) (\<lambda>node.
     if node \<noteq> DirNode then io_fail (UnsafeFilesystemEntry d ''update backup entry must be a real directory'')
     else
     io_bind (fs_read_dir entries d) (\<lambda>names.
     io_bind (restore_entries instance_root backup_root d names directories)
       (restore_directories entries fuel instance_root backup_root)))"

definition restore_backup_tree :: "entry_order \<Rightarrow> nat \<Rightarrow> path \<Rightarrow> path \<Rightarrow> unit io" where
  "restore_backup_tree entries fuel instance_root backup_root =
     restore_directories entries fuel instance_root backup_root [backup_root]"

definition restore_metadata_file :: "path \<Rightarrow> path \<Rightarrow> unit io" where
  "restore_metadata_file source destination =
     io_bind (fs_try_exists source) (\<lambda>present.
     if \<not> present then io_return ()
     else
     io_bind (require_source source ''update recovery metadata must be a real file'') (\<lambda>_.
     put_back source destination ''metadata recovery destination must be a real file''))"

text \<open>The body of \<open>restore_abandoned_update\<close> for one entry of the \<open>runtime\<close> directory.\<close>

definition restore_update :: "entry_order \<Rightarrow> nat \<Rightarrow> path \<Rightarrow> string \<Rightarrow> unit io" where
  "restore_update entries fuel instance_root name =
     (let runtime = instance_root @ [''runtime'']; staging = runtime @ [name]; backup_root = staging @ [''backups''] in
      if \<not> starts_with name ''update-'' then io_return ()
      else
      io_bind (fs_symlink_metadata staging) (\<lambda>node.
      if node \<noteq> DirNode
      then io_fail (UnsafeFilesystemEntry staging ''update recovery staging must be a real directory'')
      else
      io_bind (fs_try_exists backup_root) (\<lambda>present.
      io_bind (if present then restore_backup_tree entries fuel instance_root backup_root else io_return ()) (\<lambda>_.
      io_bind (restore_metadata_file (staging @ [''instance.json.previous'']) (instance_root @ [''instance.json''])) (\<lambda>_.
      io_bind (restore_metadata_file (staging @ [''managed-files.json.previous'']) (runtime @ [''managed-files.json''])) (\<lambda>_.
      fs_remove_dir_all staging))))))"

definition restore_abandoned_update :: "entry_order \<Rightarrow> nat \<Rightarrow> path \<Rightarrow> unit io" where
  "restore_abandoned_update entries fuel instance_root =
     io_bind (io_try (fs_read_dir entries (instance_root @ [''runtime'']))) (\<lambda>listed.
     case listed of
       Inr names \<Rightarrow> for_each (restore_update entries fuel instance_root) names
     | Inl e \<Rightarrow> if is_not_found e then io_return () else io_fail e)"

definition cleanup_abandoned_staging :: "entry_order \<Rightarrow> path \<Rightarrow> unit io" where
  "cleanup_abandoned_staging entries instance_root =
     (let staging = instance_root @ [''runtime'', ''.staging''] in
      io_bind (find_node staging) (\<lambda>found.
      case found of
        None \<Rightarrow> io_return ()
      | Some n \<Rightarrow>
          if n \<noteq> DirNode
          then io_fail (UnsafeFilesystemEntry staging ''transaction staging root must be a real directory'')
          else
          io_bind (fs_read_dir entries staging) (for_each (\<lambda>name.
            io_bind (fs_symlink_metadata (staging @ [name])) (\<lambda>m.
            if m \<noteq> DirNode
            then io_fail (UnsafeFilesystemEntry (staging @ [name]) ''transaction staging entry must be a real directory'')
            else fs_remove_dir_all (staging @ [name]))))))"

text \<open>\<open>recover\<close>: whether the managed files of an instance are healthy, the reconciliation of one instance, and the loop.\<close>

definition verified_healthy :: "cache_manager \<Rightarrow> Instance \<Rightarrow> bool io" where
  "verified_healthy cm i =
     io_catch (io_bind (load_managed_index cm i) (\<lambda>index.
               io_bind (verify_index cm i (cm_root cm) index True) (\<lambda>report. io_return (is_healthy report))))
       (\<lambda>_. io_return False)"

definition recover_instance :: "cache_manager \<Rightarrow> Instance \<Rightarrow> RecoveryReport \<Rightarrow> RecoveryReport io" where
  "recover_instance cm i report =
     (let sv = cm_instances cm in
      io_bind (restore_abandoned_update (iv_entries sv) (cm_fuel cm) (it_path i)) (\<lambda>_.
      io_bind (instance_get sv (iid_str (it_id i))) (\<lambda>i'.
      io_bind (verified_healthy cm i') (\<lambda>healthy.
      io_bind (if healthy then mark_installed sv i'
               else mark_interrupted sv i' ''previous installation was interrupted'') (\<lambda>_.
      io_bind (cleanup_abandoned_staging (iv_entries sv) (it_path i')) (\<lambda>_.
      io_return (if healthy then report\<lparr>rr_recovered := rr_recovered report + 1\<rparr>
                 else report\<lparr>rr_recoverable := rr_recoverable report + 1\<rparr>)))))))"

fun recover_all :: "cache_manager \<Rightarrow> Instance list \<Rightarrow> RecoveryReport \<Rightarrow> RecoveryReport io" where
  "recover_all cm [] report = io_return report"
| "recover_all cm (i # instances) report =
     io_bind (instance_status (cm_instances cm) (iid_str (it_id i))) (\<lambda>status.
     if status \<notin> {StatusInstalling, StatusUpdating, Recoverable} then recover_all cm instances report
     else
     io_bind (unless_locked (instance_lock (it_id i))
       (io_return (report\<lparr>rr_active_elsewhere := rr_active_elsewhere report + 1\<rparr>))
       (recover_instance cm i report)) (recover_all cm instances))"

definition recover :: "cache_manager \<Rightarrow> RecoveryReport io" where
  "recover cm =
     io_bind (emit ''RecoveryStarted'' []) (\<lambda>_.
     io_bind (instance_list (cm_instances cm)) (\<lambda>instances.
     io_bind (recover_all cm instances \<lparr>rr_recovered = 0, rr_recoverable = 0, rr_active_elsewhere = 0\<rparr>) (\<lambda>report.
     io_bind (emit ''RecoveryCompleted'' [show_nat (unat (rr_recovered report)), show_nat (unat (rr_recoverable report))]) (\<lambda>_.
     io_return report))))"

section \<open>Nothing is lost while backups return\<close>

abbreviation safe_with :: "path \<Rightarrow> string \<Rightarrow> tree \<Rightarrow> path \<Rightarrow> string \<Rightarrow> tree \<Rightarrow> bool" where
  "safe_with R u t0 q c t \<equiv> never_lost R u t0 t \<and> t (backup_at R u @ q) = Some (FileNode c)"

lemma never_lost_adds:
  assumes "never_lost R u t0 t" "adds_dirs D t t'"
  shows "never_lost R u t0 t'"
  using assms(1) unfolding never_lost_def adds_dirs_file [OF assms(2)] .

lemma never_lost_backup:
  assumes "never_lost R u t0 t" "t (backup_at R u @ q) = Some (FileNode c)"
  shows "outside u q" "t0 (R @ q) = Some (FileNode c)"
  using assms unfolding never_lost_def by blast+

lemma never_lost_remove:
  assumes "safe_with R u t0 q c t"
  shows "safe_with R u t0 q c (t(R @ q := None))"
proof -
  have n: "never_lost R u t0 t" and b: "t (backup_at R u @ q) = Some (FileNode c)" using assms by simp_all
  note q = never_lost_backup [OF n b]
  have far: "R @ q \<noteq> backup_at R u @ x" for x using q(1) by simp
  show ?thesis using n b q far far [symmetric] unfolding never_lost_def by auto
qed

lemma never_lost_put_back:
  assumes "safe_with R u t0 q c t"
  shows "never_lost R u t0 (t(R @ q \<mapsto> FileNode c, backup_at R u @ q := None))"
proof -
  have n: "never_lost R u t0 t" and b: "t (backup_at R u @ q) = Some (FileNode c)" using assms by simp_all
  note q = never_lost_backup [OF n b]
  have far: "R @ q \<noteq> backup_at R u @ x" for x using q(1) by simp
  show ?thesis using n b q far far [symmetric] unfolding never_lost_def by auto
qed

lemma put_back_valid:
  "io_valid (never_lost R u t0) (safe_with R u t0 q c) (put_back (backup_at R u @ q) (R @ q) reason)
    (\<lambda>_. never_lost R u t0) (never_lost R u t0)"
proof -
  let ?J = "never_lost R u t0" and ?I = "safe_with R u t0 q c"
  have ex: "io_valid ?J ?I (fs_try_exists (R @ q)) (\<lambda>_. ?I) ?J" by (rule io_valid_frame) auto
  have src: "io_valid ?J ?I (require_source (R @ q) reason) (\<lambda>_. ?I) ?J"
    by (rule io_valid_conseq [OF require_source_valid [where P = ?I]]) auto
  have rm: "io_valid ?J ?I (fs_remove_file (R @ q)) (\<lambda>_. ?I) ?J"
    unfolding fs_remove_file_def
  proof (rule io_valid_step)
    fix t t' assume t: "?I t" "remove_file_tree (R @ q) t = Inr t'"
    have "t' = t(R @ q := None)" using t(2) by (auto dest!: remove_file_tree_Inr)
    then show "?J t' \<and> ?I t'" using never_lost_remove [OF t(1)] by simp
  qed simp
  have ren: "io_valid ?J ?I (fs_rename (backup_at R u @ q) (R @ q)) (\<lambda>_. ?J) ?J"
    unfolding fs_rename_def
  proof (rule io_valid_step)
    fix t t' assume t: "?I t" "rename_tree (backup_at R u @ q) (R @ q) t = Inr t'"
    from t(1) have q: "outside u q" using never_lost_backup(1) by blast
    have "t' = t(R @ q \<mapsto> FileNode c, backup_at R u @ q := None)"
      by (rule rename_file_tree [OF t(2)]) (use t(1) q in simp_all)
    then show "?J t' \<and> ?J t'" using never_lost_put_back [OF t(1)] by simp
  qed simp
  have mid: "io_valid ?J ?I (if present then io_bind (require_source (R @ q) reason) (\<lambda>_. fs_remove_file (R @ q))
      else io_return ()) (\<lambda>_. ?I) ?J" for present
  proof (cases present)
    case True
    show ?thesis unfolding if_P [OF True] by (rule io_valid_bind [OF src rm])
  next
    case False
    show ?thesis unfolding if_not_P [OF False] by (rule io_valid_return)
  qed
  show ?thesis unfolding put_back_def by (rule io_valid_bind [OF ex io_valid_bind [OF mid ren]])
qed

lemma restore_file_valid:
  "io_valid (never_lost R u t0) (safe_with R u t0 q c) (restore_file R (backup_at R u) (backup_at R u @ q))
    (\<lambda>_. never_lost R u t0) (never_lost R u t0)"
proof -
  let ?J = "never_lost R u t0" and ?I = "safe_with R u t0 q c"
  have par: "io_valid ?J ?I (ensure_recovery_parents R p) (\<lambda>_. ?I) ?J" for p
  proof (cases "below R p")
    case True
    then have n: "\<not> \<not> below R p" by simp
    show ?thesis unfolding ensure_recovery_parents_def if_not_P [OF n]
    proof (rule io_valid_conseq [OF real_parents_valid [where D = UNIV and I = ?I]])
      fix t t' assume "?I t" "adds_dirs UNIV t t'"
      then show "?I t'" using never_lost_adds adds_dirs_file by blast
    qed auto
  next
    case False
    show ?thesis unfolding ensure_recovery_parents_def if_P [OF False] by (rule io_valid_fail) simp
  qed
  have eq: "restore_file R (backup_at R u) (backup_at R u @ q) =
      io_bind (ensure_recovery_parents R (butlast (R @ q))) (\<lambda>_.
        put_back (backup_at R u @ q) (R @ q) ''update recovery destination must be a real file'')"
    by (simp add: restore_file_def below_def Let_def)
  show ?thesis unfolding eq by (rule io_valid_bind [OF par put_back_valid])
qed

lemma restore_entries_valid:
  assumes "\<forall>p \<in> set directories. below (backup_at R u) p"
  shows "io_valid (never_lost R u t0) (never_lost R u t0)
    (restore_entries R (backup_at R u) (backup_at R u @ d) names directories)
    (\<lambda>out t. never_lost R u t0 t \<and> (\<forall>p \<in> set out. below (backup_at R u) p)) (never_lost R u t0)"
  using assms
proof (induction names arbitrary: directories)
  case Nil
  show ?case unfolding restore_entries.simps by (rule io_valid_return) (simp add: Nil)
next
  case (Cons n names)
  let ?J = "never_lost R u t0" and ?p = "(backup_at R u @ d) @ [n]"
  have p: "?p = backup_at R u @ (d @ [n])" by simp
  have stat: "io_valid ?J ?J (fs_symlink_metadata ?p) (\<lambda>m t. ?J t \<and> (\<forall>c. m = FileNode c \<longrightarrow> t ?p = Some (FileNode c))) ?J"
    by (rule io_valid_frame_result) (use symlink_metadata_file in auto)
  show ?case unfolding restore_entries.simps
  proof (rule io_valid_bind [OF stat])
    fix m
    show "io_valid ?J (\<lambda>t. ?J t \<and> (\<forall>c. m = FileNode c \<longrightarrow> t ?p = Some (FileNode c)))
      (case m of
        FileNode x \<Rightarrow> io_bind (restore_file R (backup_at R u) ?p) (\<lambda>_.
          restore_entries R (backup_at R u) (backup_at R u @ d) names directories)
      | DirNode \<Rightarrow> restore_entries R (backup_at R u) (backup_at R u @ d) names (?p # directories)
      | SymlinkNode l \<Rightarrow> io_fail (UnsafeFilesystemEntry ?p ''symbolic links are forbidden in update backups''))
      (\<lambda>out t. ?J t \<and> (\<forall>p \<in> set out. below (backup_at R u) p)) ?J"
    proof (cases m)
      case (FileNode c)
      have "io_valid ?J (safe_with R u t0 (d @ [n]) c) (io_bind (restore_file R (backup_at R u) ?p) (\<lambda>_.
          restore_entries R (backup_at R u) (backup_at R u @ d) names directories))
          (\<lambda>out t. ?J t \<and> (\<forall>p \<in> set out. below (backup_at R u) p)) ?J"
        unfolding p by (rule io_valid_bind [OF restore_file_valid Cons.IH [OF Cons.prems]])
      then show ?thesis unfolding FileNode node.case by (rule io_valid_conseq) simp_all
    next
      case DirNode
      have "\<forall>p \<in> set (?p # directories). below (backup_at R u) p" using Cons.prems by (simp add: below_def)
      from Cons.IH [OF this] show ?thesis unfolding DirNode node.case by (rule io_valid_conseq) simp_all
    next
      case (SymlinkNode l)
      show ?thesis unfolding SymlinkNode node.case by (rule io_valid_fail) simp
    qed
  qed
qed

lemma restore_directories_valid:
  assumes "\<forall>p \<in> set directories. below (backup_at R u) p"
  shows "io_valid (never_lost R u t0) (never_lost R u t0) (restore_directories entries fuel R (backup_at R u) directories)
    (\<lambda>_. never_lost R u t0) (never_lost R u t0)"
  using assms
proof (induction fuel arbitrary: directories)
  case 0
  show ?case
    by (cases directories) (simp_all only: restore_directories.simps io_valid_return io_valid_fail)
next
  case (Suc fuel)
  let ?J = "never_lost R u t0"
  show ?case
  proof (cases directories)
    case Nil
    show ?thesis unfolding Nil restore_directories.simps by (rule io_valid_return)
  next
    case (Cons p ds)
    from Suc.prems Cons have ds: "\<forall>p \<in> set ds. below (backup_at R u) p" and "below (backup_at R u) p" by simp_all
    then obtain d where p: "p = backup_at R u @ d" by (metis append_take_drop_id below_def)
    have stat: "io_valid ?J ?J (fs_symlink_metadata p) (\<lambda>_. ?J) ?J" by (rule io_valid_frame) auto
    have ls: "io_valid ?J ?J (fs_read_dir entries p) (\<lambda>_. ?J) ?J" by (rule io_valid_frame [OF io_frame_read_dir]) auto
    have more: "io_valid ?J (\<lambda>t. ?J t \<and> (\<forall>p \<in> set out. below (backup_at R u) p))
        (restore_directories entries fuel R (backup_at R u) out) (\<lambda>_. ?J) ?J" for out
    proof (cases "\<forall>p \<in> set out. below (backup_at R u) p")
      case True
      from Suc.IH [OF this] show ?thesis by (rule io_valid_conseq) simp_all
    next
      case False
      then show ?thesis by (intro io_validI) blast
    qed
    have walk: "io_valid ?J ?J (io_bind (fs_read_dir entries p) (\<lambda>names.
        io_bind (restore_entries R (backup_at R u) p names ds) (restore_directories entries fuel R (backup_at R u))))
        (\<lambda>_. ?J) ?J"
      unfolding p by (rule io_valid_bind [OF ls [unfolded p] io_valid_bind [OF restore_entries_valid [OF ds] more]])
    show ?thesis unfolding Cons restore_directories.simps
    proof (rule io_valid_bind [OF stat])
      fix m
      show "io_valid ?J ?J (if m \<noteq> DirNode then io_fail (UnsafeFilesystemEntry p ''update backup entry must be a real directory'')
        else io_bind (fs_read_dir entries p) (\<lambda>names.
        io_bind (restore_entries R (backup_at R u) p names ds) (restore_directories entries fuel R (backup_at R u))))
        (\<lambda>_. ?J) ?J"
        by (cases "m = DirNode") (simp_all only: not_True_eq_False not_False_eq_True if_True if_False simp_thms walk io_valid_fail)
    qed
  qed
qed

lemma restore_backup_tree_valid:
  "io_valid (never_lost R u t0) (never_lost R u t0) (restore_backup_tree entries fuel R (backup_at R u))
    (\<lambda>_. never_lost R u t0) (never_lost R u t0)"
  unfolding restore_backup_tree_def by (rule restore_directories_valid) (simp add: below_def)

text \<open>
  The trees that an update may leave when the process stops during the exchange of its files, and again
  during each of the recoveries that follow.
\<close>

inductive interrupted :: "entry_order \<Rightarrow> nat \<Rightarrow> path \<Rightarrow> string \<Rightarrow> string list \<Rightarrow> string list \<Rightarrow> tree \<Rightarrow> tree \<Rightarrow> bool"
  for entries fuel R u backups changed t0 where
  exchange_stopped:
    "w_tree w = t0 \<Longrightarrow> w_crash w = [] \<Longrightarrow>
     exchange_files R (files_at R u) (backup_at R u) backups changed w = (x, w') \<Longrightarrow> t \<in> set (w_crash w') \<Longrightarrow>
     interrupted entries fuel R u backups changed t0 t"
| recovery_stopped:
    "interrupted entries fuel R u backups changed t0 (w_tree w) \<Longrightarrow> w_crash w = [] \<Longrightarrow>
     restore_backup_tree entries fuel R (backup_at R u) w = (y, w') \<Longrightarrow> t \<in> set (w_crash w') \<Longrightarrow>
     interrupted entries fuel R u backups changed t0 t"

lemma interrupted_never_loses:
  assumes "exchange_ready R u backups changed t0" "interrupted entries fuel R u backups changed t0 t"
  shows "never_lost R u t0 t"
  using assms(2)
proof (induction rule: interrupted.induct)
  case (exchange_stopped w x w' t)
  from io_valid_run [OF exchange_valid [OF assms(1)] exchange_stopped(1-3)] exchange_stopped(4) show ?case by blast
next
  case (recovery_stopped w y w' t)
  from io_valid_run [OF restore_backup_tree_valid recovery_stopped.IH recovery_stopped(2,3)] recovery_stopped(4)
  show ?case by blast
qed

text \<open>C18: no file is lost to interruptions: wherever the process stops during the exchange of the files of an update, under any
  faults of the disk, and wherever each of the recoveries that follow stops in turn, every regular file that
  the instance had is at its place or in the backups with its content, and the backups hold nothing else.\<close>

theorem interrupted_never_loses_files:
  assumes "exchange_ready R u backups changed t0" "interrupted entries fuel R u backups changed t0 t"
  shows "never_lost R u t0 t"
  by (rule interrupted_never_loses [OF assms])

section \<open>Without faults\<close>

text \<open>Total correctness on a disk without faults: the program returns, with the postcondition.\<close>

definition io_total :: "(tree \<Rightarrow> bool) \<Rightarrow> 'a io \<Rightarrow> ('a \<Rightarrow> tree \<Rightarrow> bool) \<Rightarrow> bool" where
  "io_total P m Q \<longleftrightarrow> (\<forall>w. w_faults w = [] \<and> P (w_tree w) \<longrightarrow>
     (\<exists>x w'. m w = (Inr x, w') \<and> w_faults w' = [] \<and> Q x (w_tree w')))"

lemma io_totalD:
  assumes "io_total P m Q" "w_faults w = []" "P (w_tree w)"
  obtains x w' where "m w = (Inr x, w')" "w_faults w' = []" "Q x (w_tree w')"
  using assms unfolding io_total_def by blast

lemma io_total_return: "(\<And>t. P t \<Longrightarrow> Q x t) \<Longrightarrow> io_total P (io_return x) Q"
  by (simp add: io_total_def)

lemma io_total_absurd: "(\<And>t. P t \<Longrightarrow> False) \<Longrightarrow> io_total P m Q"
  unfolding io_total_def by blast

lemma io_total_bind:
  assumes "io_total P m S" "\<And>x. io_total (S x) (f x) Q"
  shows "io_total P (io_bind m f) Q"
  unfolding io_total_def
proof (intro allI impI)
  fix w :: world assume w: "w_faults w = [] \<and> P (w_tree w)"
  then obtain x w1 where m: "m w = (Inr x, w1)" "w_faults w1 = []" "S x (w_tree w1)"
    using io_totalD [OF assms(1)] by blast
  then obtain y w' where "f x w1 = (Inr y, w')" "w_faults w' = []" "Q y (w_tree w')"
    using io_totalD [OF assms(2)] by blast
  with m(1) show "\<exists>y w'. io_bind m f w = (Inr y, w') \<and> w_faults w' = [] \<and> Q y (w_tree w')"
    by (simp add: io_bind_Inr)
qed

lemma io_total_conseq:
  assumes "io_total P' m Q'" "\<And>t. P t \<Longrightarrow> P' t" "\<And>x t. Q' x t \<Longrightarrow> Q x t"
  shows "io_total P m Q"
  using assms unfolding io_total_def by blast

lemma io_total_query:
  assumes "\<And>t. P t \<Longrightarrow> \<exists>x. f t = Inr x \<and> Q x t"
  shows "io_total P (io_query f) Q"
  unfolding io_total_def
proof (intro allI impI)
  fix w :: world assume w: "w_faults w = [] \<and> P (w_tree w)"
  with assms obtain x where "f (w_tree w) = Inr x" "Q x (w_tree w)" by blast
  with w show "\<exists>x w'. io_query f w = (Inr x, w') \<and> w_faults w' = [] \<and> Q x (w_tree w')" by (simp add: io_query_run)
qed

lemma io_total_step:
  assumes "\<And>t. P t \<Longrightarrow> \<exists>t'. f t = Inr t' \<and> Q () t'"
  shows "io_total P (io_step f) Q"
  unfolding io_total_def
proof (intro allI impI)
  fix w :: world assume w: "w_faults w = [] \<and> P (w_tree w)"
  with assms obtain t' where "f (w_tree w) = Inr t'" "Q () t'" by blast
  with w show "\<exists>x w'. io_step f w = (Inr x, w') \<and> w_faults w' = [] \<and> Q x (w_tree w')"
    by (simp add: io_step_run set_tree_def)
qed

lemma io_total_find_node:
  assumes "\<not> is_root p"
  shows "io_total P (find_node p) (\<lambda>x t. P t \<and> x = t p)"
  unfolding io_total_def by (auto simp: find_node_run assms)

lemma io_total_stat: "io_total (\<lambda>t. P t \<and> t p = Some n) (fs_symlink_metadata p) (\<lambda>x t. P t \<and> x = n)"
  unfolding fs_symlink_metadata_def by (rule io_total_query) auto

section \<open>Every backup returns\<close>

text \<open>
  The disk on which a recovery starts: entries lie in directories, the backups hold regular files and
  directories only, and each backup fits: its place is free or a regular file, below real
  directories or free names.
\<close>

definition free_or_dir :: "tree \<Rightarrow> path \<Rightarrow> bool" where
  "free_or_dir t p \<longleftrightarrow> t p = None \<or> t p = Some DirNode"

definition free_or_file :: "tree \<Rightarrow> path \<Rightarrow> bool" where
  "free_or_file t p \<longleftrightarrow> t p = None \<or> (\<exists>c. t p = Some (FileNode c))"

definition backups_fit :: "path \<Rightarrow> path \<Rightarrow> tree \<Rightarrow> tree \<Rightarrow> bool" where
  "backups_fit R B t t' \<longleftrightarrow> (\<forall>q c. t (B @ q) = Some (FileNode c) \<longrightarrow>
     (\<forall>n. 0 < n \<and> n < length q \<longrightarrow> free_or_dir t' (R @ take n q)) \<and> free_or_file t' (R @ q))"

definition recoverable :: "path \<Rightarrow> string \<Rightarrow> tree \<Rightarrow> bool" where
  "recoverable R u t \<longleftrightarrow> tree_wf t \<and> finite (dom t) \<and> \<not> is_root R \<and> t (backup_at R u) = Some DirNode \<and>
     (\<forall>q l. t (backup_at R u @ q) \<noteq> Some (SymlinkNode l)) \<and> backups_fit R (backup_at R u) t t"

text \<open>The state of the walk: \<open>X\<close> are the files put back so far.\<close>

definition returning :: "path \<Rightarrow> string \<Rightarrow> tree \<Rightarrow> tree \<Rightarrow> path set \<Rightarrow> tree \<Rightarrow> bool" where
  "returning R u t0 t X t' \<longleftrightarrow> never_lost R u t0 t' \<and>
     (\<forall>q. t' (backup_at R u @ q) = (if backup_at R u @ q \<in> X then None else t (backup_at R u @ q))) \<and>
     backups_fit R (backup_at R u) t t' \<and> t' R = Some DirNode"

lemma returningD:
  assumes "returning R u t0 t X t'"
  shows "never_lost R u t0 t'"
    "t' (backup_at R u @ q) = (if backup_at R u @ q \<in> X then None else t (backup_at R u @ q))"
    "backups_fit R (backup_at R u) t t'" "t' R = Some DirNode"
  using assms unfolding returning_def by blast+

lemma backups_fitD:
  assumes "backups_fit R B t t'" "t (B @ q) = Some (FileNode c)"
  shows "0 < n \<Longrightarrow> n < length q \<Longrightarrow> free_or_dir t' (R @ take n q)" "free_or_file t' (R @ q)"
  using assms unfolding backups_fit_def by blast+

text \<open>Two backups do not collide: a file is not above another one.\<close>

lemma backup_not_above:
  assumes "tree_wf t" "\<not> is_root R" "t (backup_at R u @ q) = Some (FileNode c)" "t (backup_at R u @ p) = Some (FileNode b)"
    and "0 < n" "n < length q"
  shows "take n q \<noteq> p"
proof
  assume p: "take n q = p"
  have r: "\<not> is_root (backup_at R u @ p)" using assms(2) by (auto simp: is_root_def staging_root_def append_eq_Cons_conv)
  have "t ((backup_at R u @ p) @ drop n q) \<noteq> None" using assms(3) p by (metis append.assoc append_take_drop_id option.distinct(1))
  from tree_wf_parent [OF assms(1) r _ this] assms(4,6) show False by simp
qed

lemma returning_dir:
  assumes "returning R u t0 t X t'" "tree_wf t" "\<not> is_root R" "outside u q" "t (backup_at R u @ q) = Some (FileNode c)"
    and "0 < n" "n < length q" "t' (R @ take n q) = None"
  shows "returning R u t0 t X (t'(R @ take n q \<mapsto> DirNode))"
proof -
  let ?d = "R @ take n q"
  note D = returningD [OF assms(1)]
  have o: "outside u (take n q)" by (rule outside_take [OF assms(4,6)])
  have "never_lost R u t0 (t'(?d \<mapsto> DirNode))"
    by (rule never_lost_adds [OF D(1), where D = UNIV]) (simp add: adds_dirs_def assms(8))
  moreover have "(t'(?d \<mapsto> DirNode)) (backup_at R u @ x) = t' (backup_at R u @ x)" for x
  proof -
    have "backup_at R u @ x \<noteq> ?d" using outside_apart(1) [OF o] by (metis append.assoc)
    then show ?thesis by simp
  qed
  moreover have "backups_fit R (backup_at R u) t (t'(?d \<mapsto> DirNode))"
    unfolding backups_fit_def
  proof (intro allI impI conjI)
    fix x b assume x: "t (backup_at R u @ x) = Some (FileNode b)"
    show "free_or_dir (t'(?d \<mapsto> DirNode)) (R @ take m x)" if "0 < m \<and> m < length x" for m
      using backups_fitD(1) [OF D(3) x] that by (auto simp: free_or_dir_def)
    have "x \<noteq> take n q" using backup_not_above [OF assms(2,3,5) x assms(6,7)] by blast
    then show "free_or_file (t'(?d \<mapsto> DirNode)) (R @ x)" using backups_fitD(2) [OF D(3) x] by (simp add: free_or_file_def)
  qed
  moreover have "(t'(?d \<mapsto> DirNode)) R = Some DirNode" using D(4) by simp
  ultimately show ?thesis using D(2) unfolding returning_def by simp
qed

lemma backups_fit_file:
  assumes "backups_fit R B t t'" "tree_wf t" "B = backup_at R u" "\<not> is_root R" "t (B @ q) = Some (FileNode c)"
    and "\<And>p. p \<noteq> R @ q \<Longrightarrow> t'' p = t' p" "free_or_file t'' (R @ q)"
  shows "backups_fit R B t t''"
  unfolding backups_fit_def
proof (intro allI impI conjI)
  fix x b assume x: "t (B @ x) = Some (FileNode b)"
  show "free_or_dir t'' (R @ take m x)" if m: "0 < m \<and> m < length x" for m
  proof -
    have "take m x \<noteq> q" using backup_not_above [of t R u x b q c m] assms(2-5) x m by blast
    then show ?thesis using backups_fitD(1) [OF assms(1) x] m assms(6) by (simp add: free_or_dir_def)
  qed
  show "free_or_file t'' (R @ x)"
    using backups_fitD(2) [OF assms(1) x] assms(6,7) by (cases "x = q") (simp_all add: free_or_file_def)
qed

lemma returning_remove:
  assumes "returning R u t0 t X t'" "tree_wf t" "\<not> is_root R" "t (backup_at R u @ q) = Some (FileNode c)" "backup_at R u @ q \<notin> X"
  shows "returning R u t0 t X (t'(R @ q := None))"
proof -
  note D = returningD [OF assms(1)]
  have b: "safe_with R u t0 q c t'" using D(1,2) assms(4,5) by simp
  have o: "outside u q" using never_lost_backup(1) b by blast
  then have far: "backup_at R u @ x \<noteq> R @ q" "R \<noteq> R @ q" for x by (simp_all add: outside_def)
  have "backups_fit R (backup_at R u) t (t'(R @ q := None))"
    by (rule backups_fit_file [OF D(3) assms(2) refl assms(3,4)]) (simp_all add: free_or_file_def)
  then show ?thesis using never_lost_remove [OF b] D(2,4) far unfolding returning_def by simp
qed

lemma returning_put_back:
  assumes "returning R u t0 t X t'" "tree_wf t" "\<not> is_root R" "t (backup_at R u @ q) = Some (FileNode c)" "backup_at R u @ q \<notin> X"
  shows "returning R u t0 t (insert (backup_at R u @ q) X) (t'(R @ q \<mapsto> FileNode c, backup_at R u @ q := None))"
proof -
  let ?t = "t'(R @ q \<mapsto> FileNode c)"
  note D = returningD [OF assms(1)]
  have b: "safe_with R u t0 q c t'" using D(1,2) assms(4,5) by simp
  have o: "outside u q" using never_lost_backup(1) b by blast
  then have far: "backup_at R u @ x \<noteq> R @ q" "R \<noteq> R @ q" for x by (simp_all add: outside_def)
  have "backups_fit R (backup_at R u) t (?t(backup_at R u @ q := None))"
    unfolding backups_fit_def
  proof (intro allI impI conjI)
    fix x d assume x: "t (backup_at R u @ x) = Some (FileNode d)"
    have fit: "backups_fit R (backup_at R u) t ?t"
      by (rule backups_fit_file [OF D(3) assms(2) refl assms(3,4)]) (simp_all add: free_or_file_def)
    show "free_or_dir (?t(backup_at R u @ q := None)) (R @ take m x)" if "0 < m \<and> m < length x" for m
      using backups_fitD(1) [OF fit x] that by (auto simp: free_or_dir_def)
    show "free_or_file (?t(backup_at R u @ q := None)) (R @ x)"
      using backups_fitD(2) [OF fit x] by (auto simp: free_or_file_def)
  qed
  moreover have "(?t(backup_at R u @ q := None)) R = Some DirNode"
    using D(4) far(2) by (simp add: staging_root_def)
  moreover have "never_lost R u t0 (?t(backup_at R u @ q := None))" by (rule never_lost_put_back [OF b])
  ultimately show ?thesis using D(2) far(1) unfolding returning_def by simp
qed

text \<open>The parents of a backup.\<close>

lemma io_total_recovery_parent:
  assumes q: "outside u q" "t (backup_at R u @ q) = Some (FileNode c)" and t: "tree_wf t" "\<not> is_root R"
    and k: "Suc k < length q"
  shows "io_total (\<lambda>t'. returning R u t0 t X t' \<and> t' (R @ take k q) = Some DirNode)
    (real_parent reason (R @ take (Suc k) q))
    (\<lambda>_ t'. returning R u t0 t X t' \<and> t' (R @ take (Suc k) q) = Some DirNode)"
proof -
  let ?d = "R @ take (Suc k) q" and ?I = "\<lambda>t'. returning R u t0 t X t' \<and> t' (R @ take k q) = Some DirNode"
  have last: "take (Suc k) q = take k q @ [q ! k]" using k by (simp add: take_Suc_conv_app_nth)
  have root: "\<not> is_root ?d" using t(2) k by (cases R; cases q) (auto simp: is_root_def)
  have rest: "io_total (\<lambda>t'. ?I t' \<and> found = t' ?d) (case found of
       Some n \<Rightarrow> if n \<noteq> DirNode then io_fail (UnsafeFilesystemEntry ?d reason) else io_return ()
     | None \<Rightarrow> fs_create_dir ?d) (\<lambda>_ t'. returning R u t0 t X t' \<and> t' ?d = Some DirNode)" for found
  proof (cases found)
    case None
    show ?thesis unfolding None option.case fs_create_dir_def
    proof (rule io_total_step)
      fix t' assume t': "?I t' \<and> None = t' ?d"
      have "create_dir_tree ?d t' = Inr (t'(?d \<mapsto> DirNode))"
        using t' root by (simp add: create_dir_tree_def last butlast_append is_dir_def)
      moreover have "returning R u t0 t X (t'(?d \<mapsto> DirNode))"
        by (rule returning_dir [OF _ t q]) (use t' k in auto)
      ultimately show "\<exists>t''. create_dir_tree ?d t' = Inr t'' \<and> returning R u t0 t X t'' \<and> t'' ?d = Some DirNode" by simp
    qed
  next
    case (Some n)
    have fit: "n = DirNode" if t': "?I t' \<and> Some n = t' ?d" for t'
    proof -
      have "backups_fit R (backup_at R u) t t'" using returningD(3) t' by blast
      from backups_fitD(1) [OF this q(2), of "Suc k"] k have "free_or_dir t' ?d" by simp
      with t' show ?thesis by (auto simp: free_or_dir_def)
    qed
    show ?thesis
    proof (cases "n = DirNode")
      case True
      show ?thesis unfolding Some True by (simp only: option.case simp_thms if_False)
          (rule io_total_return, simp)
    next
      case False
      with fit Some show ?thesis by (intro io_total_absurd) blast
    qed
  qed
  show ?thesis unfolding real_parent_def by (rule io_total_bind [OF io_total_find_node [OF root] rest])
qed

lemma io_total_recovery_parents:
  assumes q: "outside u q" "t (backup_at R u @ q) = Some (FileNode c)" and t: "tree_wf t" "\<not> is_root R"
    and "k < length q"
  shows "io_total (\<lambda>t'. returning R u t0 t X t' \<and> t' (R @ take k q) = Some DirNode)
    (real_parents reason (R @ take k q) (drop k (butlast q)))
    (\<lambda>_ t'. returning R u t0 t X t' \<and> t' (R @ butlast q) = Some DirNode)"
  using assms(5)
proof (induction "length q - Suc k" arbitrary: k)
  case 0
  then have "k = length q - 1" by simp
  then have eq: "take k q = butlast q" "drop k (butlast q) = []" by (simp_all add: butlast_conv_take)
  show ?case unfolding eq real_parents.simps by (rule io_total_return)
next
  case (Suc n)
  then have k: "Suc k < length q" by simp
  have step: "drop k (butlast q) = q ! k # drop (Suc k) (butlast q)" "(R @ take k q) @ [q ! k] = R @ take (Suc k) q"
    using k Cons_nth_drop_Suc [of k "butlast q"] by (simp_all add: nth_butlast take_Suc_conv_app_nth)
  have "n = length q - Suc (Suc k)" using Suc.hyps(2) by simp
  from Suc.hyps(1) [OF this k] show ?case unfolding step real_parents.simps
    by (rule io_total_bind [OF io_total_recovery_parent [OF q t k]])
qed

text \<open>One backup.\<close>

lemma free_or_file_exists: "free_or_file t p \<Longrightarrow> follow 40 t p = Some p"
  by (auto simp: free_or_file_def follow_plain)

lemma io_total_put_back:
  assumes q: "outside u q" "t (backup_at R u @ q) = Some (FileNode c)" "backup_at R u @ q \<notin> X" and t: "tree_wf t" "\<not> is_root R"
  shows "io_total (\<lambda>t'. returning R u t0 t X t' \<and> t' (R @ butlast q) = Some DirNode)
    (put_back (backup_at R u @ q) (R @ q) reason)
    (\<lambda>_. returning R u t0 t (insert (backup_at R u @ q) X))"
proof -
  let ?d = "R @ q" and ?b = "backup_at R u @ q"
  let ?I = "\<lambda>t'. returning R u t0 t X t' \<and> t' (R @ butlast q) = Some DirNode"
  have ne: "q \<noteq> []" using q(1) by (simp add: outside_def)
  then have "length (butlast q) < length q" by simp
  then have up: "butlast q \<noteq> q" by (metis less_irrefl)
  have fit: "free_or_file t' ?d" if "?I t'" for t'
  proof -
    have "backups_fit R (backup_at R u) t t'" using returningD(3) that by blast
    from backups_fitD(2) [OF this q(2)] show ?thesis .
  qed
  have ex: "io_total ?I (fs_try_exists ?d) (\<lambda>x t'. ?I t' \<and> (x \<longleftrightarrow> t' ?d \<noteq> None))"
    unfolding fs_try_exists_def by (rule io_total_query) (use free_or_file_exists [OF fit] in auto)
  have stat: "io_total (\<lambda>t'. ?I t' \<and> t' ?d \<noteq> None) (fs_symlink_metadata ?d) (\<lambda>x t'. (?I t' \<and> t' ?d \<noteq> None) \<and> is_file_node x)"
    unfolding fs_symlink_metadata_def
  proof (rule io_total_query)
    fix t' assume t': "?I t' \<and> t' ?d \<noteq> None"
    then obtain b where b: "t' ?d = Some (FileNode b)" using fit [of t'] by (auto simp: free_or_file_def)
    show "\<exists>x. (case t' ?d of None \<Rightarrow> if is_root ?d then Inr DirNode else Inl IoNotFound | Some n \<Rightarrow> Inr n) = Inr x \<and>
        (?I t' \<and> t' ?d \<noteq> None) \<and> is_file_node x"
      by (intro exI [of _ "FileNode b"] conjI) (use t' b in \<open>simp_all add: is_file_node_def\<close>)
  qed
  have src: "io_total (\<lambda>t'. ?I t' \<and> t' ?d \<noteq> None) (require_source ?d reason) (\<lambda>_ t'. ?I t' \<and> t' ?d \<noteq> None)"
    unfolding require_source_def
  proof (rule io_total_bind [OF stat])
    show "io_total (\<lambda>t'. (?I t' \<and> t' ?d \<noteq> None) \<and> is_file_node n)
        (if \<not> is_file_node n then io_fail (UnsafeFilesystemEntry ?d reason) else io_return ())
        (\<lambda>_ t'. ?I t' \<and> t' ?d \<noteq> None)" for n
      by (cases "is_file_node n") (simp_all only: not_True_eq_False not_False_eq_True if_True if_False,
          rule io_total_return, simp, rule io_total_absurd, simp)
  qed
  have rm: "io_total (\<lambda>t'. ?I t' \<and> t' ?d \<noteq> None) (fs_remove_file ?d) (\<lambda>_ t'. ?I t' \<and> t' ?d = None)"
    unfolding fs_remove_file_def
  proof (rule io_total_step)
    fix t' assume t': "?I t' \<and> t' ?d \<noteq> None"
    then obtain b where "t' ?d = Some (FileNode b)" using fit [of t'] by (auto simp: free_or_file_def)
    then have "remove_file_tree ?d t' = Inr (t'(?d := None))" by (simp add: remove_file_tree_def)
    moreover have "?I (t'(?d := None))"
      using returning_remove [OF _ t q(2,3)] t' up by simp
    ultimately show "\<exists>t''. remove_file_tree ?d t' = Inr t'' \<and> ?I t'' \<and> t'' ?d = None" by simp
  qed
  have mid: "io_total (\<lambda>t'. ?I t' \<and> (present \<longleftrightarrow> t' ?d \<noteq> None))
      (if present then io_bind (require_source ?d reason) (\<lambda>_. fs_remove_file ?d) else io_return ())
      (\<lambda>_ t'. ?I t' \<and> t' ?d = None)" for present
  proof (cases present)
    case True
    show ?thesis unfolding if_P [OF True] by (rule io_total_conseq [OF io_total_bind [OF src rm]]) (use True in auto)
  next
    case False
    show ?thesis unfolding if_not_P [OF False] by (rule io_total_return) (use False in auto)
  qed
  have ren: "io_total (\<lambda>t'. ?I t' \<and> t' ?d = None) (fs_rename ?b ?d) (\<lambda>_. returning R u t0 t (insert ?b X))"
    unfolding fs_rename_def
  proof (rule io_total_step)
    fix t' assume t': "?I t' \<and> t' ?d = None"
    have b: "t' ?b = Some (FileNode c)"
      using returningD(2) [of R u t0 t X t' q] t' q(2,3) by simp
    have "\<not> is_root ?d" using t(2) ne by (cases R) (auto simp: is_root_def)
    then have dir: "is_dir t' (butlast ?d)" "\<not> is_dir t' ?d" using t' ne by (simp_all add: is_dir_def butlast_append)
    have ab: "?b \<noteq> ?d" using q(1) by simp
    from b dir ab have "rename_tree ?b ?d t' = Inr (t'(?d \<mapsto> FileNode c, ?b := None))" by (simp add: rename_tree_def)
    with returning_put_back [OF _ t q(2,3)] t'
    show "\<exists>t''. rename_tree ?b ?d t' = Inr t'' \<and> returning R u t0 t (insert ?b X) t''" by simp
  qed
  show ?thesis unfolding put_back_def by (rule io_total_bind [OF ex io_total_bind [OF mid ren]])
qed

lemma io_total_restore_file:
  assumes q: "t (backup_at R u @ q) = Some (FileNode c)" "backup_at R u @ q \<notin> X" and t: "tree_wf t" "\<not> is_root R"
  shows "io_total (returning R u t0 t X) (restore_file R (backup_at R u) (backup_at R u @ q))
    (\<lambda>_. returning R u t0 t (insert (backup_at R u @ q) X))"
proof (cases "outside u q")
  case True
  have ne: "0 < length q" using True by (simp add: outside_def)
  have eq: "restore_file R (backup_at R u) (backup_at R u @ q) =
      io_bind (real_parents ''update recovery parent must be a real directory'' R (butlast q)) (\<lambda>_.
        put_back (backup_at R u @ q) (R @ q) ''update recovery destination must be a real file'')"
    using ne by (simp add: restore_file_def ensure_recovery_parents_def below_def Let_def butlast_append)
  have "io_total (returning R u t0 t X) (real_parents s R (butlast q))
      (\<lambda>_ t'. returning R u t0 t X t' \<and> t' (R @ butlast q) = Some DirNode)" for s
    by (rule io_total_conseq [OF io_total_recovery_parents [OF True q(1) t ne, of t0 X s, simplified]])
      (auto dest: returningD(4))
  then show ?thesis unfolding eq by (rule io_total_bind [OF _ io_total_put_back [OF True q t]])
next
  case False
  have "\<not> returning R u t0 t X t'" for t'
  proof
    assume r: "returning R u t0 t X t'"
    have "t' (backup_at R u @ q) = Some (FileNode c)" using returningD(2) [OF r] q by simp
    from never_lost_backup(1) [OF returningD(1) [OF r] this] False show False by simp
  qed
  then show ?thesis by (intro io_total_absurd) blast
qed

text \<open>The entries of one directory.\<close>

lemma io_total_restore_entries:
  assumes t: "tree_wf t" "\<not> is_root R" and "distinct names"
    and "\<And>n. n \<in> set names \<Longrightarrow> t (backup_at R u @ d @ [n]) \<noteq> None"
    and "\<And>n l. n \<in> set names \<Longrightarrow> t (backup_at R u @ d @ [n]) \<noteq> Some (SymlinkNode l)"
    and "\<And>n. n \<in> set names \<Longrightarrow> backup_at R u @ d @ [n] \<notin> X"
  shows "io_total (returning R u t0 t X)
    (restore_entries R (backup_at R u) (backup_at R u @ d) names directories)
    (\<lambda>out t'. out = rev (kids t (backup_at R u @ d) names) @ directories \<and>
       returning R u t0 t (X \<union> fst ` set (files_in t (backup_at R u @ d) names)) t')"
  using assms(3-)
proof (induction names arbitrary: X directories)
  case Nil
  show ?case unfolding restore_entries.simps by (rule io_total_return) (simp add: kids_def files_in_def)
next
  case (Cons n names)
  let ?p = "(backup_at R u @ d) @ [n]"
  have p: "?p = backup_at R u @ (d @ [n])" by simp
  have here: "t ?p \<noteq> None" "\<And>l. t ?p \<noteq> Some (SymlinkNode l)" "?p \<notin> X" using Cons.prems(2-4) [of n] by simp_all
  have now: "t' ?p = t ?p" if "returning R u t0 t X t'" for t'
    unfolding p using returningD(2) [OF that, of "d @ [n]"] here(3) by simp
  obtain node where node: "t ?p = Some node" using here(1) by blast
  have stat: "io_total (returning R u t0 t X) (fs_symlink_metadata ?p) (\<lambda>x t'. returning R u t0 t X t' \<and> x = node)"
    by (rule io_total_conseq [OF io_total_stat [where P = "returning R u t0 t X"]]) (use now node in auto)
  show ?case unfolding restore_entries.simps
  proof (rule io_total_bind [OF stat])
    fix x
    let ?rest = "case x of
        FileNode c \<Rightarrow> io_bind (restore_file R (backup_at R u) ?p) (\<lambda>_.
          restore_entries R (backup_at R u) (backup_at R u @ d) names directories)
      | DirNode \<Rightarrow> restore_entries R (backup_at R u) (backup_at R u @ d) names (?p # directories)
      | SymlinkNode l \<Rightarrow> io_fail (UnsafeFilesystemEntry ?p ''symbolic links are forbidden in update backups'')"
    let ?Q = "\<lambda>out t'. out = rev (kids t (backup_at R u @ d) (n # names)) @ directories \<and>
       returning R u t0 t (X \<union> fst ` set (files_in t (backup_at R u @ d) (n # names))) t'"
    show "io_total (\<lambda>t'. returning R u t0 t X t' \<and> x = node) ?rest ?Q"
    proof (cases "x = node")
      case False
      then show ?thesis by (intro io_total_absurd) simp
    next
      case True
      show ?thesis
      proof (cases node)
        case (FileNode c)
        let ?X = "insert ?p X"
        have IH: "io_total (returning R u t0 t ?X) (restore_entries R (backup_at R u) (backup_at R u @ d) names directories)
            (\<lambda>out t'. out = rev (kids t (backup_at R u @ d) names) @ directories \<and>
              returning R u t0 t (?X \<union> fst ` set (files_in t (backup_at R u @ d) names)) t')"
          using Cons.prems by (intro Cons.IH) auto
        have one: "io_total (returning R u t0 t X) (restore_file R (backup_at R u) ?p) (\<lambda>_. returning R u t0 t ?X)"
          unfolding p by (rule io_total_restore_file [OF _ _ t]) (use node FileNode here(3) in simp_all)
        have k: "kids t (backup_at R u @ d) (n # names) = kids t (backup_at R u @ d) names"
          "fst ` set (files_in t (backup_at R u @ d) (n # names)) = insert ?p (fst ` set (files_in t (backup_at R u @ d) names))"
          using node FileNode by (simp_all add: kids_def files_in_def file_here_def)
        show ?thesis unfolding True FileNode node.case k
          by (rule io_total_conseq [OF io_total_bind [OF one IH]]) simp_all
      next
        case DirNode
        have IH: "io_total (returning R u t0 t X) (restore_entries R (backup_at R u) (backup_at R u @ d) names (?p # directories))
            (\<lambda>out t'. out = rev (kids t (backup_at R u @ d) names) @ (?p # directories) \<and>
              returning R u t0 t (X \<union> fst ` set (files_in t (backup_at R u @ d) names)) t')"
          using Cons.prems by (intro Cons.IH) auto
        have k: "kids t (backup_at R u @ d) (n # names) = ?p # kids t (backup_at R u @ d) names"
          "files_in t (backup_at R u @ d) (n # names) = files_in t (backup_at R u @ d) names"
          using node DirNode by (simp_all add: kids_def files_in_def file_here_def)
        show ?thesis unfolding True DirNode node.case k by (rule io_total_conseq [OF IH]) simp_all
      next
        case (SymlinkNode l)
        with node here(2) [of l] show ?thesis by simp
      qed
    qed
  qed
qed

text \<open>
  The listings of the backup directory are complete, also while it empties.
\<close>

definition lists_backups :: "entry_order \<Rightarrow> path \<Rightarrow> tree \<Rightarrow> bool" where
  "lists_backups entries B t \<longleftrightarrow> (\<forall>t' d. (\<forall>q. t' (B @ q) = t (B @ q) \<or> t' (B @ q) = None) \<longrightarrow>
     t' (B @ d) = Some DirNode \<longrightarrow> lists_directory entries (B @ d) t')"

abbreviation files_under :: "tree \<Rightarrow> path list \<Rightarrow> path set" where
  "files_under t pending \<equiv> \<Union>p \<in> set pending. fst ` files_below t p"

lemma file_in_files_below: "t (p @ q) = Some (FileNode c) \<Longrightarrow> q \<noteq> [] \<Longrightarrow> p @ q \<in> fst ` files_below t p"
  unfolding files_below_def by (force simp: image_iff)

text \<open>The files below a directory: its own and those below its subdirectories; none of them is below another directory of the stack.\<close>

lemma files_under_step:
  assumes "tree_wf t" "stack_ok t (d # pending)" "lists_directory (\<lambda>_ _. names) d t"
  shows "files_under t (d # pending) = fst ` set (files_in t d names) \<union> files_under t (rev (kids t d names) @ pending)"
proof -
  have d: "\<not> is_root d" using assms(2) by (simp add: stack_ok_def)
  note k = set_kids [OF assms(3)] and f = set_files_in [OF assms(3)]
  have "files_below t d = set (files_in t d names) \<union> (\<Union>n \<in> subdirs t d. files_below t (d @ [n]))"
    unfolding f by (rule files_below_step [OF assms(1) d])
  then have "fst ` files_below t d = fst ` set (files_in t d names) \<union> (\<Union>p \<in> set (kids t d names). fst ` files_below t p)"
    unfolding k by auto
  then show ?thesis by auto
qed

lemma files_under_apart:
  assumes "stack_ok t (d # pending)" "lists_directory (\<lambda>_ _. names) d t"
  shows "fst ` set (files_in t d names) \<inter> files_under t (rev (kids t d names) @ pending) = {}"
proof (rule equals0I)
  fix x assume x: "x \<in> fst ` set (files_in t d names) \<inter> files_under t (rev (kids t d names) @ pending)"
  obtain n where n: "x = d @ [n]" using x unfolding set_files_in [OF assms(2)] by auto
  obtain p where p': "p \<in> set (kids t d names) \<union> set pending" "x \<in> fst ` files_below t p" using x by auto
  from p'(2) obtain q where "x = p @ q" "q \<noteq> []" by (auto simp: files_below_def)
  with p'(1) have p: "p \<in> set (kids t d names) \<union> set pending" "x = p @ q" "q \<noteq> []" by simp_all
  have "\<exists>r. d = p @ r" using n p(2,3) by (cases q rule: rev_cases) auto
  then obtain r where r: "d = p @ r" ..
  show False
  proof (cases "p \<in> set (kids t d names)")
    case True
    then obtain m where "p = d @ [m]" by (auto simp: set_kids [OF assms(2)])
    with r show False by simp
  next
    case False
    with p(1) assms(1) have "incomparable d p" by (auto simp: stack_ok_def)
    with r show False unfolding incomparable_def by blast
  qed
qed

lemma io_total_restore_directories:
  assumes t: "tree_wf t" "finite (dom t)" "\<not> is_root R" and links: "\<And>q l. t (backup_at R u @ q) \<noteq> Some (SymlinkNode l)"
    and ls: "lists_backups entries (backup_at R u) t"
    and X: "\<And>p. p \<in> X \<Longrightarrow> \<exists>c. t p = Some (FileNode c)"
    and "stack_ok t pending" "\<forall>p \<in> set pending. below (backup_at R u) p" "X \<inter> files_under t pending = {}"
    and "sum_list (map (\<lambda>p. card (dirs_below t p)) pending) \<le> fuel"
  shows "io_total (returning R u t0 t X) (restore_directories entries fuel R (backup_at R u) pending)
    (\<lambda>_. returning R u t0 t (X \<union> files_under t pending))"
  using assms(6-)
proof (induction fuel arbitrary: pending X)
  case 0
  have "pending = []"
  proof (cases pending)
    case (Cons d ds)
    with 0 card_dirs_below [OF t(1,2), of d] show ?thesis by (simp add: stack_ok_def)
  qed
  then show ?case by (simp only: restore_directories.simps) (rule io_total_return, simp)
next
  case (Suc fuel)
  let ?B = "backup_at R u" and ?I = "returning R u t0 t X"
  show ?case
  proof (cases pending)
    case Nil
    show ?thesis unfolding Nil restore_directories.simps by (rule io_total_return) simp
  next
    case (Cons p ds)
    have d: "t p = Some DirNode" "\<not> is_root p" "stack_ok t (p # ds)" "below ?B p"
      using Suc.prems(2,3) Cons by (auto simp: stack_ok_def)
    then obtain d' where p: "p = ?B @ d'" by (metis append_take_drop_id below_def)
    have pX: "p \<notin> X" using Suc.prems(1) [of p] d(1) by auto
    have kidX: "p @ [n] \<notin> X" for n
    proof
      assume "p @ [n] \<in> X"
      with Suc.prems(1) obtain c where "t (p @ [n]) = Some (FileNode c)" by blast
      then have "p @ [n] \<in> files_under t pending" unfolding Cons using file_in_files_below [of t p "[n]" c] by simp
      with Suc.prems(4) \<open>p @ [n] \<in> X\<close> show False by blast
    qed
    have same: "t' p = Some DirNode" "t' (p @ [n]) = t (p @ [n])" if "?I t'" for t' n
    proof -
      show "t' p = Some DirNode" using returningD(2) [OF that, of d'] pX d(1) by (simp add: p)
      show "t' (p @ [n]) = t (p @ [n])" using returningD(2) [OF that, of "d' @ [n]"] kidX [of n] by (simp add: p)
    qed
    have listed: "lists_directory (\<lambda>_ _. entries p t') p t" if "?I t'" for t'
    proof -
      have "\<forall>q. t' (?B @ q) = t (?B @ q) \<or> t' (?B @ q) = None" using returningD(2) [OF that] by simp
      then have "lists_directory entries p t'" using ls same(1) [OF that] unfolding lists_backups_def p by blast
      then show ?thesis unfolding lists_directory_def same(2) [OF that] .
    qed
    have stat: "io_total ?I (fs_symlink_metadata p) (\<lambda>x t'. ?I t' \<and> x = DirNode)"
      by (rule io_total_conseq [OF io_total_stat [where P = ?I]]) (use same(1) in auto)
    have rd: "io_total ?I (fs_read_dir entries p) (\<lambda>names t'. ?I t' \<and> lists_directory (\<lambda>_ _. names) p t)"
      unfolding fs_read_dir_def
    proof (rule io_total_query)
      fix t' assume t': "?I t'"
      show "\<exists>x. (case follow 40 t' p of None \<Rightarrow> Inl (IoOther ''too many levels of symbolic links'')
          | Some q \<Rightarrow> if is_dir t' q then Inr (entries q t')
                      else if t' q = None then Inl IoNotFound else Inl (IoOther ''not a directory'')) = Inr x \<and>
          ?I t' \<and> lists_directory (\<lambda>_ _. x) p t"
        using same(1) [OF t'] listed [OF t'] t' by (intro exI [of _ "entries p t'"]) (simp add: follow_plain is_dir_def)
    qed
    have loop: "io_total (\<lambda>t'. ?I t' \<and> lists_directory (\<lambda>_ _. names) p t)
        (io_bind (restore_entries R ?B p names ds) (restore_directories entries fuel R ?B))
        (\<lambda>_. returning R u t0 t (X \<union> files_under t pending))" for names
    proof (cases "lists_directory (\<lambda>_ _. names) p t")
      case False
      then show ?thesis by (intro io_total_absurd) blast
    next
      case True
      let ?X = "X \<union> fst ` set (files_in t p names)" and ?ds = "rev (kids t p names) @ ds"
      have names: "distinct names" "\<And>n. n \<in> set names \<Longrightarrow> t (p @ [n]) \<noteq> None" using True by (auto simp: lists_directory_def)
      have one: "io_total ?I (restore_entries R ?B p names ds) (\<lambda>out t'. out = ?ds \<and> returning R u t0 t ?X t')"
        unfolding p by (rule io_total_restore_entries [OF t(1,3) names(1)])
          (use names(2) links [of "d' @ [_]"] kidX in \<open>simp_all add: p\<close>)
      have step: "X \<union> files_under t pending = ?X \<union> files_under t ?ds"
        unfolding Cons files_under_step [OF t(1) d(3) True] by blast
      have disj: "?X \<inter> files_under t ?ds = {}"
        using Suc.prems(4) files_under_apart [OF d(3) True] unfolding Cons files_under_step [OF t(1) d(3) True] by blast
      have weight: "sum_list (map (\<lambda>p. card (dirs_below t p)) ?ds) \<le> fuel"
        using weight_push [OF t(1,2) d(3) True] Suc.prems(5) Cons by simp
      have files: "\<exists>c. t x = Some (FileNode c)" if "x \<in> ?X" for x
        using that Suc.prems(1) set_files_in [OF True] by auto
      have under: "\<forall>x \<in> set ?ds. below ?B x"
        using Suc.prems(3) set_kids [OF True] unfolding Cons p by (auto simp: below_def)
      have two: "io_total (returning R u t0 t ?X) (restore_directories entries fuel R ?B ?ds)
          (\<lambda>_. returning R u t0 t (X \<union> files_under t pending))"
        unfolding step by (rule Suc.IH [OF files stack_ok_push [OF d(3) True] under disj weight])
      have more: "io_total (\<lambda>t'. out = ?ds \<and> returning R u t0 t ?X t') (restore_directories entries fuel R ?B out)
          (\<lambda>_. returning R u t0 t (X \<union> files_under t pending))" for out
        by (cases "out = ?ds") (use two in \<open>simp_all add: io_total_absurd\<close>)
      show ?thesis using True by (intro io_total_conseq [OF io_total_bind [OF one more]]) simp_all
    qed
    show ?thesis unfolding Cons restore_directories.simps
    proof (rule io_total_bind [OF stat])
      fix m
      show "io_total (\<lambda>t'. ?I t' \<and> m = DirNode)
        (if m \<noteq> DirNode then io_fail (UnsafeFilesystemEntry p ''update backup entry must be a real directory'')
         else io_bind (fs_read_dir entries p) (\<lambda>names.
           io_bind (restore_entries R ?B p names ds) (restore_directories entries fuel R ?B)))
        (\<lambda>_. returning R u t0 t (X \<union> files_under t (p # ds)))"
      proof (cases "m = DirNode")
        case True
        then have n: "\<not> m \<noteq> DirNode" by simp
        show ?thesis unfolding if_not_P [OF n]
          by (rule io_total_conseq [OF io_total_bind [OF rd loop [unfolded Cons]]]) simp_all
      next
        case False
        then show ?thesis by (intro io_total_absurd) simp
      qed
    qed
  qed
qed


section \<open>Saved documents\<close>

text \<open>\<open>copy_real_file\<close>, with which an update saves \<^verbatim>\<open>instance.json\<close> and \<^verbatim>\<open>managed-files.json\<close> before it changes them.\<close>

definition copy_real_file :: "path \<Rightarrow> path \<Rightarrow> unit io" where
  "copy_real_file source destination =
     io_bind (require_source source ''transaction metadata source must be a real file'') (\<lambda>_.
     io_bind (fs_read source) (fs_write destination))"

lemma require_source_run:
  "w_faults w = [] \<Longrightarrow> w_tree w p = Some (FileNode c) \<Longrightarrow> require_source p reason w = (Inr (), w)"
  by (simp add: require_source_def io_bind_def symlink_metadata_run(1) is_file_node_def)

lemma try_exists_run:
  "w_faults w = [] \<Longrightarrow> w_tree w p = Some (FileNode c) \<Longrightarrow> fs_try_exists p w = (Inr True, w)"
  by (simp add: fs_try_exists_def io_query_run follow_plain)

lemma restore_metadata_run:
  assumes w: "w_faults w = []" and s: "w_tree w source = Some (FileNode c)" and d: "w_tree w destination = Some (FileNode b)"
    and "source \<noteq> destination" "is_dir (w_tree w) (butlast destination)" "destination \<noteq> []" "\<not> is_root destination"
  shows "\<exists>w'. restore_metadata_file source destination w = (Inr (), w') \<and>
    w_tree w' = (w_tree w)(destination \<mapsto> FileNode c, source := None)"
proof -
  let ?t = "(w_tree w)(destination := None)"
  have up: "butlast destination \<noteq> destination" using assms(6) by (metis append_butlast_last_id not_Cons_self2 self_append_conv)
  have rm: "fs_remove_file destination w = (Inr (), set_tree ?t w)"
    by (simp add: fs_remove_file_def io_step_run w remove_file_tree_def d)
  have "is_dir ?t (butlast destination)" using assms(5) up by (simp add: is_dir_def)
  then have "rename_tree source destination ?t = Inr (?t(destination \<mapsto> FileNode c, source := None))"
    using s assms(4,7) by (auto simp: rename_tree_def is_dir_def)
  then have ren: "fs_rename source destination (set_tree ?t w) = (Inr (), set_tree (?t(destination \<mapsto> FileNode c, source := None)) (set_tree ?t w))"
    by (simp add: fs_rename_def io_step_run set_tree_def w)
  have "put_back source destination reason w = (Inr (), set_tree (?t(destination \<mapsto> FileNode c, source := None)) (set_tree ?t w))" for reason
    by (simp only: put_back_def io_bind_def try_exists_run [OF w d] require_source_run [OF w d] rm ren prod.case sum.case if_True)
  then have "restore_metadata_file source destination w =
      (Inr (), set_tree (?t(destination \<mapsto> FileNode c, source := None)) (set_tree ?t w))"
    by (simp only: restore_metadata_file_def io_bind_def try_exists_run [OF w s] require_source_run [OF w s] prod.case sum.case
        simp_thms if_False)
  then show ?thesis by (simp add: set_tree_def)
qed

text \<open>C19: the copy that an update saves of a document is not written atomically, and the recovery trusts it: a process that stops while
  it saves \<^verbatim>\<open>instance.json\<close> may leave any shorter prefix in the copy, and the recovery then replaces the
  undamaged document with that prefix.\<close>

theorem torn_copy_replaces_document:
  assumes "w_tree w document = Some (FileNode c)" "w_tree w saved = None" "is_dir (w_tree w) (butlast saved)"
    and "is_dir (w_tree w) (butlast document)" "\<not> is_root document" "\<not> is_root saved" "butlast document \<noteq> saved"
    and "w_faults w = []" "n < length c"
  shows "\<exists>w' t. copy_real_file document saved w = (Inr (), w') \<and> t \<in> set (w_crash w') \<and>
    (\<forall>v. w_tree v = t \<longrightarrow> w_faults v = [] \<longrightarrow>
      (\<exists>v'. restore_metadata_file saved document v = (Inr (), v') \<and> w_tree v' document = Some (FileNode (take n c))))"
proof -
  let ?torn = "\<lambda>k. (w_tree w)(saved \<mapsto> FileNode (take k c))"
  have ne: "saved \<noteq> document" "document \<noteq> []" using assms(1,2,5) by (auto simp: is_root_def)
  have wt: "write_target saved (w_tree w) = Inr saved"
    using assms(2,3,6) by (simp add: write_target_def follow_plain is_dir_def)
  let ?w1 = "set_tree ((w_tree w)(saved \<mapsto> FileNode c)) (w\<lparr>w_crash := map ?torn [0..<length c] @ w_crash w\<rparr>)"
  have wr: "fs_write saved c w = (Inr (), ?w1)"
    by (simp add: fs_write_def next_fault_def assms(8) wt Let_def)
  have "copy_real_file document saved w = (Inr (), ?w1)"
    by (simp only: copy_real_file_def io_bind_def require_source_run [OF assms(8,1)] read_file_run [OF assms(8,1)]
        wr prod.case sum.case)
  moreover have "?torn n \<in> set (w_crash ?w1)" using assms(9) by (simp add: set_tree_def)
  moreover have "\<exists>v'. restore_metadata_file saved document v = (Inr (), v') \<and> w_tree v' document = Some (FileNode (take n c))"
    if v: "w_tree v = ?torn n" "w_faults v = []" for v
  proof -
    have s: "w_tree v saved = Some (FileNode (take n c))" "w_tree v document = Some (FileNode c)"
      "is_dir (w_tree v) (butlast document)"
      using assms(1,4,7) ne(1) by (simp_all add: v(1) is_dir_def)
    from restore_metadata_run [OF v(2) s(1,2) ne(1) s(3) ne(2) assms(5)] ne(1) show ?thesis by auto
  qed
  ultimately show ?thesis by blast
qed

section \<open>An example\<close>

definition sample_backed_up :: tree where
  "sample_backed_up = sample_exchange_tree(
     [''i'', ''one'', ''runtime'', ''update-1'', ''backups'', ''.minecraft''] \<mapsto> DirNode,
     [''i'', ''one'', ''runtime'', ''update-1'', ''backups'', ''.minecraft'', ''old''] \<mapsto> FileNode ''1'',
     [''i'', ''one'', ''.minecraft'', ''old''] := None)"

definition sample_entries :: entry_order where
  "sample_entries p t = filter (\<lambda>n. t (p @ [n]) \<noteq> None) [''.minecraft'', ''old'']"

definition sample_restart :: world where
  "sample_restart = sample_store\<lparr>w_tree := sample_backed_up\<rparr>"

lemma create_dir_all_present:
  assumes "\<And>q. q \<in> set (ancestors p) \<Longrightarrow> t q = Some DirNode"
  shows "create_dir_all_tree p t = Inr t"
proof -
  have "\<not> list_ex (\<lambda>q. t q \<noteq> None \<and> \<not> dir_or_link t q) (ancestors p)"
    using assms by (auto simp: list_ex_iff dir_or_link_def follow_plain is_dir_def)
  moreover have "(\<lambda>q. if q \<in> set (ancestors p) \<and> t q = None \<and> \<not> is_root q then Some DirNode else t q) = t"
    using assms by (intro ext) auto
  ultimately show ?thesis by (simp add: create_dir_all_tree_def)
qed

lemma sample_backup_stopped:
  "\<exists>w'. exchange_files sample_root (files_at sample_root ''update-1'') (backup_at sample_root ''update-1'')
     [''.minecraft/old''] [] (sample_exchange Map.empty) = (Inr [], w') \<and> sample_backed_up \<in> set (w_crash w')"
proof -
  let ?w = "sample_exchange Map.empty" and ?R = sample_root and ?B = "backup_at sample_root ''update-1''"
  let ?x = "[''.minecraft'', ''old'']"
  obtain r where r: "srp_new ''.minecraft/old'' = Inr r" using sample_exchange_paths(1) by (auto simp: exchange_path_def)
  have rel: "rel ''.minecraft/old'' = ?x" by code_simp
  note j = exchange_path_join [OF r, unfolded rel]
  have t: "w_tree ?w = sample_exchange_tree" by simp
  have B: "?B = [''i'', ''one'', ''runtime'', ''update-1'', ''backups'']" by (simp add: staging_root_def)
  have anc: "ancestors ?B = [[''i''], [''i'', ''one''], [''i'', ''one'', ''runtime''], [''i'', ''one'', ''runtime'', ''update-1''], ?B]"
    unfolding B by code_simp
  have all: "create_dir_all_tree ?B sample_exchange_tree = Inr sample_exchange_tree"
    by (rule create_dir_all_present) (auto simp: anc [unfolded B] B sample_exchange_tree_def)
  let ?w1 = "set_tree sample_exchange_tree ?w"
  let ?t2 = "sample_exchange_tree(?B @ [''.minecraft''] \<mapsto> DirNode)"
  let ?w2 = "set_tree ?t2 ?w1"
  have w1: "w_faults ?w1 = []" "w_tree ?w1 = sample_exchange_tree" "w_faults ?w2 = []" "w_tree ?w2 = ?t2"
    by (simp_all add: set_tree_def)
  have look: "sample_exchange_tree ?B = Some DirNode" "sample_exchange_tree (?B @ [''.minecraft'']) = None"
    "sample_exchange_tree (?R @ ?x) = Some (FileNode ''1'')" by (simp_all add: B sample_exchange_tree_def)
  have "create_dir_tree (?B @ [''.minecraft'']) sample_exchange_tree = Inr ?t2"
    using look(1,2) by (simp add: create_dir_tree_def is_dir_def B is_root_def)
  then have mk: "fs_create_dir (?B @ [''.minecraft'']) ?w1 = (Inr (), ?w2)"
    by (simp add: fs_create_dir_def io_step_run w1)
  have found: "find_node (?B @ [''.minecraft'']) ?w1 = (Inr None, ?w1)"
    using find_node_run [OF w1(1), of "?B @ [''.minecraft'']"] look(2) by (simp add: w1 is_root_def B)
  have par: "real_parent s (?B @ [''.minecraft'']) ?w1 = (Inr (), ?w2)" for s
    by (simp only: real_parent_def io_bind_def found prod.case sum.case option.case mk)
  have parents: "ensure_real_parents ?B r ?w = (Inr (), ?w2)"
  proof -
    have "fs_create_dir_all ?B ?w = (Inr (), ?w1)" by (simp add: fs_create_dir_all_def io_step_run t all)
    moreover have "fs_symlink_metadata ?B ?w1 = (Inr DirNode, ?w1)"
      by (rule symlink_metadata_run(1)) (simp_all add: w1 look(1))
    moreover have "butlast (rel (srp_str r)) = [''.minecraft'']" by (simp add: j rel)
    ultimately show ?thesis by (simp only: ensure_real_parents_def io_bind_def par prod.case sum.case real_parents.simps io_run_simps simp_thms if_False)
  qed
  have ren: "rename_tree (?R @ ?x) (?B @ ?x) ?t2 = Inr sample_backed_up"
    by (simp add: rename_tree_def sample_backed_up_def sample_exchange_tree_def B is_dir_def is_root_def)
  let ?w3 = "set_tree sample_backed_up ?w2"
  have "fs_rename (?R @ ?x) (?B @ ?x) ?w2 = (Inr (), ?w3)"
    unfolding fs_rename_def io_step_run [OF w1(3)] w1(4) ren by (simp only: sum.case)
  moreover have "find_node (?R @ ?x) ?w = (Inr (Some (FileNode ''1'')), ?w)"
    using find_node_run [of ?w "?R @ ?x"] look(3) by (simp add: is_root_def)
  ultimately have move: "move_to_backup ?R ?B ''.minecraft/old'' ?w = (Inr (), ?w3)"
    by (simp only: move_to_backup_def r j Let_def lift_bind io_bind_def parents is_file_node_def prod.case sum.case option.case
        node.case simp_thms if_False)
  have "exchange_files ?R (files_at ?R ''update-1'') ?B [''.minecraft/old''] [] ?w = (Inr [], ?w3)"
    by (simp add: exchange_files_def io_bind_def or_rollback_def io_catch_def move)
  then show ?thesis by (auto simp: set_tree_def)
qed

lemma sample_interrupted:
  "interrupted sample_entries 2 sample_root ''update-1'' [''.minecraft/old''] [] sample_exchange_tree sample_backed_up"
  using sample_backup_stopped by (auto intro!: exchange_stopped [of "sample_exchange Map.empty"])

lemma sample_ready:
  "exchange_ready sample_root ''update-1'' [''.minecraft/old''] [] sample_exchange_tree"
  using sample_exchange_ready [of Map.empty] by (simp add: exchange_ready_def)

lemma sample_backed_up_at:
  "sample_backed_up (backup_at sample_root ''update-1'' @ q) =
     (if q = [] \<or> q = [''.minecraft''] then Some DirNode
      else if q = [''.minecraft'', ''old''] then Some (FileNode ''1'') else None)"
  by (simp add: sample_backed_up_def sample_exchange_tree_def staging_root_def)

lemmas sample_backed_up_here = sample_backed_up_at [simplified append_assoc append_Cons append_Nil]

lemma sample_recoverable: "recoverable sample_root ''update-1'' sample_backed_up"
  unfolding recoverable_def
proof (intro conjI)
  show "tree_wf sample_backed_up"
    by (auto simp: tree_wf_def sample_backed_up_def sample_exchange_tree_def is_dir_def is_root_def split: if_splits)
  show "finite (dom sample_backed_up)" by (simp add: sample_backed_up_def sample_exchange_tree_def)
  show "backups_fit sample_root (backup_at sample_root ''update-1'') sample_backed_up sample_backed_up"
    unfolding backups_fit_def sample_backed_up_at
  proof (intro allI impI)
    fix q c assume "(if q = [] \<or> q = [''.minecraft''] then Some DirNode
      else if q = [''.minecraft'', ''old''] then Some (FileNode ''1'') else None) = Some (FileNode c)"
    then have q: "q = [''.minecraft'', ''old'']" by (simp split: if_splits)
    have "free_or_dir sample_backed_up (sample_root @ take 1 q)" "free_or_file sample_backed_up (sample_root @ q)"
      by (simp_all add: q free_or_dir_def free_or_file_def sample_backed_up_def sample_exchange_tree_def)
    moreover have "n = 1" if "0 < n \<and> n < length q" for n using that by (simp add: q)
    ultimately show "(\<forall>n. 0 < n \<and> n < length q \<longrightarrow> free_or_dir sample_backed_up (sample_root @ take n q)) \<and>
        free_or_file sample_backed_up (sample_root @ q)" by blast
  qed
qed (simp_all add: sample_backed_up_here is_root_def)

lemma sample_lists_backups: "lists_backups sample_entries (backup_at sample_root ''update-1'') sample_backed_up"
  unfolding lists_backups_def
proof (intro allI impI)
  fix t' d assume t': "\<forall>q. t' (backup_at sample_root ''update-1'' @ q) = sample_backed_up (backup_at sample_root ''update-1'' @ q) \<or>
      t' (backup_at sample_root ''update-1'' @ q) = None"
  have names: "n = ''.minecraft'' \<or> n = ''old''" if "t' ((backup_at sample_root ''update-1'' @ d) @ [n]) \<noteq> None" for n
    using spec [OF t', of "d @ [n]"] that by (auto simp: sample_backed_up_here split: if_splits)
  show "lists_directory sample_entries (backup_at sample_root ''update-1'' @ d) t'"
    unfolding lists_directory_def sample_entries_def
  proof
    show "distinct (filter (\<lambda>n. t' ((backup_at sample_root ''update-1'' @ d) @ [n]) \<noteq> None) [''.minecraft'', ''old''])" by simp
    show "set (filter (\<lambda>n. t' ((backup_at sample_root ''update-1'' @ d) @ [n]) \<noteq> None) [''.minecraft'', ''old'']) =
        {n. t' ((backup_at sample_root ''update-1'' @ d) @ [n]) \<noteq> None}"
      using names unfolding set_filter list.set by blast
  qed
qed

lemma sample_backup_dirs: "card (dirs_below sample_backed_up (backup_at sample_root ''update-1'')) \<le> 2"
proof -
  have "dirs_below sample_backed_up (backup_at sample_root ''update-1'') \<subseteq> {[], [''.minecraft'']}"
    by (auto simp: dirs_below_def sample_backed_up_here split: if_splits)
  then have "card (dirs_below sample_backed_up (backup_at sample_root ''update-1'')) \<le> card {[], [''.minecraft'']}"
    by (intro card_mono) auto
  then show ?thesis by simp
qed

theorem interrupted_never_loses_files_witness:
  "never_lost sample_root ''update-1'' sample_exchange_tree sample_backed_up"
  by (rule interrupted_never_loses_files [OF sample_ready sample_interrupted])


theorem torn_copy_replaces_document_witness:
  "\<exists>w' t. copy_real_file [''i'', ''one'', ''.minecraft'', ''old''] [''i'', ''one'', ''saved''] (sample_exchange Map.empty) = (Inr (), w') \<and>
     t \<in> set (w_crash w') \<and> (\<forall>v. w_tree v = t \<longrightarrow> w_faults v = [] \<longrightarrow>
       (\<exists>v'. restore_metadata_file [''i'', ''one'', ''saved''] [''i'', ''one'', ''.minecraft'', ''old''] v = (Inr (), v') \<and>
         w_tree v' [''i'', ''one'', ''.minecraft'', ''old''] = Some (FileNode [])))"
  using torn_copy_replaces_document [of "sample_exchange Map.empty" "[''i'', ''one'', ''.minecraft'', ''old'']" "''1''"
      "[''i'', ''one'', ''saved'']" 0]
  by (simp add: sample_exchange_tree_def is_dir_def is_root_def)

end
